(* ===== verification/Prelude.thy ===== *)
theory Prelude
  imports Main "HOL-Library.Word"
begin

text \<open>
  The shared vocabulary of the development: C's fixed-width signed integers as mathematical
  integers with the two's complement wrap-around written out, byte strings and their
  little-endian value, and the digit and bit lemmas that the component theories share.
\<close>

unbundle bit_operations_syntax

named_theorems wrap_simps \<open>removal of wrap-arounds under range conditions\<close>
named_theorems le_simps \<open>little-endian values of byte strings\<close>

section \<open>Fixed-width signed integers\<close>

text \<open>
  An \<^verbatim>\<open>int32_t\<close> or \<^verbatim>\<open>int64_t\<close> variable holds an integer; every assignment to it goes through
  \<open>s32\<close> or \<open>s64\<close>, the reduction into the two's complement range.  C's arithmetic right shift
  is \<^term>\<open>drop_bit\<close> on \<^typ>\<open>int\<close>, its left shift \<^term>\<open>push_bit\<close>.
\<close>

type_synonym byte = "8 word"
type_synonym u32 = "32 word"
type_synonym u64 = "64 word"

definition s32 :: "int \<Rightarrow> int" where
  "s32 x = (x + 2 ^ 31) mod 2 ^ 32 - 2 ^ 31"

definition s64 :: "int \<Rightarrow> int" where
  "s64 x = (x + 2 ^ 63) mod 2 ^ 64 - 2 ^ 63"

definition s8 :: "int \<Rightarrow> int" where
  "s8 x = (x + 2 ^ 7) mod 2 ^ 8 - 2 ^ 7"

text \<open>The little-endian value of a byte string.\<close>

primrec le :: "byte list \<Rightarrow> int" where
  "le [] = 0"
| "le (b # bs) = uint b + 256 * le bs"

section \<open>Wrap-around lemmas\<close>

lemma s32_id [wrap_simps]: "- (2 ^ 31) \<le> x \<Longrightarrow> x < 2 ^ 31 \<Longrightarrow> s32 x = x"
  by (simp add: s32_def)

lemma s64_id [wrap_simps]: "- (2 ^ 63) \<le> x \<Longrightarrow> x < 2 ^ 63 \<Longrightarrow> s64 x = x"
  by (simp add: s64_def)

lemma s8_id [wrap_simps]: "- (2 ^ 7) \<le> x \<Longrightarrow> x < 2 ^ 7 \<Longrightarrow> s8 x = x"
  by (simp add: s8_def)

lemma s32_range: "- (2 ^ 31) \<le> s32 x" "s32 x < 2 ^ 31"
  by (simp_all add: s32_def)

lemma s64_range: "- (2 ^ 63) \<le> s64 x" "s64 x < 2 ^ 63"
  by (simp_all add: s64_def)

text \<open>Two's complement arithmetic is a ring homomorphism: an inner wrap-around is absorbed by
  an outer one.\<close>

lemma s64_add_left: "s64 (s64 x + y) = s64 (x + y)"
proof -
  have "(s64 x + y + 2 ^ 63) mod 2 ^ 64 = ((x + 2 ^ 63) mod 2 ^ 64 + y) mod 2 ^ 64"
    by (simp add: s64_def)
  also have "\<dots> = (x + 2 ^ 63 + y) mod 2 ^ 64"
    by (rule mod_add_left_eq)
  also have "\<dots> = (x + y + 2 ^ 63) mod 2 ^ 64"
    by (simp add: ac_simps)
  finally show ?thesis
    by (simp add: s64_def)
qed

lemma s64_add_right: "s64 (x + s64 y) = s64 (x + y)"
  using s64_add_left [of y x] by (simp add: ac_simps)

lemmas s64_ring = s64_add_left s64_add_right

section \<open>Shifts and bitwise operations on integers\<close>

lemma drop_bit_int_bounds:
  fixes x :: int
  assumes "l \<le> x" "x \<le> h"
  shows "l div 2 ^ w \<le> drop_bit w x" "drop_bit w x \<le> h div 2 ^ w"
  using assms by (simp_all add: drop_bit_eq_div zdiv_mono1)

lemma drop_bit_less_exp:
  fixes V :: int
  assumes "V < 2 ^ (j + m)"
  shows "drop_bit j V < 2 ^ m"
proof (rule ccontr)
  assume "\<not> drop_bit j V < 2 ^ m"
  then have "2 ^ m * 2 ^ j \<le> V div 2 ^ j * 2 ^ j"
    by (intro mult_right_mono) (simp_all add: drop_bit_eq_div)
  also have "\<dots> \<le> V"
    using minus_div_mult_eq_mod [of V "2 ^ j"] pos_mod_sign [of "2 ^ j" V]
    by (simp del: minus_div_mult_eq_mod pos_mod_sign)
  finally show False
    using assms by (simp add: power_add ac_simps)
qed

lemma drop_bit_remainder:
  fixes x :: int
  shows "x - push_bit w (drop_bit w x) = x mod 2 ^ w"
  by (simp add: drop_bit_eq_div push_bit_eq_mult minus_div_mult_eq_mod)

lemma div_eq_neg1:
  fixes x k :: int
  assumes "- k \<le> x" "x < 0"
  shows "x div k = - 1"
  by (rule int_div_pos_eq [where r = "x + k"]) (use assms in auto)

text \<open>The idiom \<^verbatim>\<open>((x - 1) >> 8) + 1\<close> that turns a byte into a flag.\<close>

lemma nonzero_flag:
  fixes x :: int
  assumes "0 \<le> x" "x < 256"
  shows "drop_bit 8 (x - 1) + 1 = (if x = 0 then 0 else 1)"
proof (cases "x = 0")
  case False
  with assms have "(x - 1) div 256 = 0"
    by (intro div_pos_pos_trivial) simp_all
  with False show ?thesis
    by (simp add: drop_bit_eq_div)
qed (simp add: drop_bit_eq_div)

lemma or_disjoint_int:
  fixes x y :: int
  assumes "0 \<le> x" "x < 2 ^ n"
  shows "x OR push_bit n y = x + push_bit n y"
proof -
  have "x = take_bit n x"
    using assms by (simp add: take_bit_eq_mod)
  moreover have "take_bit n x AND push_bit n y = 0"
    by (rule bit_eqI) (simp add: bit_simps)
  ultimately show ?thesis
    by (simp add: disjunctive_add_eq_or)
qed

lemma mod_sum_cong:
  fixes f g :: "'a \<Rightarrow> int"
  assumes "\<And>x. x \<in> A \<Longrightarrow> f x mod m = g x mod m"
  shows "sum f A mod m = sum g A mod m"
proof -
  have "(\<Sum>x\<in>A. f x mod m) = (\<Sum>x\<in>A. g x mod m)"
    using assms by (rule sum.cong [OF refl])
  then show ?thesis
    using mod_sum_eq [of f m A] mod_sum_eq [of g m A] by simp
qed

text \<open>Digits in base \<open>2 ^ w\<close>: the low \<open>n\<close> digits of a number make up its residue.\<close>

lemma digits_sum:
  fixes V :: int
  shows "(\<Sum>i<n. take_bit w (drop_bit (w * i) V) * 2 ^ (w * i)) = take_bit (w * n) V"
proof (induction n)
  case (Suc n)
  have "take_bit (w * n) V + take_bit w (drop_bit (w * n) V) * 2 ^ (w * n)
      = V mod 2 ^ (w * n) + 2 ^ (w * n) * (V div 2 ^ (w * n) mod 2 ^ w)"
    by (simp add: take_bit_eq_mod drop_bit_eq_div)
  also have "\<dots> = V mod (2 ^ (w * n) * 2 ^ w)"
    by (subst zmod_zmult2_eq) simp_all
  finally show ?case
    using Suc by (simp add: take_bit_eq_mod power_add [symmetric] ac_simps)
qed simp

section \<open>Little-endian byte strings\<close>

lemma le_nonneg [simp]: "0 \<le> le bs"
  by (induction bs) simp_all

lemma le_less: "le bs < 256 ^ length bs"
proof (induction bs)
  case (Cons b bs)
  have "uint b < 256"
    using uint_lt2p [of b] by simp
  with Cons show ?case by simp
qed simp

lemma le_append: "le (xs @ ys) = le xs + 256 ^ length xs * le ys"
  by (induction xs) (simp_all add: algebra_simps)

lemma le_replicate_0 [simp]: "le (replicate n 0) = 0"
  by (induction n) simp_all

lemma le_replicate_255: "le (replicate n 255) = 256 ^ n - 1"
  by (induction n) simp_all

lemma uint_byte_less [simp]: "uint (b :: byte) < 256"
  using uint_lt2p [of b] by simp

lemma le_Cons_take: "take_bit 8 (le (b # bs)) = uint b"
  by (simp add: take_bit_eq_mod)

lemma le_Cons_drop: "drop_bit 8 (le (b # bs)) = le bs"
  by (simp add: drop_bit_eq_div)

lemma le_drop: "le (drop k bs) = drop_bit (8 * k) (le bs)"
proof (induction k arbitrary: bs)
  case (Suc k)
  show ?case
  proof (cases bs)
    case (Cons b bs')
    have "drop_bit (8 * Suc k) (le (b # bs')) = drop_bit (8 * k) (drop_bit 8 (le (b # bs')))"
      by (simp add: drop_bit_drop_bit ac_simps del: le.simps)
    then show ?thesis
      using Cons Suc by (simp add: le_Cons_drop del: le.simps)
  qed simp
qed simp

lemma le_nth:
  assumes "k < length bs"
  shows "uint (bs ! k) = take_bit 8 (drop_bit (8 * k) (le bs))"
proof -
  have "drop k bs = bs ! k # drop (Suc k) bs"
    using assms by (rule Cons_nth_drop_Suc [symmetric])
  then show ?thesis
    using le_Cons_take [of "bs ! k" "drop (Suc k) bs"] le_drop [of k bs] by simp
qed

lemma le_eq_sum: "le bs = (\<Sum>k<length bs. uint (bs ! k) * 256 ^ k)"
proof -
  have "(\<Sum>k<length bs. uint (bs ! k) * 256 ^ k)
      = (\<Sum>k<length bs. take_bit 8 (drop_bit (8 * k) (le bs)) * 2 ^ (8 * k))"
    by (rule sum.cong) (simp_all add: le_nth power_mult)
  also have "\<dots> = take_bit (8 * length bs) (le bs)"
    by (rule digits_sum)
  also have "\<dots> = le bs"
    using le_less [of bs] by (simp add: take_bit_eq_mod power_mult)
  finally show ?thesis by simp
qed

lemma le_inject: "length xs = length ys \<Longrightarrow> le xs = le ys \<Longrightarrow> xs = ys"
  by (rule nth_equalityI) (auto intro!: word_uint_eqI simp: le_nth)

text \<open>A byte string whose bytes are the base-256 digits of \<open>v\<close> has the value \<open>v\<close>.\<close>

lemma le_digits:
  assumes "length bs = n" "0 \<le> v" "v < 256 ^ n"
    and "\<And>k. k < n \<Longrightarrow> uint (bs ! k) = take_bit 8 (drop_bit (8 * k) v)"
  shows "le bs = v"
proof -
  have "le bs = (\<Sum>k<n. take_bit 8 (drop_bit (8 * k) v) * 2 ^ (8 * k))"
    using assms(1,4) by (simp add: le_eq_sum power_mult)
  also have "\<dots> = take_bit (8 * n) v"
    by (rule digits_sum)
  also have "\<dots> = v"
    using assms(2,3) by (simp add: take_bit_eq_mod power_mult)
  finally show ?thesis .
qed

section \<open>The nonzero test on byte strings\<close>

lemma foldl_or_eq_0: "foldl (OR) (b :: byte) bs = 0 \<longleftrightarrow> b = 0 \<and> (\<forall>c \<in> set bs. c = 0)"
  by (induction bs arbitrary: b) (auto simp: or_eq_0_iff)

lemma le_eq_0_iff: "le bs = 0 \<longleftrightarrow> (\<forall>c \<in> set bs. c = 0)"
proof (induction bs)
  case (Cons b bs)
  have "0 \<le> uint b" "0 \<le> le bs"
    by simp_all
  then have "le (b # bs) = 0 \<longleftrightarrow> uint b = 0 \<and> le bs = 0"
    by (simp add: add_nonneg_eq_0_iff)
  with Cons show ?case
    by (simp add: unsigned_eq_0_iff)
qed simp

lemma or_bytes_flag:
  fixes s :: "byte list"
  assumes "length s = 32"
  shows "drop_bit 8 (uint (foldl (OR) (s ! 0) (map (\<lambda>i. s ! i) [1..<32])) - 1) + 1
    = (if le s = 0 then 0 else 1)"
proof -
  let ?w = "foldl (OR) (s ! 0) (map (\<lambda>i. s ! i) [1..<32])"
  have "s = s ! 0 # map (\<lambda>i. s ! i) [1..<32]"
    using assms by (intro nth_equalityI) (auto simp: nth_Cons split: nat.splits)
  from arg_cong [OF this, of set] have "set s = insert (s ! 0) (set (map (\<lambda>i. s ! i) [1..<32]))"
    by (simp only: list.set)
  then have "?w = 0 \<longleftrightarrow> le s = 0"
    by (simp only: foldl_or_eq_0 le_eq_0_iff ball_simps)
  then show ?thesis
    by (simp add: nonzero_flag unsigned_eq_0_iff)
qed

section \<open>Concatenations of pieces of the same length\<close>

lemma length_concat_uniform: "(\<And>x. length (f x) = n) \<Longrightarrow> length (concat (map f xs)) = n * length xs"
  by (induction xs) simp_all

lemma nth_concat_uniform:
  assumes "\<And>x. length (f x) = n" "i < n * length xs"
  shows "concat (map f xs) ! i = f (xs ! (i div n)) ! (i mod n)"
  using assms(2)
proof (induction xs arbitrary: i)
  case (Cons x xs)
  show ?case
  proof (cases "i < n")
    case False
    moreover from this Cons.prems have "0 < n"
      by (cases n) simp_all
    ultimately show ?thesis
      using Cons.IH [of "i - n"] Cons.prems assms(1) by (simp add: nth_append nth_Cons' le_div_geq le_mod_geq)
  qed (simp add: nth_append assms(1))
qed simp

lemma concat_blocks: "concat (map (\<lambda>k. take n (drop (n * k) xs)) [0..<m]) = take (n * m) xs"
  by (induction m) (simp_all add: take_add add.commute [of n])

lemma all_less_8: "(\<forall>k < 8. P k) \<longleftrightarrow> P (0 :: nat) \<and> P 1 \<and> P 2 \<and> P 3 \<and> P 4 \<and> P 5 \<and> P 6 \<and> P 7"
  by (auto simp: numeral_eq_Suc All_less_Suc)

end
