(* ===== verification/Limbs.thy ===== *)
theory Limbs
  imports Prelude
begin

text \<open>
  Multi-precision numbers in the style of \<^verbatim>\<open>crypto-ops.c\<close>: a list of signed limbs, carries that
  move a multiple of a limb's radix to another limb, and multiply-accumulate statements.  A
  verified interval analysis shows that none of these statements wraps around; the analysis is
  a function that the kernel evaluates, and the locale \<open>limb_step\<close> is the contract by which a
  sequence of statements is sound as soon as its analysis succeeds.
\<close>

section \<open>Statements on limbs\<close>

text \<open>
  The carry idiom \<^verbatim>\<open>carry = (h_i + rnd) >> w; h_j += carry * m; h_i -= carry << w;\<close> at the
  width whose wrap-around is \<open>wr\<close>.
\<close>

definition carry_step :: "(int \<Rightarrow> int) \<Rightarrow> int \<Rightarrow> nat \<Rightarrow> nat \<Rightarrow> nat \<Rightarrow> int \<Rightarrow> int list \<Rightarrow> int list" where
  "carry_step wr rnd w i j m s =
     (let carry = drop_bit w (wr (s ! i + rnd));
          s = s[j := wr (s ! j + carry * m)]
      in s[i := wr (s ! i - push_bit w carry)])"

text \<open>The statement \<^verbatim>\<open>s_i += x * c;\<close> and its negative form \<^verbatim>\<open>s_i -= x * c;\<close>.\<close>

definition madd_step :: "(int \<Rightarrow> int) \<Rightarrow> nat \<Rightarrow> int \<Rightarrow> int \<Rightarrow> int list \<Rightarrow> int list" where
  "madd_step wr i x c s = s[i := wr (s ! i + x * c)]"

definition msub_step :: "(int \<Rightarrow> int) \<Rightarrow> nat \<Rightarrow> int \<Rightarrow> int \<Rightarrow> int list \<Rightarrow> int list" where
  "msub_step wr i x c s = s[i := wr (s ! i - x * c)]"

section \<open>Intervals and the analysis\<close>

type_synonym ival = "int \<times> int"

definition in_ival :: "int \<Rightarrow> ival \<Rightarrow> bool" where
  "in_ival x b \<longleftrightarrow> fst b \<le> x \<and> x \<le> snd b"

definition bounded :: "ival list \<Rightarrow> int list \<Rightarrow> bool" where
  "bounded B s \<longleftrightarrow> list_all2 in_ival s B"

text \<open>The integer a limb list stands for, limb \<open>i\<close> at bit position \<open>pos i\<close>.\<close>

definition lval :: "(nat \<Rightarrow> nat) \<Rightarrow> int list \<Rightarrow> int" where
  "lval pos s = (\<Sum>i<length s. s ! i * 2 ^ pos i)"

text \<open>Least and greatest value of a limb list within intervals.\<close>

definition lval_lo :: "(nat \<Rightarrow> nat) \<Rightarrow> ival list \<Rightarrow> int" where
  "lval_lo pos B = lval pos (map fst B)"

definition lval_hi :: "(nat \<Rightarrow> nat) \<Rightarrow> ival list \<Rightarrow> int" where
  "lval_hi pos B = lval pos (map snd B)"

definition carry_iv :: "int \<Rightarrow> int \<Rightarrow> nat \<Rightarrow> nat \<Rightarrow> nat \<Rightarrow> int \<Rightarrow> ival list \<Rightarrow> ival list option" where
  "carry_iv lim rnd w i j m B =
     (if i < length B \<and> j < length B \<and> i \<noteq> j then
        let (l, h) = B ! i; (lj, hj) = B ! j;
            lj' = lj + (l + rnd) div 2 ^ w * m; hj' = hj + (h + rnd) div 2 ^ w * m
        in if - lim \<le> l + rnd \<and> h + rnd < lim \<and> - lim \<le> lj' \<and> hj' < lim
           then Some (B[j := (lj', hj'), i := (- rnd, 2 ^ w - 1 - rnd)]) else None
      else None)"

definition scale_iv :: "ival \<Rightarrow> int \<Rightarrow> ival" where
  "scale_iv x c = (if 0 \<le> c then (fst x * c, snd x * c) else (snd x * c, fst x * c))"

definition madd_iv :: "int \<Rightarrow> nat \<Rightarrow> ival \<Rightarrow> int \<Rightarrow> ival list \<Rightarrow> ival list option" where
  "madd_iv lim i x c B =
     (if i < length B then
        let (l, h) = B ! i; (xl, xh) = scale_iv x c
        in if - lim \<le> l + xl \<and> h + xh < lim then Some (B[i := (l + xl, h + xh)]) else None
      else None)"

fun iv_chain :: "(nat \<Rightarrow> ival list \<Rightarrow> ival list option) \<Rightarrow> nat list \<Rightarrow> ival list \<Rightarrow> ival list option" where
  "iv_chain f [] B = Some B"
| "iv_chain f (i # is) B = (case f i B of None \<Rightarrow> None | Some B' \<Rightarrow> iv_chain f is B')"

text \<open>The analysis succeeded and its result lies within \<open>C\<close>.\<close>

definition iv_within :: "ival list option \<Rightarrow> ival list \<Rightarrow> bool" where
  "iv_within r C = (case r of None \<Rightarrow> False
     | Some B \<Rightarrow> list_all2 (\<lambda>b c. fst c \<le> fst b \<and> snd b \<le> snd c) B C)"

section \<open>Bounds and values\<close>

lemma in_ival_simp [simp]: "in_ival x (l, h) \<longleftrightarrow> l \<le> x \<and> x \<le> h"
  by (simp add: in_ival_def)

lemma bounded_length: "bounded B s \<Longrightarrow> length s = length B"
  by (auto simp: bounded_def dest: list_all2_lengthD)

lemma bounded_nth: "bounded B s \<Longrightarrow> i < length B \<Longrightarrow> fst (B ! i) \<le> s ! i \<and> s ! i \<le> snd (B ! i)"
  by (auto simp: bounded_def list_all2_conv_all_nth in_ival_def)

lemma boundedI:
  "length s = length B \<Longrightarrow> (\<And>i. i < length B \<Longrightarrow> fst (B ! i) \<le> s ! i \<and> s ! i \<le> snd (B ! i))
     \<Longrightarrow> bounded B s"
  by (auto simp: bounded_def list_all2_conv_all_nth in_ival_def)

lemma bounded_update: "bounded B s \<Longrightarrow> in_ival x b \<Longrightarrow> bounded (B[i := b]) (s[i := x])"
  by (simp add: bounded_def list_all2_update_cong)

lemma bounded_take: "bounded B s \<Longrightarrow> bounded (take k B) (take k s)"
  by (simp add: bounded_def list_all2_takeI)

lemma bounded_append: "bounded B s \<Longrightarrow> bounded C t \<Longrightarrow> bounded (B @ C) (s @ t)"
  by (simp add: bounded_def list_all2_appendI)

lemma iv_withinE:
  assumes "iv_within r C"
  obtains B where "r = Some B" "\<And>s. bounded B s \<Longrightarrow> bounded C s"
proof -
  obtain B where B: "r = Some B" "list_all2 (\<lambda>b c. fst c \<le> fst b \<and> snd b \<le> snd c) B C"
    using assms by (auto simp: iv_within_def split: option.splits)
  moreover have "bounded C s" if "bounded B s" for s
    using that B(2) by (fastforce simp: bounded_def list_all2_conv_all_nth in_ival_def)
  ultimately show ?thesis
    using that by blast
qed

lemma lval_update:
  assumes "i < length s"
  shows "lval pos (s[i := x]) = lval pos s + (x - s ! i) * 2 ^ pos i"
proof -
  have s: "{..<length s} = insert i ({..<length s} - {i})"
    using assms by auto
  have "lval pos (s[i := x]) = x * 2 ^ pos i + (\<Sum>k\<in>{..<length s} - {i}. s ! k * 2 ^ pos k)"
    using assms unfolding lval_def length_list_update
    by (subst s, subst sum.insert) (auto intro: sum.cong)
  moreover have "lval pos s = s ! i * 2 ^ pos i + (\<Sum>k\<in>{..<length s} - {i}. s ! k * 2 ^ pos k)"
    unfolding lval_def by (subst s, subst sum.insert) auto
  ultimately show ?thesis
    by (simp add: algebra_simps)
qed

lemma lval_snoc: "lval pos (s @ [x]) = lval pos s + x * 2 ^ pos (length s)"
  by (simp add: lval_def nth_append)

lemma lval_take_snoc:
  "length s = Suc k \<Longrightarrow> lval pos s = lval pos (take k s) + s ! k * 2 ^ pos k"
  by (metis lval_snoc length_take lessI less_or_eq_imp_le min.absorb2 take_Suc_conv_app_nth
      take_all_iff order_refl)

lemma lval_bounds:
  assumes "bounded B s"
  shows "lval_lo pos B \<le> lval pos s" "lval pos s \<le> lval_hi pos B"
  using bounded_nth [OF assms] bounded_length [OF assms]
  by (auto simp: lval_lo_def lval_hi_def lval_def intro!: sum_mono mult_right_mono)

section \<open>Limbs of equal width\<close>

text \<open>The limbs of \<open>V\<close> at width \<open>w\<close>: \<open>n\<close> digits and, above them, the rest.\<close>

definition digit_limbs :: "nat \<Rightarrow> nat \<Rightarrow> int \<Rightarrow> int list" where
  "digit_limbs w n V = map (\<lambda>i. take_bit w (drop_bit (w * i) V)) [0..<n] @ [drop_bit (w * n) V]"

lemma length_digit_limbs [simp]: "length (digit_limbs w n V) = Suc n"
  by (simp add: digit_limbs_def)

lemma digit_limbs_0: "digit_limbs w 0 V = [V]"
  by (simp add: digit_limbs_def)

lemma digit_limbs_Suc: "digit_limbs w (Suc n) V = take_bit w V # digit_limbs w n (drop_bit w V)"
  unfolding digit_limbs_def
  by (subst upt_conv_Cons) (simp_all add: map_Suc_upt [symmetric] o_def add.commute del: upt_Suc)

lemma lval_digit_limbs: "lval (\<lambda>i. w * i) (digit_limbs w n V) = V"
proof -
  have "lval (\<lambda>i. w * i) (digit_limbs w n V)
      = (\<Sum>i<n. take_bit w (drop_bit (w * i) V) * 2 ^ (w * i)) + drop_bit (w * n) V * 2 ^ (w * n)"
    unfolding digit_limbs_def by (simp add: lval_snoc) (simp add: lval_def)
  then show ?thesis
    using bits_ident [of "w * n" V] by (simp add: digits_sum push_bit_eq_mult)
qed

lemma lval_Cons: "lval (\<lambda>i. w * i) (x # xs) = x + 2 ^ w * lval (\<lambda>i. w * i) xs"
  by (simp add: lval_def sum.lessThan_Suc_shift sum_distrib_left power_add algebra_simps
      del: sum.lessThan_Suc)

lemma limbs_eq_digit_limbs:
  assumes "length s = Suc n" "\<And>i. i < n \<Longrightarrow> 0 \<le> s ! i \<and> s ! i < 2 ^ w"
  shows "s = digit_limbs w n (lval (\<lambda>i. w * i) s)"
  using assms
proof (induction n arbitrary: s)
  case 0
  then show ?case
    by (cases s) (auto simp: digit_limbs_0 lval_def)
next
  case (Suc n)
  then obtain x xs where s: "s = x # xs"
    by (cases s) auto
  have x: "0 \<le> x" "x < 2 ^ w"
    using Suc.prems(2) [of 0] by (simp_all add: s)
  have "xs = digit_limbs w n (lval (\<lambda>i. w * i) xs)"
  proof (rule Suc.IH)
    show "0 \<le> xs ! i \<and> xs ! i < 2 ^ w" if "i < n" for i
      using Suc.prems(2) [of "Suc i"] that by (simp add: s)
  qed (use Suc.prems(1) s in simp)
  then show ?case
    using x by (simp add: s lval_Cons digit_limbs_Suc take_bit_eq_mod drop_bit_eq_div)
qed

lemma bounded_eq_digit_limbs:
  assumes "bounded (replicate n (0, 2 ^ w - 1) @ [b]) s"
  shows "s = digit_limbs w n (lval (\<lambda>i. w * i) s)"
proof (rule limbs_eq_digit_limbs)
  show "0 \<le> s ! i \<and> s ! i < 2 ^ w" if "i < n" for i
    using bounded_nth [OF assms, of i] that by (simp add: nth_append)
qed (use bounded_length [OF assms] in simp)

lemma bounded_digit_limbs:
  assumes "0 \<le> V" "V < 2 ^ (w * n + t)"
  shows "bounded (replicate n (0, 2 ^ w - 1) @ [(0, 2 ^ t - 1)]) (digit_limbs w n V)"
proof -
  have "drop_bit (w * n) V < 2 ^ t"
    using assms(2) by (rule drop_bit_less_exp)
  then show ?thesis
    using assms(1) unfolding digit_limbs_def
    by (intro bounded_append boundedI) (simp_all add: take_bit_int_less_exp)
qed

section \<open>Storing limbs as bytes\<close>

lemma byte_of_limb:
  assumes "j + 8 \<le> w"
  shows "(word_of_int (drop_bit j (take_bit w (drop_bit m v))) :: byte) = word_of_int (drop_bit (j + m) v)"
  using assms by (intro bit_word_eqI) (simp add: bit_simps ac_simps)

lemma byte_of_top_limb: "(word_of_int (drop_bit j (drop_bit m v)) :: byte) = word_of_int (drop_bit (j + m) v)"
  by simp

text \<open>A byte with the end of a limb of \<open>w\<close> bits and the start of the next, of \<open>w2\<close> bits or unlimited.\<close>

lemma byte_of_two_limbs:
  assumes "j + q = w" "w + m = m'" "8 \<le> q + w2"
  shows "(word_of_int (drop_bit j (take_bit w (drop_bit m v)) OR push_bit q (take_bit w2 (drop_bit m' v))) :: byte)
      = word_of_int (drop_bit (j + m) v)"
proof -
  have m': "m' + n - q = j + m + n" for n
    using assms by linarith
  have bits: "m + (j + n) = j + m + n" "j + n < w \<longleftrightarrow> n < q" for n
    using assms by auto
  show ?thesis
    using assms(3) by (auto intro!: bit_word_eqI simp: bit_simps bits m' not_less less_diff_conv2)
qed

lemma byte_of_limb_and_top:
  assumes "j + q = w" "w + m = m'"
  shows "(word_of_int (drop_bit j (take_bit w (drop_bit m v)) OR push_bit q (drop_bit m' v)) :: byte)
      = word_of_int (drop_bit (j + m) v)"
proof -
  have m': "m' + n - q = j + m + n" for n
    using assms by linarith
  have bits: "m + (j + n) = j + m + n" "j + n < w \<longleftrightarrow> n < q" for n
    using assms by auto
  show ?thesis
    by (auto intro!: bit_word_eqI simp: bit_simps bits m' not_less less_diff_conv2)
qed

lemmas bytes_of_limbs = byte_of_limb byte_of_two_limbs byte_of_limb_and_top
  byte_of_limb [where j = 0, simplified] byte_of_limb [where m = 0, simplified]
  byte_of_limb [where m = 0 and j = 0, simplified] byte_of_two_limbs [where m = 0, simplified]
  byte_of_two_limbs [where q = 1, simplified]

lemma le_map_digits:
  assumes "0 \<le> v" "v < 256 ^ n"
  shows "le (map (\<lambda>k. word_of_int (drop_bit (8 * k) v)) [0..<n]) = v"
  using assms by (intro le_digits [where n = n]) (simp_all add: unsigned_of_int)

text \<open>Limbs of varying widths \<open>w i\<close> are the digits of the number they stand for.\<close>

lemma lval_digits_range:
  assumes "pos 0 = 0" "\<And>i. pos (Suc i) = pos i + w i" "\<And>i. i < length s \<Longrightarrow> 0 \<le> s ! i \<and> s ! i < 2 ^ w i"
  shows "0 \<le> lval pos s \<and> lval pos s < 2 ^ pos (length s)"
  using assms(3)
proof (induction s rule: rev_induct)
  case Nil
  then show ?case by (simp add: lval_def assms(1))
next
  case (snoc x s)
  have x: "0 \<le> x" "x + 1 \<le> 2 ^ w (length s)"
    using snoc.prems [of "length s"] by simp_all
  have "0 \<le> s ! i \<and> s ! i < 2 ^ w i" if "i < length s" for i
    using snoc.prems [of i] that by (simp add: nth_append)
  then have IH: "0 \<le> lval pos s" "lval pos s < 2 ^ pos (length s)"
    using snoc.IH by simp_all
  have "(x + 1) * 2 ^ pos (length s) \<le> 2 ^ w (length s) * 2 ^ pos (length s)"
    using x(2) by (rule mult_right_mono) simp
  with IH x(1) show ?case
    by (simp add: lval_snoc assms(2) power_add algebra_simps)
qed

lemma limb_eq_digit:
  assumes "pos 0 = 0" "\<And>i. pos (Suc i) = pos i + w i" "\<And>i. i < length s \<Longrightarrow> 0 \<le> s ! i \<and> s ! i < 2 ^ w i"
    and "i < length s"
  shows "s ! i = take_bit (w i) (drop_bit (pos i) (lval pos s))"
  using assms(3,4)
proof (induction s rule: rev_induct)
  case (snoc x s)
  let ?n = "length s"
  have dig: "0 \<le> s ! i \<and> s ! i < 2 ^ w i" if "i < ?n" for i
    using snoc.prems(1) [of i] that by (simp add: nth_append)
  have r: "0 \<le> lval pos s" "lval pos s < 2 ^ pos ?n"
    using lval_digits_range [OF assms(1,2) dig] by simp_all
  show ?case
  proof (cases "i = ?n")
    case True
    have "(lval pos s + x * 2 ^ pos ?n) div 2 ^ pos ?n = x"
      using r by simp
    with True show ?thesis
      using snoc.prems(1) [of ?n] by (simp add: lval_snoc drop_bit_eq_div take_bit_eq_mod)
  next
    case False
    then have i: "i < ?n"
      using snoc.prems(2) by simp
    have "pos (Suc i) \<le> pos ?n"
    proof (rule lift_Suc_mono_le [of pos])
      show "pos k \<le> pos (Suc k)" for k
        by (simp add: assms(2))
    qed (use i in simp)
    then obtain d where d: "pos ?n = pos i + w i + d"
      using assms(2) by (metis le_Suc_ex)
    have "(lval pos s + x * 2 ^ pos ?n) div 2 ^ pos i = lval pos s div 2 ^ pos i + x * 2 ^ d * 2 ^ w i"
    proof -
      have eq: "x * 2 ^ pos ?n = x * 2 ^ d * 2 ^ w i * 2 ^ pos i"
        unfolding d by (simp add: power_add)
      have "(2 :: int) ^ pos i \<noteq> 0"
        by simp
      from div_mult_self1 [OF this, of "lval pos s" "x * 2 ^ d * 2 ^ w i"] show ?thesis
        unfolding eq by (rule trans) (rule add.commute)
    qed
    then have "take_bit (w i) (drop_bit (pos i) (lval pos (s @ [x]))) = take_bit (w i) (drop_bit (pos i) (lval pos s))"
      by (simp only: lval_snoc drop_bit_eq_div take_bit_eq_mod mod_mult_self1)
    with i show ?thesis
      using snoc.IH [OF dig i] by (simp add: nth_append)
  qed
qed simp

section \<open>Soundness of the analysis\<close>

definition wraps :: "(int \<Rightarrow> int) \<Rightarrow> int \<Rightarrow> bool" where
  "wraps wr lim \<longleftrightarrow> (\<forall>x. - lim \<le> x \<longrightarrow> x < lim \<longrightarrow> wr x = x)"

lemma wraps_s64: "wraps s64 (2 ^ 63)"
  by (simp add: wraps_def s64_id)

lemma wraps_s32: "wraps s32 (2 ^ 31)"
  by (simp add: wraps_def s32_id)

lemma carry_iv_SomeE:
  assumes "carry_iv lim rnd w i j m B = Some B'"
  obtains l h lj hj where "i < length B" "j < length B" "i \<noteq> j" "B ! i = (l, h)" "B ! j = (lj, hj)"
    "- lim \<le> l + rnd" "h + rnd < lim"
    "- lim \<le> lj + (l + rnd) div 2 ^ w * m" "hj + (h + rnd) div 2 ^ w * m < lim"
    "B' = B[j := (lj + (l + rnd) div 2 ^ w * m, hj + (h + rnd) div 2 ^ w * m),
            i := (- rnd, 2 ^ w - 1 - rnd)]"
  using assms by (auto simp: carry_iv_def Let_def split: if_splits prod.splits)

lemma carry_step_exact:
  assumes wr: "wraps wr lim" and b: "bounded B s" and iv: "carry_iv lim rnd w i j m B = Some B'"
    and m: "0 \<le> m" and rnd: "0 \<le> rnd" "rnd < 2 ^ w" "2 ^ w \<le> lim"
  shows "bounded B' (carry_step wr rnd w i j m s)"
    and "carry_step wr rnd w i j m s =
      s[j := s ! j + drop_bit w (s ! i + rnd) * m, i := s ! i - drop_bit w (s ! i + rnd) * 2 ^ w]"
proof -
  obtain l h lj hj where ij: "i < length B" "j < length B" "i \<noteq> j"
    and Bi: "B ! i = (l, h)" and Bj: "B ! j = (lj, hj)"
    and lim: "- lim \<le> l + rnd" "h + rnd < lim"
      "- lim \<le> lj + (l + rnd) div 2 ^ w * m" "hj + (h + rnd) div 2 ^ w * m < lim"
    and B': "B' = B[j := (lj + (l + rnd) div 2 ^ w * m, hj + (h + rnd) div 2 ^ w * m),
        i := (- rnd, 2 ^ w - 1 - rnd)]"
    using iv by (rule carry_iv_SomeE)
  define c where "c = drop_bit w (s ! i + rnd)"
  have si: "l \<le> s ! i" "s ! i \<le> h" and sj: "lj \<le> s ! j" "s ! j \<le> hj"
    using bounded_nth [OF b ij(1)] bounded_nth [OF b ij(2)] Bi Bj by auto
  have c: "(l + rnd) div 2 ^ w \<le> c" "c \<le> (h + rnd) div 2 ^ w"
    using si unfolding c_def by (auto intro: drop_bit_int_bounds)
  have cm: "lj + (l + rnd) div 2 ^ w * m \<le> s ! j + c * m"
      "s ! j + c * m \<le> hj + (h + rnd) div 2 ^ w * m"
    using sj mult_right_mono [OF c(1) m] mult_right_mono [OF c(2) m] by linarith+
  have r: "s ! i - c * 2 ^ w = (s ! i + rnd) mod 2 ^ w - rnd"
    unfolding c_def by (simp add: drop_bit_eq_div minus_mult_div_eq_mod [symmetric] algebra_simps)
  have rb: "- rnd \<le> s ! i - c * 2 ^ w" "s ! i - c * 2 ^ w \<le> 2 ^ w - 1 - rnd"
    using pos_mod_bound [of "2 ^ w" "s ! i + rnd"] pos_mod_sign [of "2 ^ w" "s ! i + rnd"]
    unfolding r by auto
  have w1: "wr (s ! i + rnd) = s ! i + rnd" and w2: "wr (s ! j + c * m) = s ! j + c * m"
    and w3: "wr (s ! i - c * 2 ^ w) = s ! i - c * 2 ^ w"
    using wr lim si cm rb rnd unfolding wraps_def by (simp_all add: algebra_simps)
  show eq: "carry_step wr rnd w i j m s =
      s[j := s ! j + drop_bit w (s ! i + rnd) * m, i := s ! i - drop_bit w (s ! i + rnd) * 2 ^ w]"
    using ij w2 w3 by (simp add: carry_step_def Let_def w1 push_bit_eq_mult c_def)
  show "bounded B' (carry_step wr rnd w i j m s)"
    unfolding eq B' c_def [symmetric] using cm rb
    by (intro bounded_update b) simp_all
qed

lemma carry_step_lval:
  assumes "wraps wr lim" "bounded B s" "carry_iv lim rnd w i j m B = Some B'"
    "0 \<le> m" "0 \<le> rnd" "rnd < 2 ^ w" "2 ^ w \<le> lim"
  shows "lval pos (carry_step wr rnd w i j m s)
    = lval pos s + drop_bit w (s ! i + rnd) * (m * 2 ^ pos j - 2 ^ w * 2 ^ pos i)"
proof -
  have "i < length s" "j < length s" "i \<noteq> j"
    using assms(2,3) by (auto elim!: carry_iv_SomeE dest: bounded_length)
  then show ?thesis
    by (simp add: carry_step_exact [OF assms] lval_update algebra_simps)
qed

lemma madd_step_sound:
  assumes wr: "wraps wr lim" and b: "bounded B s" and x: "in_ival x X"
    and iv: "madd_iv lim i X c B = Some B'"
  shows "bounded B' (madd_step wr i x c s)"
    and "madd_step wr i x c s = s[i := s ! i + x * c]"
proof -
  obtain l h xl xh where i: "i < length B" and Bi: "B ! i = (l, h)" and X: "scale_iv X c = (xl, xh)"
    and lim: "- lim \<le> l + xl" "h + xh < lim" and B': "B' = B[i := (l + xl, h + xh)]"
    using iv by (auto simp: madd_iv_def split: if_splits prod.splits)
  have xc: "xl \<le> x * c" "x * c \<le> xh"
    using x X by (auto simp: scale_iv_def in_ival_def split: if_splits
        intro: mult_right_mono mult_right_mono_neg)
  have si: "l \<le> s ! i" "s ! i \<le> h"
    using bounded_nth [OF b i] Bi by auto
  have "- lim \<le> s ! i + x * c" "s ! i + x * c < lim"
    using lim xc si by linarith+
  then show eq: "madd_step wr i x c s = s[i := s ! i + x * c]"
    using wr by (simp add: madd_step_def wraps_def)
  show "bounded B' (madd_step wr i x c s)"
    unfolding eq B' using xc si by (intro bounded_update b) (simp add: add_mono)
qed

lemma madd_step_lval:
  assumes "wraps wr lim" "bounded B s" "in_ival x X" "madd_iv lim i X c B = Some B'"
  shows "lval pos (madd_step wr i x c s) = lval pos s + x * c * 2 ^ pos i"
proof -
  have "i < length s"
    using assms(2,4) by (auto simp: madd_iv_def dest: bounded_length split: if_splits)
  then show ?thesis
    by (simp add: madd_step_sound [OF assms] lval_update)
qed

lemma msub_step_madd: "msub_step wr i x c s = madd_step wr i x (- c) s"
  by (simp add: msub_step_def madd_step_def)

section \<open>The contract of a statement on limbs\<close>

text \<open>
  A statement \<open>step\<close> (indexed by the limb it works on) with its interval transfer function
  \<open>ivstep\<close>: whenever the analysis succeeds, the result lies within the new intervals and stands
  for the same integer modulo \<open>M\<close> (\<open>M = 0\<close> means the same integer).
\<close>

locale limb_step =
  fixes step :: "nat \<Rightarrow> int list \<Rightarrow> int list"
    and ivstep :: "nat \<Rightarrow> ival list \<Rightarrow> ival list option"
    and val :: "int list \<Rightarrow> int"
    and M :: int
  assumes step_bounded: "bounded B s \<Longrightarrow> ivstep i B = Some B' \<Longrightarrow> bounded B' (step i s)"
    and step_val: "bounded B s \<Longrightarrow> ivstep i B = Some B' \<Longrightarrow> val (step i s) mod M = val s mod M"
begin

lemma chain_bounded:
  "bounded B s \<Longrightarrow> iv_chain ivstep is B = Some B' \<Longrightarrow> bounded B' (foldl (\<lambda>s i. step i s) s is)"
  by (induction "is" arbitrary: B s) (auto split: option.splits dest: step_bounded)

lemma chain_val:
  "bounded B s \<Longrightarrow> iv_chain ivstep is B = Some B' \<Longrightarrow>
     val (foldl (\<lambda>s i. step i s) s is) mod M = val s mod M"
proof (induction "is" arbitrary: B s)
  case (Cons i "is")
  then obtain B1 where B1: "ivstep i B = Some B1" "iv_chain ivstep is B1 = Some B'"
    by (auto split: option.splits)
  then show ?case
    using Cons.IH [OF step_bounded [OF Cons.prems(1) B1(1)] B1(2)] step_val [OF Cons.prems(1) B1(1)]
    by simp
qed simp

lemmas chain_sound = chain_bounded chain_val

end

end
