(* ===== verification/Loads.thy ===== *)
theory Loads
  imports Limbs
begin

text \<open>
  The byte access routines of \<^verbatim>\<open>crypto-ops.c\<close>: little-endian loads of three and four bytes, and
  what they return in terms of the value of the whole byte string.
\<close>

section \<open>The routines\<close>

text \<open>\<open>load_3 s k\<close> is \<^verbatim>\<open>load_3(s + k)\<close>; the result is a \<^verbatim>\<open>uint64_t\<close>.\<close>

definition load_3 :: "byte list \<Rightarrow> nat \<Rightarrow> u64" where
  "load_3 s k =
     (let result = ucast (s ! k);
          result = result OR push_bit 8 (ucast (s ! (k + 1)));
          result = result OR push_bit 16 (ucast (s ! (k + 2)))
      in result)"

definition load_4 :: "byte list \<Rightarrow> nat \<Rightarrow> u64" where
  "load_4 s k =
     (let result = ucast (s ! k);
          result = result OR push_bit 8 (ucast (s ! (k + 1)));
          result = result OR push_bit 16 (ucast (s ! (k + 2)));
          result = result OR push_bit 24 (ucast (s ! (k + 3)))
      in result)"

section \<open>What they return\<close>

lemma bit_byte:
  fixes s :: "byte list"
  assumes "k < length s"
  shows "bit (s ! k) n \<longleftrightarrow> n < 8 \<and> bit (le s) (8 * k + n)"
proof -
  have "bit (uint (s ! k)) n \<longleftrightarrow> n < 8 \<and> bit (le s) (8 * k + n)"
    using assms by (simp add: le_nth bit_simps)
  then show ?thesis
    by (auto simp: bit_uint_iff dest: bit_imp_le_length)
qed

lemma bit_load_3:
  assumes "k + 3 \<le> length s"
  shows "bit (load_3 s k) n \<longleftrightarrow> n < 24 \<and> bit (le s) (8 * k + n)"
proof -
  consider "n < 8" | "8 \<le> n" "n < 16" | "16 \<le> n" "n < 24" | "24 \<le> n"
    by linarith
  then show ?thesis
    using assms by cases (simp_all add: load_3_def bit_simps bit_byte less_diff_conv2)
qed

lemma bit_load_4:
  assumes "k + 4 \<le> length s"
  shows "bit (load_4 s k) n \<longleftrightarrow> n < 32 \<and> bit (le s) (8 * k + n)"
proof -
  consider "n < 8" | "8 \<le> n" "n < 16" | "16 \<le> n" "n < 24" | "24 \<le> n" "n < 32" | "32 \<le> n"
    by linarith
  then show ?thesis
    using assms by cases (simp_all add: load_4_def bit_simps bit_byte less_diff_conv2)
qed

lemma uint_load_3: "k + 3 \<le> length s \<Longrightarrow> uint (load_3 s k) = take_bit 24 (drop_bit (8 * k) (le s))"
  by (rule bit_eqI) (simp add: bit_load_3 bit_simps)

lemma uint_load_4: "k + 4 \<le> length s \<Longrightarrow> uint (load_4 s k) = take_bit 32 (drop_bit (8 * k) (le s))"
  by (rule bit_eqI) (simp add: bit_load_4 bit_simps)

text \<open>The conversion of a \<^verbatim>\<open>uint64_t\<close> below \<open>2 ^ 63\<close> to \<^verbatim>\<open>int64_t\<close> keeps the value.\<close>

lemma sint_eq_uint_small:
  assumes "uint (w :: u64) < 2 ^ 63"
  shows "sint w = uint w"
  using assms by (simp add: sint_uint signed_take_bit_eq_if_positive bit_iff_odd take_bit_int_eq_self)

lemma sint_load_4:
  assumes "k + 4 \<le> length s"
  shows "sint (load_4 s k) = take_bit 32 (drop_bit (8 * k) (le s))"
proof -
  have "uint (load_4 s k) < 2 ^ 63"
    unfolding uint_load_4 [OF assms] by (rule less_trans [OF take_bit_int_less_exp]) simp
  then show ?thesis
    by (simp add: sint_eq_uint_small uint_load_4 assms)
qed

lemma uint_mask_and:
  "uint (2097151 AND w :: u64) = take_bit 21 (uint w)" "uint (8388607 AND w :: u64) = take_bit 23 (uint w)"
proof -
  have "(2097151 :: u64) = mask 21" "(8388607 :: u64) = mask 23"
    by (simp_all add: mask_eq_exp_minus_1)
  then show "uint (2097151 AND w :: u64) = take_bit 21 (uint w)" "uint (8388607 AND w :: u64) = take_bit 23 (uint w)"
    by (simp_all only: take_bit_eq_mask [symmetric] and.commute [of "mask _"] unsigned_take_bit_eq)
qed

lemma sint_mask21:
  "sint (2097151 AND w :: u64) = take_bit 21 (uint w)"
proof -
  have "uint (2097151 AND w :: u64) < 2 ^ 63"
    unfolding uint_mask_and by (rule less_trans [OF take_bit_int_less_exp]) simp
  then show ?thesis
    by (simp add: sint_eq_uint_small uint_mask_and)
qed

lemma take_drop_take_bit:
  fixes V :: int
  assumes "j + w \<le> m"
  shows "take_bit w (drop_bit j (take_bit m (drop_bit k V))) = take_bit w (drop_bit (k + j) V)"
  using assms by (intro bit_eqI) (auto simp: bit_simps ac_simps)

lemma limb21_load_3:
  assumes "k + 3 \<le> length s" "j + 21 \<le> 24"
  shows "sint (2097151 AND drop_bit j (load_3 s k)) = take_bit 21 (drop_bit (8 * k + j) (le s))"
  using assms by (simp add: sint_mask21 unsigned_drop_bit_eq uint_load_3 take_drop_take_bit)

lemma limb21_load_4:
  assumes "k + 4 \<le> length s" "j + 21 \<le> 32"
  shows "sint (2097151 AND drop_bit j (load_4 s k)) = take_bit 21 (drop_bit (8 * k + j) (le s))"
  using assms by (simp add: sint_mask21 unsigned_drop_bit_eq uint_load_4 take_drop_take_bit)

text \<open>The topmost limb is loaded without a mask.\<close>

lemma top_load_4:
  assumes "k + 4 = length s"
  shows "sint (drop_bit j (load_4 s k)) = drop_bit (8 * k + j) (le s)"
proof -
  have "le s < 2 ^ (8 * k + 32)"
    using le_less [of s] unfolding assms [symmetric] by (simp add: power_add power_mult)
  then have V: "drop_bit (8 * k) (le s) < 2 ^ 32"
    by (rule drop_bit_less_exp)
  then have u: "uint (load_4 s k) = drop_bit (8 * k) (le s)"
    using assms by (simp add: uint_load_4 take_bit_int_eq_self)
  have t: "take_bit 64 (drop_bit (8 * k) (le s)) = drop_bit (8 * k) (le s)"
    using V by (intro take_bit_int_eq_self) simp_all
  have "(2 :: int) ^ 32 \<le> 2 ^ (j + 63)"
    by (rule power_increasing) simp_all
  with V have "drop_bit j (drop_bit (8 * k) (le s)) < 2 ^ 63"
    using drop_bit_less_exp [of "drop_bit (8 * k) (le s)" j 63] by linarith
  moreover have "uint (drop_bit j (load_4 s k)) = drop_bit j (drop_bit (8 * k) (le s))"
    by (simp add: unsigned_drop_bit_eq u t)
  ultimately show ?thesis
    by (simp add: sint_eq_uint_small add.commute)
qed

end
