(* ===== verification/Scalar.thy ===== *)
theory Scalar
  imports Loads "HOL-Library.Monad_Syntax"
begin

text \<open>
  Arithmetic modulo the order \<open>l\<close> of the base point, \<^verbatim>\<open>sc_*\<close> of \<^verbatim>\<open>crypto-ops.c\<close>.  Scalars are
  32-byte little-endian strings; inside an operation they are limbs of 21 bits.  The list of
  limbs holds the live ones: a limb that the code never reads again leaves the list.
\<close>

section \<open>The routines\<close>

definition sc_l :: int where
  "sc_l = 2 ^ 252 + 27742317777372353535851937790883648493"

definition sc_0 :: "byte list" where
  "sc_0 = replicate 32 0"

text \<open>The twelve limbs of a 32-byte scalar, as every operation but \<^verbatim>\<open>sc_reduce\<close> loads them.\<close>

definition sc_load :: "byte list \<Rightarrow> int list" where
  "sc_load a =
    [sint (2097151 AND load_3 a 0),
     sint (2097151 AND drop_bit 5 (load_4 a 2)),
     sint (2097151 AND drop_bit 2 (load_3 a 5)),
     sint (2097151 AND drop_bit 7 (load_4 a 7)),
     sint (2097151 AND drop_bit 4 (load_4 a 10)),
     sint (2097151 AND drop_bit 1 (load_3 a 13)),
     sint (2097151 AND drop_bit 6 (load_4 a 15)),
     sint (2097151 AND drop_bit 3 (load_3 a 18)),
     sint (2097151 AND load_3 a 21),
     sint (2097151 AND drop_bit 5 (load_4 a 23)),
     sint (2097151 AND drop_bit 2 (load_3 a 26)),
     sint (drop_bit 7 (load_4 a 28))]"

text \<open>The twenty-four limbs of the 64-byte input of \<^verbatim>\<open>sc_reduce\<close>.\<close>

definition sc_load_wide :: "byte list \<Rightarrow> int list" where
  "sc_load_wide s =
    [sint (2097151 AND load_3 s 0),
     sint (2097151 AND drop_bit 5 (load_4 s 2)),
     sint (2097151 AND drop_bit 2 (load_3 s 5)),
     sint (2097151 AND drop_bit 7 (load_4 s 7)),
     sint (2097151 AND drop_bit 4 (load_4 s 10)),
     sint (2097151 AND drop_bit 1 (load_3 s 13)),
     sint (2097151 AND drop_bit 6 (load_4 s 15)),
     sint (2097151 AND drop_bit 3 (load_3 s 18)),
     sint (2097151 AND load_3 s 21),
     sint (2097151 AND drop_bit 5 (load_4 s 23)),
     sint (2097151 AND drop_bit 2 (load_3 s 26)),
     sint (2097151 AND drop_bit 7 (load_4 s 28)),
     sint (2097151 AND drop_bit 4 (load_4 s 31)),
     sint (2097151 AND drop_bit 1 (load_3 s 34)),
     sint (2097151 AND drop_bit 6 (load_4 s 36)),
     sint (2097151 AND drop_bit 3 (load_3 s 39)),
     sint (2097151 AND load_3 s 42),
     sint (2097151 AND drop_bit 5 (load_4 s 44)),
     sint (2097151 AND drop_bit 2 (load_3 s 47)),
     sint (2097151 AND drop_bit 7 (load_4 s 49)),
     sint (2097151 AND drop_bit 4 (load_4 s 52)),
     sint (2097151 AND drop_bit 1 (load_3 s 55)),
     sint (2097151 AND drop_bit 6 (load_4 s 57)),
     sint (drop_bit 3 (load_4 s 60))]"

text \<open>The carries \<^verbatim>\<open>carry = (s_i + (1<<20)) >> 21\<close> and \<^verbatim>\<open>carry = s_i >> 21\<close>, with the two updates
  that follow them.\<close>

definition sc_round :: "nat \<Rightarrow> int list \<Rightarrow> int list" where
  "sc_round i = carry_step s64 (2 ^ 20) 21 i (i + 1) 1"

definition sc_floor :: "nat \<Rightarrow> int list \<Rightarrow> int list" where
  "sc_floor i = carry_step s64 0 21 i (i + 1) 1"

text \<open>The six statements that fold limb \<open>k\<close> into the limbs \<open>k - 12\<close> to \<open>k - 7\<close>.\<close>

definition sc_fold :: "nat \<Rightarrow> int list \<Rightarrow> int list" where
  "sc_fold k s =
     (let x = s ! k;
          s = take k s;
          s = madd_step s64 (k - 12) x 666643 s;
          s = madd_step s64 (k - 11) x 470296 s;
          s = madd_step s64 (k - 10) x 654183 s;
          s = msub_step s64 (k - 9) x 997805 s;
          s = madd_step s64 (k - 8) x 136657 s;
          s = msub_step s64 (k - 7) x 683901 s
      in s)"

definition sc_folds :: "nat list \<Rightarrow> int list \<Rightarrow> int list" where
  "sc_folds ks s = foldl (\<lambda>s k. sc_fold k s) s ks"

definition sc_rounds :: "nat list \<Rightarrow> int list \<Rightarrow> int list" where
  "sc_rounds is s = foldl (\<lambda>s i. sc_round i s) s is"

definition sc_floors :: "nat list \<Rightarrow> int list \<Rightarrow> int list" where
  "sc_floors is s = foldl (\<lambda>s i. sc_floor i s) s is"

text \<open>The carries after a product of two scalars.\<close>

definition sc_carry_wide :: "int list \<Rightarrow> int list" where
  "sc_carry_wide = sc_rounds
     [0, 2, 4, 6, 8, 10, 12, 14, 16, 18, 20, 22, 1, 3, 5, 7, 9, 11, 13, 15, 17, 19, 21]"

text \<open>From twenty-four limbs to twelve, and \<^verbatim>\<open>s12 = 0\<close>.\<close>

definition sc_high :: "int list \<Rightarrow> int list" where
  "sc_high s =
     (let s = sc_folds [23, 22, 21, 20, 19, 18] s;
          s = sc_rounds [6, 8, 10, 12, 14, 16, 7, 9, 11, 13, 15] s;
          s = sc_folds [17, 16, 15, 14, 13, 12] s
      in s @ [0])"

text \<open>The last carries: the limbs of the result, from limbs \<open>s0\<close> to \<open>s12\<close>.\<close>

definition sc_mid :: "int list \<Rightarrow> int list" where
  "sc_mid s = sc_folds [12] (sc_rounds [0, 2, 4, 6, 8, 10, 1, 3, 5, 7, 9, 11] s)"

definition sc_tail :: "int list \<Rightarrow> int list" where
  "sc_tail s =
     (let s = sc_mid s @ [0];
          s = sc_floors [0, 1, 2, 3, 4, 5, 6, 7, 8, 9, 10, 11] s;
          s = sc_folds [12] s;
          s = sc_floors [0, 1, 2, 3, 4, 5, 6, 7, 8, 9, 10] s
      in s)"

definition sc_store :: "int list \<Rightarrow> byte list" where
  "sc_store s = map word_of_int
    [drop_bit 0 (s!0), drop_bit 8 (s!0), drop_bit 16 (s!0) OR push_bit 5 (s!1),
     drop_bit 3 (s!1), drop_bit 11 (s!1), drop_bit 19 (s!1) OR push_bit 2 (s!2),
     drop_bit 6 (s!2), drop_bit 14 (s!2) OR push_bit 7 (s!3),
     drop_bit 1 (s!3), drop_bit 9 (s!3), drop_bit 17 (s!3) OR push_bit 4 (s!4),
     drop_bit 4 (s!4), drop_bit 12 (s!4), drop_bit 20 (s!4) OR push_bit 1 (s!5),
     drop_bit 7 (s!5), drop_bit 15 (s!5) OR push_bit 6 (s!6),
     drop_bit 2 (s!6), drop_bit 10 (s!6), drop_bit 18 (s!6) OR push_bit 3 (s!7),
     drop_bit 5 (s!7), drop_bit 13 (s!7),
     drop_bit 0 (s!8), drop_bit 8 (s!8), drop_bit 16 (s!8) OR push_bit 5 (s!9),
     drop_bit 3 (s!9), drop_bit 11 (s!9), drop_bit 19 (s!9) OR push_bit 2 (s!10),
     drop_bit 6 (s!10), drop_bit 14 (s!10) OR push_bit 7 (s!11),
     drop_bit 1 (s!11), drop_bit 9 (s!11), drop_bit 17 (s!11)]"

text \<open>\<^verbatim>\<open>sc_reduce\<close> overwrites the first half of its 64-byte argument.\<close>

definition sc_reduce :: "byte list \<Rightarrow> byte list" where
  "sc_reduce s = sc_store (sc_tail (sc_high (sc_load_wide s))) @ drop 32 s"

definition sc_reduce32 :: "byte list \<Rightarrow> byte list" where
  "sc_reduce32 s = sc_store (sc_tail (sc_load s @ [0]))"

definition sc_add :: "byte list \<Rightarrow> byte list \<Rightarrow> byte list" where
  "sc_add a b = sc_store (sc_tail (map2 (\<lambda>x y. s64 (x + y)) (sc_load a) (sc_load b) @ [0]))"

definition sc_sub :: "byte list \<Rightarrow> byte list \<Rightarrow> byte list" where
  "sc_sub a b = sc_store (sc_tail (map2 (\<lambda>x y. s64 (x - y)) (sc_load a) (sc_load b) @ [0]))"

text \<open>The sum of the products \<^verbatim>\<open>a_i * b_j\<close> with \<open>i + j = k\<close>, for \<open>k \<le> 22\<close>.\<close>

definition sc_conv :: "int list \<Rightarrow> int list \<Rightarrow> nat \<Rightarrow> int" where
  "sc_conv a b k = sum_list [a ! i * b ! (k - i). i \<leftarrow> [0..<12], i \<le> k \<and> k - i < 12]"

definition sc_mul :: "byte list \<Rightarrow> byte list \<Rightarrow> byte list" where
  "sc_mul a b =
     (let s = map (\<lambda>k. s64 (sc_conv (sc_load a) (sc_load b) k)) [0..<23] @ [0]
      in sc_store (sc_tail (sc_high (sc_carry_wide s))))"

definition sc_muladd :: "byte list \<Rightarrow> byte list \<Rightarrow> byte list \<Rightarrow> byte list" where
  "sc_muladd a b c =
     (let a = sc_load a; b = sc_load b; c = sc_load c;
          s = map (\<lambda>k. s64 (c ! k + sc_conv a b k)) [0..<12]
            @ map (\<lambda>k. s64 (sc_conv a b k)) [12..<23] @ [0]
      in sc_store (sc_tail (sc_high (sc_carry_wide s))))"

definition sc_mulsub :: "byte list \<Rightarrow> byte list \<Rightarrow> byte list \<Rightarrow> byte list" where
  "sc_mulsub a b c =
     (let a = sc_load a; b = sc_load b; c = sc_load c;
          s = map (\<lambda>k. s64 (c ! k - sc_conv a b k)) [0..<12]
            @ map (\<lambda>k. s64 (- sc_conv a b k)) [12..<23] @ [0]
      in sc_store (sc_tail (sc_high (sc_carry_wide s))))"

definition signum :: "int \<Rightarrow> int" where
  "signum a = (if a > 0 then 1 else if a < 0 then - 1 else 0)"

definition sc_check :: "byte list \<Rightarrow> int" where
  "sc_check s =
     (let s0 = sint (load_4 s 0); s1 = sint (load_4 s 4); s2 = sint (load_4 s 8);
          s3 = sint (load_4 s 12); s4 = sint (load_4 s 16); s5 = sint (load_4 s 20);
          s6 = sint (load_4 s 24); s7 = sint (load_4 s 28)
      in s32 (drop_bit 8 (signum (1559614444 - s0) + push_bit 1 (signum (1477600026 - s1))
           + push_bit 2 (signum (2734136534 - s2)) + push_bit 3 (signum (350157278 - s3))
           + push_bit 4 (signum (- s4)) + push_bit 5 (signum (- s5)) + push_bit 6 (signum (- s6))
           + push_bit 7 (signum (268435456 - s7)))))"

definition sc_isnonzero :: "byte list \<Rightarrow> int" where
  "sc_isnonzero s = drop_bit 8 (uint (foldl (OR) (s ! 0) (map (\<lambda>i. s ! i) [1..<32])) - 1) + 1"

section \<open>The interval analysis\<close>

definition sc_pos :: "nat \<Rightarrow> nat" where
  "sc_pos i = 21 * i"

definition sc_round_iv :: "nat \<Rightarrow> ival list \<Rightarrow> ival list option" where
  "sc_round_iv i = carry_iv (2 ^ 63) (2 ^ 20) 21 i (i + 1) 1"

definition sc_floor_iv :: "nat \<Rightarrow> ival list \<Rightarrow> ival list option" where
  "sc_floor_iv i = carry_iv (2 ^ 63) 0 21 i (i + 1) 1"

definition sc_fold_iv :: "nat \<Rightarrow> ival list \<Rightarrow> ival list option" where
  "sc_fold_iv k B =
     (if length B = k + 1 \<and> 12 \<le> k then do {
        let x = B ! k;
        B \<leftarrow> madd_iv (2 ^ 63) (k - 12) x 666643 (take k B);
        B \<leftarrow> madd_iv (2 ^ 63) (k - 11) x 470296 B;
        B \<leftarrow> madd_iv (2 ^ 63) (k - 10) x 654183 B;
        B \<leftarrow> madd_iv (2 ^ 63) (k - 9) x (- 997805) B;
        B \<leftarrow> madd_iv (2 ^ 63) (k - 8) x 136657 B;
        madd_iv (2 ^ 63) (k - 7) x (- 683901) B
      } else None)"

text \<open>\<^verbatim>\<open>sc_check\<close> compares digit by digit: the weighted sum of the signs has the sign of the
  most significant difference.\<close>

fun sign_sum :: "int list \<Rightarrow> int list \<Rightarrow> int" where
  "sign_sum (x # xs) (y # ys) = signum (y - x) + 2 * sign_sum xs ys"
| "sign_sum _ _ = 0"

section \<open>Soundness of the carries and folds\<close>

lemma sc_pos_Suc: "(2 :: int) ^ sc_pos (Suc i) = 2 ^ 21 * 2 ^ sc_pos i"
  by (simp add: sc_pos_def power_add)

interpretation rnd: limb_step sc_round sc_round_iv "lval sc_pos" 0
proof
  fix B s i B'
  assume "bounded B s" "sc_round_iv i B = Some B'"
  then show "bounded B' (sc_round i s)" "lval sc_pos (sc_round i s) mod 0 = lval sc_pos s mod 0"
    using carry_step_exact(1) [OF wraps_s64, of B s "2 ^ 20" 21 i "i + 1" 1 B']
      carry_step_lval [OF wraps_s64, of B s "2 ^ 20" 21 i "i + 1" 1 B' sc_pos]
    by (simp_all add: sc_round_def sc_round_iv_def sc_pos_Suc)
qed

interpretation flr: limb_step sc_floor sc_floor_iv "lval sc_pos" 0
proof
  fix B s i B'
  assume "bounded B s" "sc_floor_iv i B = Some B'"
  then show "bounded B' (sc_floor i s)" "lval sc_pos (sc_floor i s) mod 0 = lval sc_pos s mod 0"
    using carry_step_exact(1) [OF wraps_s64, of B s 0 21 i "i + 1" 1 B']
      carry_step_lval [OF wraps_s64, of B s 0 21 i "i + 1" 1 B' sc_pos]
    by (simp_all add: sc_floor_def sc_floor_iv_def sc_pos_Suc)
qed

lemma sc_fold_sound:
  assumes b: "bounded B s" and iv: "sc_fold_iv k B = Some B'"
  shows "bounded B' (sc_fold k s)"
    and "lval sc_pos (sc_fold k s) = lval sc_pos s - s ! k * 2 ^ sc_pos (k - 12) * sc_l"
proof -
  note madd = madd_step_sound(1) [OF wraps_s64] and val = madd_step_lval [OF wraps_s64]
  have len: "length B = k + 1" and k: "12 \<le> k"
    using iv by (auto simp: sc_fold_iv_def split: if_splits)
  have x: "in_ival (s ! k) (B ! k)"
    using bounded_nth [OF b, of k] len by (simp add: in_ival_def)
  obtain B1 B2 B3 B4 B5 where
    1: "madd_iv (2 ^ 63) (k - 12) (B ! k) 666643 (take k B) = Some B1" and
    2: "madd_iv (2 ^ 63) (k - 11) (B ! k) 470296 B1 = Some B2" and
    3: "madd_iv (2 ^ 63) (k - 10) (B ! k) 654183 B2 = Some B3" and
    4: "madd_iv (2 ^ 63) (k - 9) (B ! k) (- 997805) B3 = Some B4" and
    5: "madd_iv (2 ^ 63) (k - 8) (B ! k) 136657 B4 = Some B5" and
    6: "madd_iv (2 ^ 63) (k - 7) (B ! k) (- 683901) B5 = Some B'"
    using iv len k by (auto simp: sc_fold_iv_def Let_def bind_eq_Some_conv)
  note b0 = bounded_take [OF b, of k]
  note b1 = madd [OF b0 x 1]
  note b2 = madd [OF b1 x 2]
  note b3 = madd [OF b2 x 3]
  note b4 = madd [OF b3 x 4]
  note b5 = madd [OF b4 x 5]
  show "bounded B' (sc_fold k s)"
    using madd [OF b5 x 6] by (simp add: sc_fold_def Let_def msub_step_madd)
  have pos: "(2 :: int) ^ sc_pos (k - 12 + j) = 2 ^ (21 * j) * 2 ^ sc_pos (k - 12)" for j
    by (simp add: sc_pos_def power_add algebra_simps)
  have "k - 11 = k - 12 + 1" "k - 10 = k - 12 + 2" "k - 9 = k - 12 + 3" "k - 8 = k - 12 + 4"
    "k - 7 = k - 12 + 5" "k = k - 12 + 12"
    using k by auto
  note pow = this [THEN arg_cong [where f = "\<lambda>i. (2 :: int) ^ sc_pos i"], unfolded pos]
  have "lval sc_pos s = lval sc_pos (take k s) + s ! k * 2 ^ sc_pos k"
    using bounded_length [OF b] len by (intro lval_take_snoc) simp
  then show "lval sc_pos (sc_fold k s) = lval sc_pos s - s ! k * 2 ^ sc_pos (k - 12) * sc_l"
    using val [OF b0 x 1, of sc_pos] val [OF b1 x 2, of sc_pos] val [OF b2 x 3, of sc_pos]
      val [OF b3 x 4, of sc_pos] val [OF b4 x 5, of sc_pos] val [OF b5 x 6, of sc_pos]
    by (simp add: sc_fold_def Let_def msub_step_madd pow sc_l_def algebra_simps)
qed

interpretation fld: limb_step sc_fold sc_fold_iv "lval sc_pos" sc_l
proof
  fix B s k B'
  assume *: "bounded B s" "sc_fold_iv k B = Some B'"
  show "bounded B' (sc_fold k s)" "lval sc_pos (sc_fold k s) mod sc_l = lval sc_pos s mod sc_l"
    using sc_fold_sound [OF *] by (simp_all add: mod_diff_right_eq [symmetric])
qed

section \<open>Loading and storing\<close>

lemma sc_pos_eq: "sc_pos = (\<lambda>i. 21 * i)"
  by (rule ext) (simp add: sc_pos_def)

lemmas limb21_loads = limb21_load_3 limb21_load_4 limb21_load_3 [where j = 0, simplified]

lemma sc_load_digits: "length a = 32 \<Longrightarrow> sc_load a = digit_limbs 21 11 (le a)"
  by (simp add: sc_load_def digit_limbs_def upt_rec limb21_loads top_load_4)

lemma sc_load_wide_digits: "length s = 64 \<Longrightarrow> sc_load_wide s = digit_limbs 21 23 (le s)"
  by (simp add: sc_load_wide_def digit_limbs_def upt_rec limb21_loads top_load_4)

lemma sc_store_digits:
  "sc_store (digit_limbs 21 11 v) = map (\<lambda>k. word_of_int (drop_bit (8 * k) v)) [0..<32]"
  by (simp add: sc_store_def digit_limbs_def upt_rec bytes_of_limbs)

section \<open>The carry chains never wrap around\<close>

lemma wide_ok: "iv_within (iv_chain sc_round_iv
     [0, 2, 4, 6, 8, 10, 12, 14, 16, 18, 20, 22, 1, 3, 5, 7, 9, 11, 13, 15, 17, 19, 21]
     (replicate 23 (- (2 ^ 55), 2 ^ 55) @ [(0, 0)])) (replicate 24 (- (2 ^ 35), 2 ^ 35))"
  by code_simp

lemma high_ok: "iv_within (do {
       B \<leftarrow> iv_chain sc_fold_iv [23, 22, 21, 20, 19, 18] (replicate 24 (- (2 ^ 35), 2 ^ 35));
       B \<leftarrow> iv_chain sc_round_iv [6, 8, 10, 12, 14, 16, 7, 9, 11, 13, 15] B;
       iv_chain sc_fold_iv [17, 16, 15, 14, 13, 12] B})
     (replicate 11 (- (2 ^ 61), 2 ^ 61) @ [(- (2 ^ 27), 2 ^ 27)])"
  by code_simp

lemma mid_ok: "iv_within (do {
       B \<leftarrow> iv_chain sc_round_iv [0, 2, 4, 6, 8, 10, 1, 3, 5, 7, 9, 11]
         (replicate 11 (- (2 ^ 61), 2 ^ 61) @ [(- (2 ^ 27), 2 ^ 27), (0, 0)]);
       iv_chain sc_fold_iv [12] B})
     (replicate 10 (- (2 ^ 41), 2 ^ 41) @ [(- (3 * 2 ^ 39), 3 * 2 ^ 39), (- (2 ^ 20), 2 ^ 20)])"
  by code_simp

lemma floor_ok: "iv_within (iv_chain sc_floor_iv [0, 1, 2, 3, 4, 5, 6, 7, 8, 9, 10, 11]
       (replicate 10 (- (2 ^ 41), 2 ^ 41)
         @ [(- (3 * 2 ^ 39), 3 * 2 ^ 39), (- (2 ^ 20), 2 ^ 20), (0, 0)]))
     (replicate 12 (0, 2 ^ 21 - 1) @ [(- (2 ^ 20), 2 ^ 20)])"
  by code_simp

lemma last_ok: "iv_within (do {
       B \<leftarrow> iv_chain sc_fold_iv [12] (replicate 12 (0, 2 ^ 21 - 1) @ [(- (2 ^ 20), 2 ^ 20)]);
       iv_chain sc_floor_iv [0, 1, 2, 3, 4, 5, 6, 7, 8, 9, 10] B})
     (replicate 11 (0, 2 ^ 21 - 1) @ [(- (2 ^ 30), 2 ^ 30)])"
  by code_simp

lemma sc_rounds_sound:
  assumes "bounded B s" "iv_chain sc_round_iv is B = Some B'"
  shows "bounded B' (sc_rounds is s)" "lval sc_pos (sc_rounds is s) = lval sc_pos s"
  using rnd.chain_sound [OF assms] by (simp_all add: sc_rounds_def)

lemma sc_floors_sound:
  assumes "bounded B s" "iv_chain sc_floor_iv is B = Some B'"
  shows "bounded B' (sc_floors is s)" "lval sc_pos (sc_floors is s) = lval sc_pos s"
  using flr.chain_sound [OF assms] by (simp_all add: sc_floors_def)

lemma sc_folds_sound:
  assumes "bounded B s" "iv_chain sc_fold_iv ks B = Some B'"
  shows "bounded B' (sc_folds ks s)" "lval sc_pos (sc_folds ks s) mod sc_l = lval sc_pos s mod sc_l"
  using fld.chain_sound [OF assms] by (simp_all add: sc_folds_def)

lemma sc_carry_wide_sound:
  assumes "bounded (replicate 23 (- (2 ^ 55), 2 ^ 55) @ [(0, 0)]) s"
  shows "bounded (replicate 24 (- (2 ^ 35), 2 ^ 35)) (sc_carry_wide s)"
    and "lval sc_pos (sc_carry_wide s) = lval sc_pos s"
  using wide_ok sc_rounds_sound [OF assms] unfolding sc_carry_wide_def by (auto elim!: iv_withinE)

lemma sc_high_sound:
  assumes "bounded (replicate 24 (- (2 ^ 35), 2 ^ 35)) s"
  shows "bounded (replicate 11 (- (2 ^ 61), 2 ^ 61) @ [(- (2 ^ 27), 2 ^ 27), (0, 0)]) (sc_high s)"
    and "lval sc_pos (sc_high s) mod sc_l = lval sc_pos s mod sc_l"
proof -
  obtain B1 B2 B3 where
    1: "iv_chain sc_fold_iv [23, 22, 21, 20, 19, 18] (replicate 24 (- (2 ^ 35), 2 ^ 35)) = Some B1" and
    2: "iv_chain sc_round_iv [6, 8, 10, 12, 14, 16, 7, 9, 11, 13, 15] B1 = Some B2" and
    3: "iv_chain sc_fold_iv [17, 16, 15, 14, 13, 12] B2 = Some B3" and
    B3: "\<And>s. bounded B3 s \<Longrightarrow> bounded (replicate 11 (- (2 ^ 61), 2 ^ 61) @ [(- (2 ^ 27), 2 ^ 27)]) s"
    using high_ok by (elim iv_withinE) (auto simp only: bind_eq_Some_conv)
  note s1 = sc_folds_sound [OF assms 1]
  note s2 = sc_rounds_sound [OF s1(1) 2]
  note s3 = sc_folds_sound [OF s2(1) 3]
  show "bounded (replicate 11 (- (2 ^ 61), 2 ^ 61) @ [(- (2 ^ 27), 2 ^ 27), (0, 0)]) (sc_high s)"
    using bounded_append [OF B3 [OF s3(1)], of "[(0, 0)]" "[0]"]
    by (simp add: sc_high_def Let_def bounded_def)
  show "lval sc_pos (sc_high s) mod sc_l = lval sc_pos s mod sc_l"
    using s1 s2 s3 by (simp add: sc_high_def Let_def lval_snoc)
qed


lemma sc_mid_sound:
  assumes "bounded (replicate 11 (- (2 ^ 61), 2 ^ 61) @ [(- (2 ^ 27), 2 ^ 27), (0, 0)]) s"
  shows "bounded (replicate 10 (- (2 ^ 41), 2 ^ 41) @ [(- (3 * 2 ^ 39), 3 * 2 ^ 39), (- (2 ^ 20), 2 ^ 20)])
      (sc_mid s)"
    and "lval sc_pos (sc_mid s) mod sc_l = lval sc_pos s mod sc_l"
    and "- (2 ^ 252) \<le> lval sc_pos (sc_mid s)" "lval sc_pos (sc_mid s) < 2 ^ 252"
proof -
  let ?C = "replicate 10 (- (2 ^ 41), 2 ^ 41) @ [(- (3 * 2 ^ 39), 3 * 2 ^ 39), (- (2 ^ 20), 2 ^ 20)]"
  obtain B1 B2 where
    1: "iv_chain sc_round_iv [0, 2, 4, 6, 8, 10, 1, 3, 5, 7, 9, 11]
         (replicate 11 (- (2 ^ 61), 2 ^ 61) @ [(- (2 ^ 27), 2 ^ 27), (0, 0)]) = Some B1" and
    2: "iv_chain sc_fold_iv [12] B1 = Some B2" and B2: "\<And>s. bounded B2 s \<Longrightarrow> bounded ?C s"
    using mid_ok by (elim iv_withinE) (auto simp only: bind_eq_Some_conv)
  note s1 = sc_rounds_sound [OF assms 1]
  note s2 = sc_folds_sound [OF s1(1) 2]
  show b: "bounded ?C (sc_mid s)"
    using B2 [OF s2(1)] by (simp add: sc_mid_def)
  show "lval sc_pos (sc_mid s) mod sc_l = lval sc_pos s mod sc_l"
    using s1 s2 by (simp add: sc_mid_def)
  have "- (2 ^ 252) \<le> lval_lo sc_pos ?C" "lval_hi sc_pos ?C < 2 ^ 252"
    by (simp_all add: lval_lo_def lval_hi_def lval_def sc_pos_def numeral_eq_Suc)
  then show "- (2 ^ 252) \<le> lval sc_pos (sc_mid s)" "lval sc_pos (sc_mid s) < 2 ^ 252"
    using lval_bounds [OF b, of sc_pos] by linarith+
qed

text \<open>Folding the floor of \<open>v / 2 ^ 252\<close> once makes a value of this size canonical.\<close>

lemma fold_canonical:
  assumes "- (2 ^ 252) \<le> v" "v < 2 ^ 252"
  shows "v - drop_bit 252 v * sc_l = v mod sc_l"
proof (cases "0 \<le> v")
  case True
  with assms have "v div 2 ^ 252 = 0" "v < sc_l"
    by (simp_all add: sc_l_def)
  with True show ?thesis
    by (simp add: drop_bit_eq_div)
next
  case False
  with assms have "v div 2 ^ 252 = - 1" "v + sc_l < sc_l" "0 \<le> v + sc_l"
    by (simp_all add: sc_l_def div_eq_minus1)
  then show ?thesis
    by (metis diff_minus_eq_add drop_bit_eq_div mod_add_self2 mod_pos_pos_trivial mult_minus1)
qed

lemma sc_tail_sound:
  assumes "bounded (replicate 11 (- (2 ^ 61), 2 ^ 61) @ [(- (2 ^ 27), 2 ^ 27), (0, 0)]) s"
  shows "sc_tail s = digit_limbs 21 11 (lval sc_pos s mod sc_l)"
proof -
  note mid = sc_mid_sound [OF assms]
  define v where "v = lval sc_pos (sc_mid s)"
  obtain B1 where 1: "iv_chain sc_floor_iv [0, 1, 2, 3, 4, 5, 6, 7, 8, 9, 10, 11]
       (replicate 10 (- (2 ^ 41), 2 ^ 41)
         @ [(- (3 * 2 ^ 39), 3 * 2 ^ 39), (- (2 ^ 20), 2 ^ 20), (0, 0)]) = Some B1"
    and B1: "\<And>s. bounded B1 s \<Longrightarrow> bounded (replicate 12 (0, 2 ^ 21 - 1) @ [(- (2 ^ 20), 2 ^ 20)]) s"
    using floor_ok by (rule iv_withinE) blast
  obtain B2 B3 where
    2: "iv_chain sc_fold_iv [12] (replicate 12 (0, 2 ^ 21 - 1) @ [(- (2 ^ 20), 2 ^ 20)]) = Some B2" and
    3: "iv_chain sc_floor_iv [0, 1, 2, 3, 4, 5, 6, 7, 8, 9, 10] B2 = Some B3" and
    B3: "\<And>s. bounded B3 s \<Longrightarrow> bounded (replicate 11 (0, 2 ^ 21 - 1) @ [(- (2 ^ 30), 2 ^ 30)]) s"
    using last_ok by (elim iv_withinE) (auto simp only: bind_eq_Some_conv)
  have b0: "bounded (replicate 10 (- (2 ^ 41), 2 ^ 41)
         @ [(- (3 * 2 ^ 39), 3 * 2 ^ 39), (- (2 ^ 20), 2 ^ 20), (0, 0)]) (sc_mid s @ [0])"
    using bounded_append [OF mid(1), of "[(0, 0)]" "[0]"] by (simp add: bounded_def)
  define t where "t = sc_floors [0, 1, 2, 3, 4, 5, 6, 7, 8, 9, 10, 11] (sc_mid s @ [0])"
  have t: "bounded (replicate 12 (0, 2 ^ 21 - 1) @ [(- (2 ^ 20), 2 ^ 20)]) t" "lval sc_pos t = v"
    using B1 sc_floors_sound [OF b0 1] by (simp_all add: t_def v_def lval_snoc)
  have "t = digit_limbs 21 12 v"
    using bounded_eq_digit_limbs [OF t(1)] t(2) by (simp add: sc_pos_eq)
  then have top: "t ! 12 = drop_bit 252 v"
    by (simp add: digit_limbs_def nth_append)
  define u where "u = sc_folds [12] t"
  have f: "sc_fold_iv 12 (replicate 12 (0, 2 ^ 21 - 1) @ [(- (2 ^ 20), 2 ^ 20)]) = Some B2"
    using 2 by (auto split: option.splits)
  have u: "bounded B2 u" "lval sc_pos u = v mod sc_l"
    using sc_fold_sound [OF t(1) f] t(2) top fold_canonical [of v] mid(3,4)
    by (simp_all add: u_def v_def sc_folds_def sc_pos_def)
  define w where "w = sc_floors [0, 1, 2, 3, 4, 5, 6, 7, 8, 9, 10] u"
  have w: "bounded (replicate 11 (0, 2 ^ 21 - 1) @ [(- (2 ^ 30), 2 ^ 30)]) w"
      "lval sc_pos w = v mod sc_l"
    using B3 sc_floors_sound [OF u(1) 3] u(2) by (simp_all add: w_def)
  have "w = digit_limbs 21 11 (v mod sc_l)"
    using bounded_eq_digit_limbs [OF w(1)] w(2) by (simp add: sc_pos_eq)
  then show ?thesis
    using mid(2) by (simp add: sc_tail_def Let_def w_def u_def t_def v_def)
qed

lemma sc_tail_store:
  assumes "bounded (replicate 11 (- (2 ^ 61), 2 ^ 61) @ [(- (2 ^ 27), 2 ^ 27), (0, 0)]) s"
  shows "le (sc_store (sc_tail s)) = lval sc_pos s mod sc_l" "length (sc_store (sc_tail s)) = 32"
proof -
  have "lval sc_pos s mod sc_l < sc_l"
    by (rule pos_mod_bound) (simp add: sc_l_def)
  then have "lval sc_pos s mod sc_l < 256 ^ 32"
    by (simp add: sc_l_def le_replicate_255)
  then show "le (sc_store (sc_tail s)) = lval sc_pos s mod sc_l"
    by (simp add: sc_tail_sound [OF assms] sc_store_digits le_map_digits sc_l_def)
qed (simp add: sc_store_def)

section \<open>The operations compute modulo the group order\<close>

lemma bounded_sc_load:
  assumes "length a = 32"
  shows "bounded (replicate 11 (0, 2 ^ 21 - 1) @ [(0, 2 ^ 25 - 1)]) (sc_load a)"
proof -
  have "le a < 2 ^ (21 * 11 + 25)"
    using le_less [of a] assms by simp
  then show ?thesis
    using bounded_digit_limbs [of "le a" 21 11 25] assms by (simp add: sc_load_digits)
qed

lemma sc_load_nth:
  assumes "length a = 32" "i < 12"
  shows "0 \<le> sc_load a ! i" "sc_load a ! i < 2 ^ 25"
proof -
  have "sc_load a ! i \<le> (if i < 11 then 2 ^ 21 - 1 else 2 ^ 25 - 1)" "0 \<le> sc_load a ! i"
    using bounded_nth [OF bounded_sc_load [OF assms(1)], of i] assms(2)
    by (auto simp: nth_append split: if_splits)
  then show "0 \<le> sc_load a ! i" "sc_load a ! i < 2 ^ 25"
    by (auto split: if_splits)
qed

lemma length_sc_load [simp]: "length (sc_load a) = 12"
  by (simp add: sc_load_def)

lemma lval_sc_load: "length a = 32 \<Longrightarrow> lval sc_pos (sc_load a) = le a"
  by (simp add: sc_load_digits sc_pos_eq lval_digit_limbs)

lemma narrow_bounded:
  assumes "length t = 12" "\<And>i. i < 12 \<Longrightarrow> - (2 ^ 26) \<le> t ! i \<and> t ! i \<le> 2 ^ 26"
  shows "bounded (replicate 11 (- (2 ^ 61), 2 ^ 61) @ [(- (2 ^ 27), 2 ^ 27), (0, 0)]) (t @ [0])"
proof (rule boundedI)
  fix i
  assume i: "i < length (replicate 11 (- (2 ^ 61), 2 ^ 61) @ [(- (2 ^ 27), 2 ^ 27), (0, 0 :: int)])"
  consider "i < 11" | "i = 11" | "i = 12"
    using i by fastforce
  then show "fst ((replicate 11 (- (2 ^ 61), 2 ^ 61) @ [(- (2 ^ 27), 2 ^ 27), (0, 0)]) ! i) \<le> (t @ [0]) ! i
      \<and> (t @ [0]) ! i \<le> snd ((replicate 11 (- (2 ^ 61), 2 ^ 61) @ [(- (2 ^ 27), 2 ^ 27), (0, 0)]) ! i)"
    using assms(2) [of i] assms(1) by cases (auto simp: nth_append)
qed (use assms(1) in simp)

lemma sc_reduce32_le:
  assumes "length s = 32"
  shows "le (sc_reduce32 s) = le s mod sc_l" "length (sc_reduce32 s) = 32"
proof -
  have "bounded (replicate 11 (- (2 ^ 61), 2 ^ 61) @ [(- (2 ^ 27), 2 ^ 27), (0, 0)]) (sc_load s @ [0])"
    using sc_load_nth [OF assms] by (intro narrow_bounded) fastforce+
  from sc_tail_store [OF this] show "le (sc_reduce32 s) = le s mod sc_l" "length (sc_reduce32 s) = 32"
    by (simp_all add: sc_reduce32_def lval_snoc lval_sc_load assms)
qed

lemma lval_map2:
  assumes "length xs = length ys"
  shows "lval pos (map2 (\<lambda>x y. x + c * y) xs ys) = lval pos xs + c * lval pos ys"
  using assms by (simp add: lval_def sum_distrib_left sum.distrib [symmetric] algebra_simps)

text \<open>Addition and subtraction, with the sign \<open>c\<close>.\<close>

lemma sc_addsub_le:
  assumes "length a = 32" "length b = 32" "c = 1 \<or> c = - 1"
    and t: "t = map2 (\<lambda>x y. s64 (x + c * y)) (sc_load a) (sc_load b)"
  shows "le (sc_store (sc_tail (t @ [0]))) = (le a + c * le b) mod sc_l"
    "length (sc_store (sc_tail (t @ [0]))) = 32"
proof -
  have r: "- (2 ^ 26) \<le> x + c * y \<and> x + c * y \<le> 2 ^ 26"
    if "i < 12" "x = sc_load a ! i" "y = sc_load b ! i" for i x y
    using sc_load_nth [OF assms(1) that(1)] sc_load_nth [OF assms(2) that(1)] assms(3) that by auto
  have s: "s64 (sc_load a ! i + c * sc_load b ! i) = sc_load a ! i + c * sc_load b ! i" if "i < 12" for i
    using r [OF that refl refl] by (intro s64_id) auto
  have t': "t = map2 (\<lambda>x y. x + c * y) (sc_load a) (sc_load b)"
    unfolding t using s by (intro nth_equalityI) simp_all
  have "bounded (replicate 11 (- (2 ^ 61), 2 ^ 61) @ [(- (2 ^ 27), 2 ^ 27), (0, 0)]) (t @ [0])"
    unfolding t' using r [OF _ refl refl] by (intro narrow_bounded) simp_all
  from sc_tail_store [OF this]
  show "le (sc_store (sc_tail (t @ [0]))) = (le a + c * le b) mod sc_l"
    "length (sc_store (sc_tail (t @ [0]))) = 32"
    by (simp_all add: t' lval_snoc lval_map2 lval_sc_load assms(1,2))
qed

section \<open>Products\<close>

lemma sum_list_filter_comprehension:
  "sum_list [f i. i \<leftarrow> xs, P i] = (\<Sum>i\<leftarrow>xs. if P i then f i else (0 :: int))"
  by (induction xs) simp_all

lemma sc_conv_sum:
  "sc_conv a b k = (\<Sum>i<12. if i \<le> k \<and> k - i < 12 then a ! i * b ! (k - i) else 0)"
  unfolding sc_conv_def sum_list_filter_comprehension
  by (simp add: sum_list_distinct_conv_sum_set atLeast0LessThan)

lemma sc_conv_bound:
  assumes "length a = 32" "length b = 32"
  shows "\<bar>sc_conv (sc_load a) (sc_load b) k\<bar> \<le> 12 * 2 ^ 50"
proof -
  have "\<bar>if i \<le> k \<and> k - i < 12 then sc_load a ! i * sc_load b ! (k - i) else 0\<bar> \<le> 2 ^ 50"
    if "i < 12" for i
  proof -
    have "sc_load a ! i * sc_load b ! j \<le> 2 ^ 25 * 2 ^ 25" "0 \<le> sc_load a ! i * sc_load b ! j"
      if "j < 12" for j
      using sc_load_nth [OF assms(1) \<open>i < 12\<close>] sc_load_nth [OF assms(2) that]
      by (intro mult_mono mult_nonneg_nonneg; simp)+
    then show ?thesis by simp
  qed
  then have "(\<Sum>i<12. \<bar>if i \<le> k \<and> k - i < 12 then sc_load a ! i * sc_load b ! (k - i) else 0\<bar>)
      \<le> (\<Sum>i<(12::nat). 2 ^ 50)"
    by (intro sum_mono) simp
  then show ?thesis
    unfolding sc_conv_sum
    by (intro order_trans [OF sum_abs]) simp
qed

text \<open>The sums of products are the limbs of the product.\<close>

lemma sc_conv_lval:
  assumes "length a = 12" "length b = 12"
  shows "(\<Sum>k<23. sc_conv a b k * 2 ^ sc_pos k) = lval sc_pos a * lval sc_pos b"
proof -
  have pos: "(2 :: int) ^ sc_pos (i + j) = 2 ^ sc_pos i * 2 ^ sc_pos j" for i j
    by (simp add: sc_pos_def power_add distrib_left)
  have inner: "(\<Sum>k<23. (if i \<le> k \<and> k - i < 12 then a ! i * b ! (k - i) else 0) * 2 ^ sc_pos k)
      = a ! i * 2 ^ sc_pos i * lval sc_pos b" if "i < 12" for i
  proof -
    have "(\<Sum>k<23. (if i \<le> k \<and> k - i < 12 then a ! i * b ! (k - i) else 0) * 2 ^ sc_pos k)
        = (\<Sum>k\<in>{i..<i + 12}. a ! i * b ! (k - i) * 2 ^ sc_pos k)"
      using that by (intro sum.mono_neutral_cong_right) auto
    also have "\<dots> = (\<Sum>j<12. a ! i * b ! j * 2 ^ sc_pos (i + j))"
      by (rule sum.reindex_bij_witness [of _ "\<lambda>j. i + j" "\<lambda>k. k - i"]) auto
    finally show ?thesis
      by (simp add: assms lval_def pos sum_distrib_left algebra_simps)
  qed
  have "(\<Sum>k<23. sc_conv a b k * 2 ^ sc_pos k)
      = (\<Sum>k<23. \<Sum>i<12. (if i \<le> k \<and> k - i < 12 then a ! i * b ! (k - i) else 0) * 2 ^ sc_pos k)"
    by (simp add: sc_conv_sum sum_distrib_right)
  also have "\<dots> = (\<Sum>i<12. a ! i * 2 ^ sc_pos i * lval sc_pos b)"
    by (subst sum.swap) (simp add: inner)
  finally show ?thesis
    by (simp add: assms lval_def [of _ a] sum_distrib_right)
qed

text \<open>\<open>c + sg * a * b\<close>: the products of the three multiplying operations differ in \<open>c\<close> and the sign.\<close>

lemma sc_product_le:
  assumes "length a = 32" "length b = 32" "length c = 23" "sg = 1 \<or> sg = - 1"
    and c: "\<And>k. k < 23 \<Longrightarrow> 0 \<le> c ! k \<and> c ! k < 2 ^ 25"
    and s: "s = map (\<lambda>k. s64 (c ! k + sg * sc_conv (sc_load a) (sc_load b) k)) [0..<23] @ [0]"
  shows "le (sc_store (sc_tail (sc_high (sc_carry_wide s)))) = (lval sc_pos c + sg * (le a * le b)) mod sc_l
    \<and> length (sc_store (sc_tail (sc_high (sc_carry_wide s)))) = 32"
proof -
  define d where "d k = c ! k + sg * sc_conv (sc_load a) (sc_load b) k" for k
  have d: "- (2 ^ 55) \<le> d k \<and> d k \<le> 2 ^ 55" if "k < 23" for k
    using sc_conv_bound [OF assms(1,2), of k] c [OF that] assms(4) unfolding d_def by auto
  have "s64 (d k) = d k" if "k < 23" for k
    using d [OF that] by (intro s64_id) auto
  then have s': "s = map d [0..<23] @ [0]"
    by (simp add: s d_def)
  have "bounded (replicate 23 (- (2 ^ 55), 2 ^ 55) @ [(0, 0)]) s"
    unfolding s' using d by (intro bounded_append boundedI) simp_all
  note w = sc_carry_wide_sound [OF this]
  note h = sc_high_sound [OF w(1)]
  have "lval sc_pos (map d [0..<23]) = (\<Sum>k<23. d k * 2 ^ sc_pos k)"
    by (simp add: lval_def)
  also have "\<dots> = lval sc_pos c + sg * (\<Sum>k<23. sc_conv (sc_load a) (sc_load b) k * 2 ^ sc_pos k)"
    by (simp add: d_def assms(3) lval_def sum.distrib sum_distrib_left algebra_simps)
  finally have "lval sc_pos s = lval sc_pos c + sg * (le a * le b)"
    by (simp add: s' lval_snoc sc_conv_lval lval_sc_load assms(1,2))
  then show ?thesis
    using sc_tail_store [OF h(1)] h(2) w(2) by simp_all
qed

lemma lval_append_zeros: "lval pos (xs @ replicate n 0) = lval pos xs"
  by (induction n) (simp_all add: replicate_append_same [symmetric] lval_snoc flip: append_assoc)

lemma map_upt_12_23:
  assumes "\<And>k. k < 12 \<Longrightarrow> f k = h k" "\<And>k. 12 \<le> k \<Longrightarrow> k < 23 \<Longrightarrow> g k = h k"
  shows "map f [0..<12] @ map g [12..<23] @ zs = map h [0..<23] @ zs"
proof -
  have "map f [0..<12] = map h [0..<12]" "map g [12..<23] = map h [12..<23]"
    using assms by (auto intro!: map_cong simp del: upt_rec_numeral)
  moreover have "[0..<23] = [0..<12] @ [12..<23]"
    using upt_add_eq_append [of 0 12 11] by (simp del: upt_rec_numeral)
  ultimately show ?thesis
    by (simp del: upt_rec_numeral)
qed

text \<open>C3. \<^verbatim>\<open>sc_muladd\<close> computes \<open>c + a b\<close> modulo the group order, for every three 32-byte strings,
  and returns the canonical representative, below the order.\<close>

theorem sc_muladd_correct:
  assumes "length a = 32" "length b = 32" "length c = 32"
  shows "le (sc_muladd a b c) = (le c + le a * le b) mod sc_l \<and> length (sc_muladd a b c) = 32"
proof -
  let ?c = "sc_load c @ replicate 11 0"
  have c: "0 \<le> ?c ! k \<and> ?c ! k < 2 ^ 25" if "k < 23" for k
    using that sc_load_nth [OF assms(3), of k] by (auto simp: nth_append)
  have eq: "map (\<lambda>k. s64 (sc_load c ! k + sc_conv (sc_load a) (sc_load b) k)) [0..<12] @ map (\<lambda>k. s64 (sc_conv (sc_load a) (sc_load b) k)) [12..<23] @ [0]
      = map (\<lambda>k. s64 (?c ! k + 1 * sc_conv (sc_load a) (sc_load b) k)) [0..<23] @ [0]"
    by (rule map_upt_12_23) (simp_all add: nth_append)
  have "lval sc_pos ?c = le c"
    by (simp add: lval_append_zeros lval_sc_load assms(3))
  then show ?thesis
    using sc_product_le [OF assms(1,2) _ _ c refl, of "1"]
    by (simp only: sc_muladd_def Let_def eq) simp
qed

theorem sc_muladd_witness:
  "le (sc_muladd (replicate 32 255) (7 # replicate 31 0) (replicate 32 255))
    = 7237005577332262213973186563042994237306099683876246353412902901052347243877"
  using sc_muladd_correct [of "replicate 32 255" "7 # replicate 31 0" "replicate 32 255"] by (simp add: sc_l_def le_replicate_255)

text \<open>C17. \<^verbatim>\<open>sc_mulsub\<close> computes \<open>c - a b\<close> modulo the group order, for every three 32-byte strings,
  reduced or not, and returns the canonical representative.\<close>

theorem sc_mulsub_correct:
  assumes "length a = 32" "length b = 32" "length c = 32"
  shows "le (sc_mulsub a b c) = (le c - le a * le b) mod sc_l \<and> length (sc_mulsub a b c) = 32"
proof -
  let ?c = "sc_load c @ replicate 11 0"
  have c: "0 \<le> ?c ! k \<and> ?c ! k < 2 ^ 25" if "k < 23" for k
    using that sc_load_nth [OF assms(3), of k] by (auto simp: nth_append)
  have eq: "map (\<lambda>k. s64 (sc_load c ! k - sc_conv (sc_load a) (sc_load b) k)) [0..<12] @ map (\<lambda>k. s64 (- sc_conv (sc_load a) (sc_load b) k)) [12..<23] @ [0]
      = map (\<lambda>k. s64 (?c ! k + - 1 * sc_conv (sc_load a) (sc_load b) k)) [0..<23] @ [0]"
    by (rule map_upt_12_23) (simp_all add: nth_append)
  have "lval sc_pos ?c = le c"
    by (simp add: lval_append_zeros lval_sc_load assms(3))
  then show ?thesis
    using sc_product_le [OF assms(1,2) _ _ c refl, of "- 1"]
    by (simp only: sc_mulsub_def Let_def eq) simp
qed

theorem sc_mulsub_witness:
  "le (sc_mulsub (replicate 32 255) (7 # replicate 31 0) (3 # replicate 31 0))
    = 3107139591065703596015417032578968631226"
  using sc_mulsub_correct [of "replicate 32 255" "7 # replicate 31 0" "3 # replicate 31 0"] by (simp add: sc_l_def le_replicate_255)

text \<open>Lemma. \<^verbatim>\<open>sc_mul\<close> computes the product of any two 32-byte strings modulo the group order.\<close>

theorem sc_mul_correct:
  assumes "length a = 32" "length b = 32"
  shows "le (sc_mul a b) = (le a * le b) mod sc_l \<and> length (sc_mul a b) = 32"
proof -
  have "map (\<lambda>k. s64 (sc_conv (sc_load a) (sc_load b) k)) [0..<23]
      = map (\<lambda>k. s64 (replicate 23 0 ! k + 1 * sc_conv (sc_load a) (sc_load b) k)) [0..<23]"
    by (rule map_cong) simp_all
  moreover have "lval sc_pos (replicate 23 0) = 0"
    using lval_append_zeros [of sc_pos "[]" 23] by (simp add: lval_def)
  ultimately show ?thesis
    using sc_product_le [OF assms, of "replicate 23 0" 1] by (simp only: sc_mul_def Let_def) simp
qed

text \<open>Lemma. \<^verbatim>\<open>sc_add\<close> computes the sum of any two 32-byte strings modulo the group order.\<close>

theorem sc_add_correct:
  assumes "length a = 32" "length b = 32"
  shows "le (sc_add a b) = (le a + le b) mod sc_l \<and> length (sc_add a b) = 32"
  using sc_addsub_le [OF assms, of 1] by (simp add: sc_add_def)

text \<open>Lemma. \<^verbatim>\<open>sc_sub\<close> computes the difference of any two 32-byte strings modulo the group order;
  a negative difference comes out as its canonical representative.\<close>

theorem sc_sub_correct:
  assumes "length a = 32" "length b = 32"
  shows "le (sc_sub a b) = (le a - le b) mod sc_l \<and> length (sc_sub a b) = 32"
  using sc_addsub_le [OF assms, of "- 1"] by (simp add: sc_sub_def)

text \<open>C24. \<^verbatim>\<open>sc_reduce\<close> replaces the first half of its 64-byte argument by the residue of the whole
  argument modulo the group order, and leaves the second half alone.\<close>

theorem sc_reduce_correct:
  assumes "length s = 64"
  shows "le (take 32 (sc_reduce s)) = le s mod sc_l \<and> drop 32 (sc_reduce s) = drop 32 s
    \<and> length (sc_reduce s) = 64"
proof -
  have s: "le s < 2 ^ (21 * 23 + 29)"
    using le_less [of s] assms by simp
  have "bounded (replicate 24 (- (2 ^ 35), 2 ^ 35)) (sc_load_wide s)"
  proof (rule boundedI)
    fix i assume "i < length (replicate 24 (- (2 ^ 35), 2 ^ 35 :: int))"
    then show "fst (replicate 24 (- (2 ^ 35), 2 ^ 35) ! i) \<le> sc_load_wide s ! i
        \<and> sc_load_wide s ! i \<le> snd (replicate 24 (- (2 ^ 35), 2 ^ 35) ! i)"
      using bounded_nth [OF bounded_digit_limbs [OF le_nonneg s], of i]
      by (auto simp: sc_load_wide_digits assms nth_append split: if_splits)
  qed (simp add: sc_load_wide_def)
  note h = sc_high_sound [OF this]
  have "lval sc_pos (sc_load_wide s) = le s"
    by (simp add: sc_load_wide_digits assms sc_pos_eq lval_digit_limbs)
  then show ?thesis
    using sc_tail_store [OF h(1)] h(2) assms by (simp add: sc_reduce_def)
qed

theorem sc_reduce_witness:
  "le (take 32 (sc_reduce (replicate 33 255 @ replicate 31 0)))
    = 7237005577332262213973186563042994127224582743262747523152413746826030023660"
  using sc_reduce_correct [of "replicate 33 255 @ replicate 31 0"] by (simp add: sc_l_def le_replicate_255 le_append)

text \<open>Lemma. \<^verbatim>\<open>sc_reduce32\<close> replaces a 32-byte string by its residue modulo the group order.\<close>

theorem sc_reduce32_correct:
  assumes "length s = 32"
  shows "le (sc_reduce32 s) = le s mod sc_l \<and> length (sc_reduce32 s) = 32"
  using sc_reduce32_le [OF assms] by simp

section \<open>Checks\<close>

text \<open>Lemma. \<^verbatim>\<open>sc_isnonzero\<close> returns 1 for every 32-byte string with a nonzero byte and 0 for the
  zero string: the branch-free flag is the comparison with zero.\<close>

theorem sc_isnonzero_correct:
  assumes "length s = 32"
  shows "sc_isnonzero s = (if le s = 0 then 0 else 1)"
  using or_bytes_flag [OF assms] by (simp only: sc_isnonzero_def)

text \<open>C34. \<^verbatim>\<open>sc_mul\<close>, \<^verbatim>\<open>sc_add\<close>, \<^verbatim>\<open>sc_sub\<close> and \<^verbatim>\<open>sc_reduce32\<close> compute product, sum, difference and residue
  modulo the group order for any two 32-byte strings, canonical or not, as canonical 32-byte strings; \<^verbatim>\<open>sc_isnonzero\<close> is the
  branch-free test for zero.\<close>

theorem sc_ops_correct:
  assumes "length a = 32" "length b = 32"
  shows "le (sc_mul a b) = (le a * le b) mod sc_l \<and> length (sc_mul a b) = 32
    \<and> le (sc_add a b) = (le a + le b) mod sc_l \<and> length (sc_add a b) = 32
    \<and> le (sc_sub a b) = (le a - le b) mod sc_l \<and> length (sc_sub a b) = 32
    \<and> le (sc_reduce32 a) = le a mod sc_l \<and> length (sc_reduce32 a) = 32
    \<and> sc_isnonzero a = (if le a = 0 then 0 else 1)"
  using sc_mul_correct [OF assms] sc_add_correct [OF assms] sc_sub_correct [OF assms] sc_reduce32_correct [OF assms(1)]
    sc_isnonzero_correct [OF assms(1)] by blast

theorem sc_ops_witness:
  "le (sc_sub (3 # replicate 31 0) (replicate 32 255)) = 443877084437957656573631004654138375892"
  using sc_ops_correct [of "3 # replicate 31 0" "replicate 32 255"] by (simp add: sc_l_def le_replicate_255)

lemma sign_sum_compare:
  assumes "length xs = length ys"
    and "\<And>x. x \<in> set xs \<Longrightarrow> 0 \<le> x \<and> x < 2 ^ w" "\<And>y. y \<in> set ys \<Longrightarrow> 0 \<le> y \<and> y < 2 ^ w"
  shows "(0 \<le> sign_sum xs ys \<longleftrightarrow> lval (\<lambda>i. w * i) xs \<le> lval (\<lambda>i. w * i) ys)
    \<and> (sign_sum xs ys = 0 \<longleftrightarrow> lval (\<lambda>i. w * i) xs = lval (\<lambda>i. w * i) ys)
    \<and> \<bar>sign_sum xs ys\<bar> < 2 ^ length xs"
  using assms
proof (induction xs ys rule: list_induct2)
  case Nil
  then show ?case by (simp add: lval_def)
next
  case (Cons x xs y ys)
  let ?X = "lval (\<lambda>i. w * i) xs" and ?Y = "lval (\<lambda>i. w * i) ys" and ?W = "sign_sum xs ys"
  have IH: "0 \<le> ?W \<longleftrightarrow> ?X \<le> ?Y" "?W = 0 \<longleftrightarrow> ?X = ?Y" "\<bar>?W\<bar> < 2 ^ length xs"
    using Cons by simp_all
  have d: "0 \<le> x" "x < 2 ^ w" "0 \<le> y" "y < 2 ^ w"
    using Cons.prems by simp_all
  have s: "signum (y - x) = (if x < y then 1 else if y < x then - 1 else 0)"
    by (simp add: signum_def)
  consider "?X = ?Y" "?W = 0" | "?X + 1 \<le> ?Y" "1 \<le> ?W" | "?Y + 1 \<le> ?X" "?W \<le> - 1"
    using IH by linarith
  then show ?case
  proof cases
    case 1
    moreover have "(1 :: int) < 2 * 2 ^ length xs"
      using one_le_power [of "2 :: int" "length xs"] by linarith
    ultimately show ?thesis
      by (auto simp: lval_Cons s)
  next
    case 2
    then have "2 ^ w * (?X + 1) \<le> 2 ^ w * ?Y"
      by (intro mult_left_mono) simp_all
    with 2 d IH(3) show ?thesis
      by (auto simp: lval_Cons s distrib_left)
  next
    case 3
    then have "2 ^ w * (?Y + 1) \<le> 2 ^ w * ?X"
      by (intro mult_left_mono) simp_all
    with 3 d IH(3) show ?thesis
      by (auto simp: lval_Cons s distrib_left)
  qed
qed

text \<open>C25. \<^verbatim>\<open>sc_check\<close> returns 0 exactly on the canonical scalars, those below the group order, and
  \<open>-1\<close> on every other 32-byte string.\<close>

theorem sc_check_correct:
  assumes "length s = 32"
  shows "sc_check s = (if le s < sc_l then 0 else - 1)"
proof -
  let ?xs = "digit_limbs 32 7 (le s)"
  let ?ls = "[1559614444, 1477600026, 2734136534, 350157278, 0, 0, 0, 268435456] :: int list"
  have xs: "?xs = [sint (load_4 s 0), sint (load_4 s 4), sint (load_4 s 8), sint (load_4 s 12),
      sint (load_4 s 16), sint (load_4 s 20), sint (load_4 s 24), sint (load_4 s 28)]"
    using top_load_4 [of 28 s 0] by (simp add: digit_limbs_def upt_rec sint_load_4 assms)
  have ls: "lval (\<lambda>i. 32 * i) ?ls = sc_l - 1"
    by (simp add: lval_Cons sc_l_def) (simp add: lval_def)
  have "drop_bit 224 (le s) < 2 ^ 32"
    using le_less [of s] assms by (intro drop_bit_less_exp) simp
  then have dx: "0 \<le> x \<and> x < 2 ^ 32" if "x \<in> set ?xs" for x
    using that take_bit_int_less_exp [of 32] by (auto simp: digit_limbs_def)
  have dl: "0 \<le> y \<and> y < 2 ^ 32" if "y \<in> set ?ls" for y
    using that by auto
  from sign_sum_compare [of ?xs ?ls 32, OF _ dx dl]
  have c: "0 \<le> sign_sum ?xs ?ls \<longleftrightarrow> le s \<le> sc_l - 1" "\<bar>sign_sum ?xs ?ls\<bar> < 256"
    by (auto simp: lval_digit_limbs ls)
  have "sc_check s = s32 (drop_bit 8 (sign_sum ?xs ?ls))"
    by (simp add: sc_check_def xs push_bit_eq_mult algebra_simps)
  also have "drop_bit 8 (sign_sum ?xs ?ls) = (if 0 \<le> sign_sum ?xs ?ls then 0 else - 1)"
    using c(2) by (simp add: drop_bit_eq_div div_eq_neg1)
  finally show ?thesis
    using c(1) by (simp add: s32_def)
qed

theorem sc_check_witness: "sc_check (255 # replicate 31 0) = 0 \<and> sc_check (replicate 32 255) = - 1"
  using sc_check_correct [of "255 # replicate 31 0"] sc_check_correct [of "replicate 32 255"]
  by (simp add: sc_l_def le_replicate_255)

end
