(* ===== verification/Field.thy ===== *)
theory Field
  imports Loads
begin

text \<open>
  Arithmetic in the field of \<open>2 ^ 255 - 19\<close> elements, \<^verbatim>\<open>fe_*\<close> of \<^verbatim>\<open>crypto-ops.c\<close>.  A field element
  \<^verbatim>\<open>fe\<close> is a list of ten \<^verbatim>\<open>int32_t\<close> limbs, limb \<open>i\<close> at bit position \<open>\<lceil>25.5 i\<rceil>\<close>.  An element has
  many representations; the bounds on the limbs that the comments of the code state are the
  predicate \<open>fe_bnd\<close>, and \<open>fe_abs\<close> is the residue that a list of limbs represents.
\<close>

section \<open>The routines\<close>

type_synonym fe = "int list"

definition fe_0 :: fe where
  "fe_0 = [0, 0, 0, 0, 0, 0, 0, 0, 0, 0]"

definition fe_1 :: fe where
  "fe_1 = [1, 0, 0, 0, 0, 0, 0, 0, 0, 0]"

definition fe_add :: "fe \<Rightarrow> fe \<Rightarrow> fe" where
  "fe_add f g = map (\<lambda>i. s32 (f ! i + g ! i)) [0, 1, 2, 3, 4, 5, 6, 7, 8, 9]"

definition fe_sub :: "fe \<Rightarrow> fe \<Rightarrow> fe" where
  "fe_sub f g = map (\<lambda>i. s32 (f ! i - g ! i)) [0, 1, 2, 3, 4, 5, 6, 7, 8, 9]"

definition fe_neg :: "fe \<Rightarrow> fe" where
  "fe_neg f = map (\<lambda>i. s32 (- (f ! i))) [0, 1, 2, 3, 4, 5, 6, 7, 8, 9]"

definition fe_copy :: "fe \<Rightarrow> fe" where
  "fe_copy f = map (\<lambda>i. f ! i) [0, 1, 2, 3, 4, 5, 6, 7, 8, 9]"

text \<open>
  The condition that \<^verbatim>\<open>fe_cmov\<close> asserts, and its result; \<^verbatim>\<open>b\<close> is an \<^verbatim>\<open>unsigned int\<close>, so that
  \<^verbatim>\<open>x &= b\<close> converts \<^verbatim>\<open>x\<close> to unsigned and back.
\<close>

definition fe_cmov_ok :: "u32 \<Rightarrow> bool" where
  "fe_cmov_ok b \<longleftrightarrow> ((b - 1) AND NOT b) OR ((b - 2) AND NOT (b - 1)) = - 1"

definition fe_cmov :: "fe \<Rightarrow> fe \<Rightarrow> u32 \<Rightarrow> fe" where
  "fe_cmov f g b =
     (let b = - b
      in map (\<lambda>i. let x = f ! i XOR g ! i;
                     x = s32 (uint (word_of_int x AND b))
                 in f ! i XOR x) [0, 1, 2, 3, 4, 5, 6, 7, 8, 9])"

text \<open>The sums of products of \<^verbatim>\<open>fe_mul\<close>, \<^verbatim>\<open>fe_sq\<close> and \<^verbatim>\<open>fe_sq2\<close>, before the carries.\<close>

definition fe_mul_sums :: "fe \<Rightarrow> fe \<Rightarrow> int list" where
  "fe_mul_sums f g =
     (let f0 = f ! 0; f1 = f ! 1; f2 = f ! 2; f3 = f ! 3; f4 = f ! 4; f5 = f ! 5; f6 = f ! 6;
          f7 = f ! 7; f8 = f ! 8; f9 = f ! 9; g0 = g ! 0; g1 = g ! 1; g2 = g ! 2; g3 = g ! 3;
          g4 = g ! 4; g5 = g ! 5; g6 = g ! 6; g7 = g ! 7; g8 = g ! 8; g9 = g ! 9;
          g1_19 = s32 (19 * g1); g2_19 = s32 (19 * g2); g3_19 = s32 (19 * g3); g4_19 = s32 (19 * g4);
          g5_19 = s32 (19 * g5); g6_19 = s32 (19 * g6); g7_19 = s32 (19 * g7); g8_19 = s32 (19 * g8);
          g9_19 = s32 (19 * g9); f1_2 = s32 (2 * f1); f3_2 = s32 (2 * f3); f5_2 = s32 (2 * f5);
          f7_2 = s32 (2 * f7); f9_2 = s32 (2 * f9); f0g0 = s64 (f0 * g0); f0g1 = s64 (f0 * g1);
          f0g2 = s64 (f0 * g2); f0g3 = s64 (f0 * g3); f0g4 = s64 (f0 * g4); f0g5 = s64 (f0 * g5);
          f0g6 = s64 (f0 * g6); f0g7 = s64 (f0 * g7); f0g8 = s64 (f0 * g8); f0g9 = s64 (f0 * g9);
          f1g0 = s64 (f1 * g0); f1g1_2 = s64 (f1_2 * g1); f1g2 = s64 (f1 * g2);
          f1g3_2 = s64 (f1_2 * g3); f1g4 = s64 (f1 * g4); f1g5_2 = s64 (f1_2 * g5);
          f1g6 = s64 (f1 * g6); f1g7_2 = s64 (f1_2 * g7); f1g8 = s64 (f1 * g8);
          f1g9_38 = s64 (f1_2 * g9_19); f2g0 = s64 (f2 * g0); f2g1 = s64 (f2 * g1);
          f2g2 = s64 (f2 * g2); f2g3 = s64 (f2 * g3); f2g4 = s64 (f2 * g4); f2g5 = s64 (f2 * g5);
          f2g6 = s64 (f2 * g6); f2g7 = s64 (f2 * g7); f2g8_19 = s64 (f2 * g8_19);
          f2g9_19 = s64 (f2 * g9_19); f3g0 = s64 (f3 * g0); f3g1_2 = s64 (f3_2 * g1);
          f3g2 = s64 (f3 * g2); f3g3_2 = s64 (f3_2 * g3); f3g4 = s64 (f3 * g4);
          f3g5_2 = s64 (f3_2 * g5); f3g6 = s64 (f3 * g6); f3g7_38 = s64 (f3_2 * g7_19);
          f3g8_19 = s64 (f3 * g8_19); f3g9_38 = s64 (f3_2 * g9_19); f4g0 = s64 (f4 * g0);
          f4g1 = s64 (f4 * g1); f4g2 = s64 (f4 * g2); f4g3 = s64 (f4 * g3); f4g4 = s64 (f4 * g4);
          f4g5 = s64 (f4 * g5); f4g6_19 = s64 (f4 * g6_19); f4g7_19 = s64 (f4 * g7_19);
          f4g8_19 = s64 (f4 * g8_19); f4g9_19 = s64 (f4 * g9_19); f5g0 = s64 (f5 * g0);
          f5g1_2 = s64 (f5_2 * g1); f5g2 = s64 (f5 * g2); f5g3_2 = s64 (f5_2 * g3);
          f5g4 = s64 (f5 * g4); f5g5_38 = s64 (f5_2 * g5_19); f5g6_19 = s64 (f5 * g6_19);
          f5g7_38 = s64 (f5_2 * g7_19); f5g8_19 = s64 (f5 * g8_19); f5g9_38 = s64 (f5_2 * g9_19);
          f6g0 = s64 (f6 * g0); f6g1 = s64 (f6 * g1); f6g2 = s64 (f6 * g2); f6g3 = s64 (f6 * g3);
          f6g4_19 = s64 (f6 * g4_19); f6g5_19 = s64 (f6 * g5_19); f6g6_19 = s64 (f6 * g6_19);
          f6g7_19 = s64 (f6 * g7_19); f6g8_19 = s64 (f6 * g8_19); f6g9_19 = s64 (f6 * g9_19);
          f7g0 = s64 (f7 * g0); f7g1_2 = s64 (f7_2 * g1); f7g2 = s64 (f7 * g2);
          f7g3_38 = s64 (f7_2 * g3_19); f7g4_19 = s64 (f7 * g4_19); f7g5_38 = s64 (f7_2 * g5_19);
          f7g6_19 = s64 (f7 * g6_19); f7g7_38 = s64 (f7_2 * g7_19); f7g8_19 = s64 (f7 * g8_19);
          f7g9_38 = s64 (f7_2 * g9_19); f8g0 = s64 (f8 * g0); f8g1 = s64 (f8 * g1);
          f8g2_19 = s64 (f8 * g2_19); f8g3_19 = s64 (f8 * g3_19); f8g4_19 = s64 (f8 * g4_19);
          f8g5_19 = s64 (f8 * g5_19); f8g6_19 = s64 (f8 * g6_19); f8g7_19 = s64 (f8 * g7_19);
          f8g8_19 = s64 (f8 * g8_19); f8g9_19 = s64 (f8 * g9_19); f9g0 = s64 (f9 * g0);
          f9g1_38 = s64 (f9_2 * g1_19); f9g2_19 = s64 (f9 * g2_19); f9g3_38 = s64 (f9_2 * g3_19);
          f9g4_19 = s64 (f9 * g4_19); f9g5_38 = s64 (f9_2 * g5_19); f9g6_19 = s64 (f9 * g6_19);
          f9g7_38 = s64 (f9_2 * g7_19); f9g8_19 = s64 (f9 * g8_19); f9g9_38 = s64 (f9_2 * g9_19);
          h0 = s64 (f0g0 + f1g9_38 + f2g8_19 + f3g7_38 + f4g6_19 + f5g5_38 + f6g4_19 + f7g3_38 + f8g2_19 + f9g1_38);
          h1 = s64 (f0g1 + f1g0 + f2g9_19 + f3g8_19 + f4g7_19 + f5g6_19 + f6g5_19 + f7g4_19 + f8g3_19 + f9g2_19);
          h2 = s64 (f0g2 + f1g1_2 + f2g0 + f3g9_38 + f4g8_19 + f5g7_38 + f6g6_19 + f7g5_38 + f8g4_19 + f9g3_38);
          h3 = s64 (f0g3 + f1g2 + f2g1 + f3g0 + f4g9_19 + f5g8_19 + f6g7_19 + f7g6_19 + f8g5_19 + f9g4_19);
          h4 = s64 (f0g4 + f1g3_2 + f2g2 + f3g1_2 + f4g0 + f5g9_38 + f6g8_19 + f7g7_38 + f8g6_19 + f9g5_38);
          h5 = s64 (f0g5 + f1g4 + f2g3 + f3g2 + f4g1 + f5g0 + f6g9_19 + f7g8_19 + f8g7_19 + f9g6_19);
          h6 = s64 (f0g6 + f1g5_2 + f2g4 + f3g3_2 + f4g2 + f5g1_2 + f6g0 + f7g9_38 + f8g8_19 + f9g7_38);
          h7 = s64 (f0g7 + f1g6 + f2g5 + f3g4 + f4g3 + f5g2 + f6g1 + f7g0 + f8g9_19 + f9g8_19);
          h8 = s64 (f0g8 + f1g7_2 + f2g6 + f3g5_2 + f4g4 + f5g3_2 + f6g2 + f7g1_2 + f8g0 + f9g9_38);
          h9 = s64 (f0g9 + f1g8 + f2g7 + f3g6 + f4g5 + f5g4 + f6g3 + f7g2 + f8g1 + f9g0)
      in [h0, h1, h2, h3, h4, h5, h6, h7, h8, h9])"

definition fe_sq_sums :: "fe \<Rightarrow> int list" where
  "fe_sq_sums f =
     (let f0 = f ! 0; f1 = f ! 1; f2 = f ! 2; f3 = f ! 3; f4 = f ! 4; f5 = f ! 5; f6 = f ! 6;
          f7 = f ! 7; f8 = f ! 8; f9 = f ! 9; f0_2 = s32 (2 * f0); f1_2 = s32 (2 * f1);
          f2_2 = s32 (2 * f2); f3_2 = s32 (2 * f3); f4_2 = s32 (2 * f4); f5_2 = s32 (2 * f5);
          f6_2 = s32 (2 * f6); f7_2 = s32 (2 * f7); f5_38 = s32 (38 * f5); f6_19 = s32 (19 * f6);
          f7_38 = s32 (38 * f7); f8_19 = s32 (19 * f8); f9_38 = s32 (38 * f9); f0f0 = s64 (f0 * f0);
          f0f1_2 = s64 (f0_2 * f1); f0f2_2 = s64 (f0_2 * f2); f0f3_2 = s64 (f0_2 * f3);
          f0f4_2 = s64 (f0_2 * f4); f0f5_2 = s64 (f0_2 * f5); f0f6_2 = s64 (f0_2 * f6);
          f0f7_2 = s64 (f0_2 * f7); f0f8_2 = s64 (f0_2 * f8); f0f9_2 = s64 (f0_2 * f9);
          f1f1_2 = s64 (f1_2 * f1); f1f2_2 = s64 (f1_2 * f2); f1f3_4 = s64 (f1_2 * f3_2);
          f1f4_2 = s64 (f1_2 * f4); f1f5_4 = s64 (f1_2 * f5_2); f1f6_2 = s64 (f1_2 * f6);
          f1f7_4 = s64 (f1_2 * f7_2); f1f8_2 = s64 (f1_2 * f8); f1f9_76 = s64 (f1_2 * f9_38);
          f2f2 = s64 (f2 * f2); f2f3_2 = s64 (f2_2 * f3); f2f4_2 = s64 (f2_2 * f4);
          f2f5_2 = s64 (f2_2 * f5); f2f6_2 = s64 (f2_2 * f6); f2f7_2 = s64 (f2_2 * f7);
          f2f8_38 = s64 (f2_2 * f8_19); f2f9_38 = s64 (f2 * f9_38); f3f3_2 = s64 (f3_2 * f3);
          f3f4_2 = s64 (f3_2 * f4); f3f5_4 = s64 (f3_2 * f5_2); f3f6_2 = s64 (f3_2 * f6);
          f3f7_76 = s64 (f3_2 * f7_38); f3f8_38 = s64 (f3_2 * f8_19); f3f9_76 = s64 (f3_2 * f9_38);
          f4f4 = s64 (f4 * f4); f4f5_2 = s64 (f4_2 * f5); f4f6_38 = s64 (f4_2 * f6_19);
          f4f7_38 = s64 (f4 * f7_38); f4f8_38 = s64 (f4_2 * f8_19); f4f9_38 = s64 (f4 * f9_38);
          f5f5_38 = s64 (f5 * f5_38); f5f6_38 = s64 (f5_2 * f6_19); f5f7_76 = s64 (f5_2 * f7_38);
          f5f8_38 = s64 (f5_2 * f8_19); f5f9_76 = s64 (f5_2 * f9_38); f6f6_19 = s64 (f6 * f6_19);
          f6f7_38 = s64 (f6 * f7_38); f6f8_38 = s64 (f6_2 * f8_19); f6f9_38 = s64 (f6 * f9_38);
          f7f7_38 = s64 (f7 * f7_38); f7f8_38 = s64 (f7_2 * f8_19); f7f9_76 = s64 (f7_2 * f9_38);
          f8f8_19 = s64 (f8 * f8_19); f8f9_38 = s64 (f8 * f9_38); f9f9_38 = s64 (f9 * f9_38);
          h0 = s64 (f0f0 + f1f9_76 + f2f8_38 + f3f7_76 + f4f6_38 + f5f5_38);
          h1 = s64 (f0f1_2 + f2f9_38 + f3f8_38 + f4f7_38 + f5f6_38);
          h2 = s64 (f0f2_2 + f1f1_2 + f3f9_76 + f4f8_38 + f5f7_76 + f6f6_19);
          h3 = s64 (f0f3_2 + f1f2_2 + f4f9_38 + f5f8_38 + f6f7_38);
          h4 = s64 (f0f4_2 + f1f3_4 + f2f2 + f5f9_76 + f6f8_38 + f7f7_38);
          h5 = s64 (f0f5_2 + f1f4_2 + f2f3_2 + f6f9_38 + f7f8_38);
          h6 = s64 (f0f6_2 + f1f5_4 + f2f4_2 + f3f3_2 + f7f9_76 + f8f8_19);
          h7 = s64 (f0f7_2 + f1f6_2 + f2f5_2 + f3f4_2 + f8f9_38);
          h8 = s64 (f0f8_2 + f1f7_4 + f2f6_2 + f3f5_4 + f4f4 + f9f9_38);
          h9 = s64 (f0f9_2 + f1f8_2 + f2f7_2 + f3f6_2 + f4f5_2)
      in [h0, h1, h2, h3, h4, h5, h6, h7, h8, h9])"

definition fe_sq2_sums :: "fe \<Rightarrow> int list" where
  "fe_sq2_sums f =
     (let f0 = f ! 0; f1 = f ! 1; f2 = f ! 2; f3 = f ! 3; f4 = f ! 4; f5 = f ! 5; f6 = f ! 6;
          f7 = f ! 7; f8 = f ! 8; f9 = f ! 9; f0_2 = s32 (2 * f0); f1_2 = s32 (2 * f1);
          f2_2 = s32 (2 * f2); f3_2 = s32 (2 * f3); f4_2 = s32 (2 * f4); f5_2 = s32 (2 * f5);
          f6_2 = s32 (2 * f6); f7_2 = s32 (2 * f7); f5_38 = s32 (38 * f5); f6_19 = s32 (19 * f6);
          f7_38 = s32 (38 * f7); f8_19 = s32 (19 * f8); f9_38 = s32 (38 * f9); f0f0 = s64 (f0 * f0);
          f0f1_2 = s64 (f0_2 * f1); f0f2_2 = s64 (f0_2 * f2); f0f3_2 = s64 (f0_2 * f3);
          f0f4_2 = s64 (f0_2 * f4); f0f5_2 = s64 (f0_2 * f5); f0f6_2 = s64 (f0_2 * f6);
          f0f7_2 = s64 (f0_2 * f7); f0f8_2 = s64 (f0_2 * f8); f0f9_2 = s64 (f0_2 * f9);
          f1f1_2 = s64 (f1_2 * f1); f1f2_2 = s64 (f1_2 * f2); f1f3_4 = s64 (f1_2 * f3_2);
          f1f4_2 = s64 (f1_2 * f4); f1f5_4 = s64 (f1_2 * f5_2); f1f6_2 = s64 (f1_2 * f6);
          f1f7_4 = s64 (f1_2 * f7_2); f1f8_2 = s64 (f1_2 * f8); f1f9_76 = s64 (f1_2 * f9_38);
          f2f2 = s64 (f2 * f2); f2f3_2 = s64 (f2_2 * f3); f2f4_2 = s64 (f2_2 * f4);
          f2f5_2 = s64 (f2_2 * f5); f2f6_2 = s64 (f2_2 * f6); f2f7_2 = s64 (f2_2 * f7);
          f2f8_38 = s64 (f2_2 * f8_19); f2f9_38 = s64 (f2 * f9_38); f3f3_2 = s64 (f3_2 * f3);
          f3f4_2 = s64 (f3_2 * f4); f3f5_4 = s64 (f3_2 * f5_2); f3f6_2 = s64 (f3_2 * f6);
          f3f7_76 = s64 (f3_2 * f7_38); f3f8_38 = s64 (f3_2 * f8_19); f3f9_76 = s64 (f3_2 * f9_38);
          f4f4 = s64 (f4 * f4); f4f5_2 = s64 (f4_2 * f5); f4f6_38 = s64 (f4_2 * f6_19);
          f4f7_38 = s64 (f4 * f7_38); f4f8_38 = s64 (f4_2 * f8_19); f4f9_38 = s64 (f4 * f9_38);
          f5f5_38 = s64 (f5 * f5_38); f5f6_38 = s64 (f5_2 * f6_19); f5f7_76 = s64 (f5_2 * f7_38);
          f5f8_38 = s64 (f5_2 * f8_19); f5f9_76 = s64 (f5_2 * f9_38); f6f6_19 = s64 (f6 * f6_19);
          f6f7_38 = s64 (f6 * f7_38); f6f8_38 = s64 (f6_2 * f8_19); f6f9_38 = s64 (f6 * f9_38);
          f7f7_38 = s64 (f7 * f7_38); f7f8_38 = s64 (f7_2 * f8_19); f7f9_76 = s64 (f7_2 * f9_38);
          f8f8_19 = s64 (f8 * f8_19); f8f9_38 = s64 (f8 * f9_38); f9f9_38 = s64 (f9 * f9_38);
          h0 = s64 (f0f0 + f1f9_76 + f2f8_38 + f3f7_76 + f4f6_38 + f5f5_38);
          h1 = s64 (f0f1_2 + f2f9_38 + f3f8_38 + f4f7_38 + f5f6_38);
          h2 = s64 (f0f2_2 + f1f1_2 + f3f9_76 + f4f8_38 + f5f7_76 + f6f6_19);
          h3 = s64 (f0f3_2 + f1f2_2 + f4f9_38 + f5f8_38 + f6f7_38);
          h4 = s64 (f0f4_2 + f1f3_4 + f2f2 + f5f9_76 + f6f8_38 + f7f7_38);
          h5 = s64 (f0f5_2 + f1f4_2 + f2f3_2 + f6f9_38 + f7f8_38);
          h6 = s64 (f0f6_2 + f1f5_4 + f2f4_2 + f3f3_2 + f7f9_76 + f8f8_19);
          h7 = s64 (f0f7_2 + f1f6_2 + f2f5_2 + f3f4_2 + f8f9_38);
          h8 = s64 (f0f8_2 + f1f7_4 + f2f6_2 + f3f5_4 + f4f4 + f9f9_38);
          h9 = s64 (f0f9_2 + f1f8_2 + f2f7_2 + f3f6_2 + f4f5_2);
          h0 = s64 (h0 + h0);
          h1 = s64 (h1 + h1);
          h2 = s64 (h2 + h2);
          h3 = s64 (h3 + h3);
          h4 = s64 (h4 + h4);
          h5 = s64 (h5 + h5);
          h6 = s64 (h6 + h6);
          h7 = s64 (h7 + h7);
          h8 = s64 (h8 + h8);
          h9 = s64 (h9 + h9)
      in [h0, h1, h2, h3, h4, h5, h6, h7, h8, h9])"

text \<open>The carry from limb \<open>i\<close>: even limbs have 26 bits, odd ones 25; limb 9 carries into limb 0
  with the factor 19.\<close>

definition fe_width :: "nat \<Rightarrow> nat" where
  "fe_width i = (if even i then 26 else 25)"

definition fe_carry :: "nat \<Rightarrow> int list \<Rightarrow> int list" where
  "fe_carry i = carry_step s64 (2 ^ (fe_width i - 1)) (fe_width i) i ((i + 1) mod 10) (if i = 9 then 19 else 1)"

text \<open>The twelve carries of the products, and the conversion of the limbs to \<^verbatim>\<open>int32_t\<close>.\<close>

definition fe_carries :: "int list \<Rightarrow> fe" where
  "fe_carries h = map s32 (foldl (\<lambda>h i. fe_carry i h) h [0, 4, 1, 5, 2, 6, 3, 7, 4, 8, 9, 0])"

definition fe_mul :: "fe \<Rightarrow> fe \<Rightarrow> fe" where
  "fe_mul f g = fe_carries (fe_mul_sums f g)"

definition fe_sq :: "fe \<Rightarrow> fe" where
  "fe_sq f = fe_carries (fe_sq_sums f)"

definition fe_sq2 :: "fe \<Rightarrow> fe" where
  "fe_sq2 f = fe_carries (fe_sq2_sums f)"

section \<open>What a list of limbs stands for\<close>

definition fe_p :: int where
  "fe_p = 2 ^ 255 - 19"

definition fe_pos :: "nat \<Rightarrow> nat" where
  "fe_pos i = (51 * i + 1) div 2"

definition fe_val :: "fe \<Rightarrow> int" where
  "fe_val f = lval fe_pos f"

text \<open>\<open>fe_bnd c f\<close>: the even limbs are bounded by \<open>c / 100 * 2 ^ 25\<close>, the odd ones by
  \<open>c / 100 * 2 ^ 24\<close>.  The comments of the code use 101, 110, 220 and 330.\<close>

definition fe_bnd :: "int \<Rightarrow> fe \<Rightarrow> bool" where
  "fe_bnd c f \<longleftrightarrow> length f = 10
     \<and> list_all (\<lambda>i. 100 * \<bar>f ! i\<bar> \<le> c * 2 ^ (fe_width i - 1)) [0, 1, 2, 3, 4, 5, 6, 7, 8, 9]"

text \<open>The integers modulo \<open>2 ^ 255 - 19\<close>, as a type and a commutative ring.\<close>

typedef gf = "{x :: int. 0 \<le> x \<and> x < fe_p}"
  morphisms gf_rep Gf
  by (rule exI [of _ 0]) (simp add: fe_p_def)

setup_lifting type_definition_gf

lemma fe_p_pos: "0 < fe_p" "1 < fe_p"
  by (simp_all add: fe_p_def)

lemma fe_p_mod: "0 \<le> x mod fe_p \<and> x mod fe_p < fe_p"
  using fe_p_pos by simp

instantiation gf :: comm_ring_1
begin

lift_definition zero_gf :: gf is 0
  using fe_p_pos by simp

lift_definition one_gf :: gf is 1
  using fe_p_pos by simp

lift_definition plus_gf :: "gf \<Rightarrow> gf \<Rightarrow> gf" is "\<lambda>x y. (x + y) mod fe_p"
  using fe_p_mod by simp

lift_definition minus_gf :: "gf \<Rightarrow> gf \<Rightarrow> gf" is "\<lambda>x y. (x - y) mod fe_p"
  using fe_p_mod by simp

lift_definition uminus_gf :: "gf \<Rightarrow> gf" is "\<lambda>x. (- x) mod fe_p"
  using fe_p_mod by simp

lift_definition times_gf :: "gf \<Rightarrow> gf \<Rightarrow> gf" is "\<lambda>x y. (x * y) mod fe_p"
  using fe_p_mod by simp

instance
  by (standard; transfer) (simp_all add: mod_simps algebra_simps)

end

lemma gf_rep_of_int: "gf_rep (of_int z) = z mod fe_p"
proof -
  have n: "gf_rep (of_nat n) = int n mod fe_p" for n
    by (induction n) (simp_all add: zero_gf.rep_eq one_gf.rep_eq plus_gf.rep_eq mod_simps)
  show ?thesis
    by (cases z rule: int_diff_cases) (simp add: n minus_gf.rep_eq mod_simps)
qed

lemma of_int_gf_eq_iff: "(of_int a :: gf) = of_int b \<longleftrightarrow> a mod fe_p = b mod fe_p"
  by (simp only: gf_rep_inject [symmetric] gf_rep_of_int)

definition fe_abs :: "fe \<Rightarrow> gf" where
  "fe_abs f = of_int (fe_val f)"

text \<open>Schoolbook multiplication modulo \<open>2 ^ 255 - 19\<close>: the product of limbs \<open>i\<close> and \<open>j\<close> belongs to
  limb \<open>i + j\<close>, or with the factor 19 to limb \<open>i + j - 10\<close>; the product of two odd limbs is
  doubled.\<close>

definition fe_coeff :: "nat \<Rightarrow> nat \<Rightarrow> int" where
  "fe_coeff i j = (if odd i \<and> odd j then 2 else 1) * (if 10 \<le> i + j then 19 else 1)"

definition fe_conv :: "fe \<Rightarrow> fe \<Rightarrow> nat \<Rightarrow> int" where
  "fe_conv f g k = (\<Sum>i\<leftarrow>[0, 1, 2, 3, 4, 5, 6, 7, 8, 9].
     f ! i * g ! ((k + 10 - i) mod 10) * fe_coeff i ((k + 10 - i) mod 10))"

definition fe_carry_iv :: "nat \<Rightarrow> ival list \<Rightarrow> ival list option" where
  "fe_carry_iv i B = (if length B = 10 \<and> i < 10 then
     carry_iv (2 ^ 63) (2 ^ (fe_width i - 1)) (fe_width i) i ((i + 1) mod 10) (if i = 9 then 19 else 1) B
     else None)"

definition fe_ivs :: "int \<Rightarrow> ival list" where
  "fe_ivs c = map (\<lambda>i. (- (c * 2 ^ (fe_width i - 1) div 100), c * 2 ^ (fe_width i - 1) div 100))
     [0, 1, 2, 3, 4, 5, 6, 7, 8, 9]"

section \<open>Bounds\<close>

lemma fe_bnd_length: "fe_bnd c f \<Longrightarrow> length f = 10"
  by (simp add: fe_bnd_def)

lemma fe_bnd_nth: "fe_bnd c f \<Longrightarrow> i < 10 \<Longrightarrow> 100 * \<bar>f ! i\<bar> \<le> c * 2 ^ (fe_width i - 1)"
proof -
  assume "fe_bnd c f" "i < 10"
  moreover have "i \<in> {0, 1, 2, 3, 4, 5, 6, 7, 8, 9}"
    using \<open>i < 10\<close> by auto
  ultimately show ?thesis
    by (auto simp: fe_bnd_def)
qed

lemma fe_bndI:
  "length f = 10 \<Longrightarrow> (\<And>i. i < 10 \<Longrightarrow> 100 * \<bar>f ! i\<bar> \<le> c * 2 ^ (fe_width i - 1)) \<Longrightarrow> fe_bnd c f"
  by (simp add: fe_bnd_def)

lemma fe_bnd_mono: "fe_bnd c f \<Longrightarrow> c \<le> d \<Longrightarrow> fe_bnd d f"
  by (rule fe_bndI) (auto simp: fe_bnd_length dest!: fe_bnd_nth
      intro: order_trans [OF _ mult_right_mono])

lemma fe_list10:
  assumes "length f = 10"
  obtains f0 f1 f2 f3 f4 f5 f6 f7 f8 f9 where "f = [f0, f1, f2, f3, f4, f5, f6, f7, f8, f9]"
  using assms by (auto simp: eval_nat_numeral length_Suc_conv)


section \<open>The sums of products\<close>

text \<open>No wrap-around in the multiplications by small constants and in the products.\<close>

lemma fe_limb_bounds:
  assumes "fe_bnd 330 f" "i < 10"
  shows "\<bar>f ! i\<bar> \<le> 110729625" "odd i \<Longrightarrow> \<bar>f ! i\<bar> \<le> 55364812"
  using fe_bnd_nth [OF assms] by (auto simp: fe_width_def split: if_splits)

lemma fe_limb_scaled:
  assumes "fe_bnd 330 f" "i < 10"
  shows "s32 (2 * f ! i) = 2 * f ! i" "s32 (19 * f ! i) = 19 * f ! i"
    "odd i \<Longrightarrow> s32 (38 * f ! i) = 38 * f ! i"
    "\<bar>f ! i\<bar> \<le> 2 ^ 28" "\<bar>2 * f ! i\<bar> \<le> 2 ^ 28" "\<bar>f ! i\<bar> \<le> 2 ^ 31" "\<bar>2 * f ! i\<bar> \<le> 2 ^ 31"
    "\<bar>19 * f ! i\<bar> \<le> 2 ^ 31" "odd i \<Longrightarrow> \<bar>38 * f ! i\<bar> \<le> 2 ^ 31"
  using fe_limb_bounds [OF assms] by (auto intro!: s32_id)

lemma fe_prod_id:
  fixes x y :: int
  assumes "\<bar>x\<bar> \<le> 2 ^ 28" "\<bar>y\<bar> \<le> 2 ^ 31"
  shows "s64 (x * y) = x * y"
proof -
  have "\<bar>x * y\<bar> \<le> 2 ^ 28 * 2 ^ 31"
    unfolding abs_mult using assms by (intro mult_mono) simp_all
  then show ?thesis
    by (intro s64_id) auto
qed

lemma even_odd_numerals:
  "odd (1 :: nat)" "odd (3 :: nat)" "odd (5 :: nat)" "odd (7 :: nat)" "odd (9 :: nat)"
  "even (0 :: nat)" "even (2 :: nat)" "even (4 :: nat)" "even (6 :: nat)" "even (8 :: nat)"
  by simp_all

lemma below_ten: "0 < (10 :: nat)" "1 < (10 :: nat)" "2 < (10 :: nat)" "3 < (10 :: nat)" "4 < (10 :: nat)"
  "5 < (10 :: nat)" "6 < (10 :: nat)" "7 < (10 :: nat)" "8 < (10 :: nat)" "9 < (10 :: nat)"
  by simp_all

lemma fe_mul_sums_conv:
  assumes "fe_bnd 330 f" "fe_bnd 330 g"
  shows "fe_mul_sums f g = map (\<lambda>k. s64 (fe_conv f g k)) [0, 1, 2, 3, 4, 5, 6, 7, 8, 9]"
  unfolding fe_mul_sums_def Let_def
  by (simp only: fe_limb_scaled [OF assms(1)] fe_limb_scaled [OF assms(2)] fe_prod_id below_ten
     even_odd_numerals not_False_eq_True)
    (simp add: fe_conv_def fe_coeff_def mult_ac add_ac numeral_2_eq_2 [symmetric] numeral_3_eq_3 [symmetric])

lemma fe_sq_sums_conv:
  assumes "fe_bnd 330 f"
  shows "fe_sq_sums f = map (\<lambda>k. s64 (fe_conv f f k)) [0, 1, 2, 3, 4, 5, 6, 7, 8, 9]"
  unfolding fe_sq_sums_def Let_def
  by (simp only: fe_limb_scaled [OF assms] fe_prod_id below_ten
     even_odd_numerals not_False_eq_True)
    (simp add: fe_conv_def fe_coeff_def algebra_simps numeral_2_eq_2 [symmetric] numeral_3_eq_3 [symmetric])


lemma fe_sq2_sums_sq:
  assumes "fe_bnd 330 f"
  shows "fe_sq2_sums f = map (\<lambda>h. s64 (h + h)) (fe_sq_sums f)"
  unfolding fe_sq2_sums_def fe_sq_sums_def Let_def by simp

lemma fe_conv_sum:
  "fe_conv f g k = (\<Sum>i<10. f ! i * g ! ((k + 10 - i) mod 10) * fe_coeff i ((k + 10 - i) mod 10))"
proof -
  have "{..<10} = {0, 1, 2, 3, 4, 5, 6, 7, 8, 9 :: nat}"
    by auto
  then show ?thesis
    by (simp add: fe_conv_def)
qed

lemma fe_conv_bound:
  assumes "fe_bnd 330 f" "fe_bnd 330 g"
  shows "\<bar>fe_conv f g k\<bar> \<le> 10 * 2 ^ 58"
proof -
  have "\<bar>f ! i * g ! j * fe_coeff i j\<bar> \<le> 2 ^ 58" if "i < 10" "j < 10" for i j
  proof -
    let ?b = "\<lambda>i. if odd i then 55364812 else 110729625 :: int"
    have "\<bar>f ! i\<bar> * \<bar>g ! j\<bar> \<le> ?b i * ?b j"
      using fe_limb_bounds [OF assms(1) that(1)] fe_limb_bounds [OF assms(2) that(2)]
      by (intro mult_mono) auto
    then have "\<bar>f ! i\<bar> * \<bar>g ! j\<bar> * \<bar>fe_coeff i j\<bar> \<le> ?b i * ?b j * \<bar>fe_coeff i j\<bar>"
      by (rule mult_right_mono) simp
    also have "\<dots> \<le> 2 ^ 58"
      by (auto simp: fe_coeff_def)
    finally show ?thesis
      by (simp add: abs_mult)
  qed
  then have "(\<Sum>i<10. \<bar>f ! i * g ! ((k + 10 - i) mod 10) * fe_coeff i ((k + 10 - i) mod 10)\<bar>)
      \<le> (\<Sum>i<(10 :: nat). 2 ^ 58)"
    by (intro sum_mono) simp
  then show ?thesis
    unfolding fe_conv_sum by (intro order_trans [OF sum_abs]) simp
qed

text \<open>The sums are the limbs of the product, modulo \<open>2 ^ 255 - 19\<close>.\<close>

lemma fe_pos_alt: "fe_pos i = 25 * i + (i + 1) div 2"
  by (cases "even i") (auto simp: fe_pos_def elim!: evenE oddE)

lemma fe_pos_add:
  assumes "i < 10" "j < 10"
  shows "(2 :: int) ^ fe_pos ((i + j) mod 10) * fe_coeff i j mod fe_p = 2 ^ fe_pos i * 2 ^ fe_pos j mod fe_p"
proof -
  have p: "(2 ^ 255 * x) mod fe_p = 19 * x mod fe_p" for x
  proof -
    have "2 ^ 255 * x = 19 * x + x * fe_p"
      by (simp add: fe_p_def algebra_simps)
    then show ?thesis by (simp only: mod_mult_self1)
  qed
  have q: "fe_pos i + fe_pos j = fe_pos (i + j) + (if odd i \<and> odd j then 1 else 0)"
    unfolding fe_pos_alt by (auto elim!: evenE oddE)
  show ?thesis
  proof (cases "10 \<le> i + j")
    case True
    then have m: "(i + j) mod 10 = i + j - 10" "fe_pos (i + j) = fe_pos (i + j - 10) + 255"
      using assms by (auto simp: mod_if fe_pos_def)
    show ?thesis
      unfolding power_add [symmetric] q m using p [of "2 ^ fe_pos (i + j - 10) * (if odd i \<and> odd j then 2 else 1)"] True
      by (auto simp: fe_coeff_def power_add ac_simps)
  next
    case False
    then show ?thesis
      unfolding power_add [symmetric] q by (auto simp: fe_coeff_def power_add ac_simps)
  qed
qed

lemma fe_conv_val:
  assumes "length f = 10" "length g = 10"
  shows "(\<Sum>k<10. fe_conv f g k * 2 ^ fe_pos k) mod fe_p = fe_val f * fe_val g mod fe_p"
proof -
  have "(\<Sum>k<10. fe_conv f g k * 2 ^ fe_pos k)
      = (\<Sum>k<10. \<Sum>i<10. f ! i * g ! ((k + 10 - i) mod 10) * fe_coeff i ((k + 10 - i) mod 10) * 2 ^ fe_pos k)"
    by (simp add: fe_conv_sum sum_distrib_right)
  also have "\<dots> = (\<Sum>i<10. \<Sum>k<10. f ! i * g ! ((k + 10 - i) mod 10) * fe_coeff i ((k + 10 - i) mod 10) * 2 ^ fe_pos k)"
    by (rule sum.swap)
  also have "\<dots> = (\<Sum>i<10. \<Sum>j<10. f ! i * g ! j * fe_coeff i j * 2 ^ fe_pos ((i + j) mod 10))"
  proof (rule sum.cong [OF refl])
    fix i :: nat assume i: "i \<in> {..<10}"
    show "(\<Sum>k<10. f ! i * g ! ((k + 10 - i) mod 10) * fe_coeff i ((k + 10 - i) mod 10) * 2 ^ fe_pos k)
        = (\<Sum>j<10. f ! i * g ! j * fe_coeff i j * 2 ^ fe_pos ((i + j) mod 10))"
      using i by (intro sum.reindex_bij_witness [of _ "\<lambda>j. (i + j) mod 10" "\<lambda>k. (k + 10 - i) mod 10"])
        (auto simp: mod_if)
  qed
  also have "\<dots> mod fe_p = (\<Sum>i<10. \<Sum>j<10. f ! i * g ! j * (2 ^ fe_pos i * 2 ^ fe_pos j)) mod fe_p"
  proof (intro mod_sum_cong)
    fix i j :: nat assume "i \<in> {..<10}" "j \<in> {..<10}"
    then have "f ! i * g ! j * (2 ^ fe_pos ((i + j) mod 10) * fe_coeff i j) mod fe_p
        = f ! i * g ! j * (2 ^ fe_pos i * 2 ^ fe_pos j) mod fe_p"
      by (intro mod_mult_cong [OF refl] fe_pos_add) simp_all
    then show "f ! i * g ! j * fe_coeff i j * 2 ^ fe_pos ((i + j) mod 10) mod fe_p
        = f ! i * g ! j * (2 ^ fe_pos i * 2 ^ fe_pos j) mod fe_p"
      by (simp only: ac_simps)
  qed
  also have "(\<Sum>i<10. \<Sum>j<10. f ! i * g ! j * (2 ^ fe_pos i * 2 ^ fe_pos j)) = fe_val f * fe_val g"
    by (simp add: fe_val_def lval_def assms sum_product algebra_simps)
  finally show ?thesis .
qed

section \<open>The carries\<close>

lemma fe_pos_Suc: "(2 :: int) ^ fe_width i * 2 ^ fe_pos i = 2 ^ fe_pos (Suc i)"
  by (auto simp: fe_width_def fe_pos_def simp flip: power_add elim!: evenE oddE)

interpretation fec: limb_step fe_carry fe_carry_iv "lval fe_pos" fe_p
proof
  fix B s i B'
  assume b: "bounded B s" and iv: "fe_carry_iv i B = Some B'"
  have i: "i < 10" and iv': "carry_iv (2 ^ 63) (2 ^ (fe_width i - 1)) (fe_width i) i ((i + 1) mod 10)
      (if i = 9 then 19 else 1) B = Some B'"
    using iv by (auto simp: fe_carry_iv_def split: if_splits)
  have w: "2 ^ (fe_width i - 1) < (2 :: int) ^ fe_width i" "(2 :: int) ^ fe_width i \<le> 2 ^ 63"
    "0 \<le> (if i = 9 then 19 else 1 :: int)" "(0 :: int) \<le> 2 ^ (fe_width i - 1)"
    by (simp_all add: fe_width_def)
  show "bounded B' (fe_carry i s)"
    unfolding fe_carry_def by (rule carry_step_exact(1) [OF wraps_s64 b iv' w(3,4,1,2)])
  let ?c = "drop_bit (fe_width i) (s ! i + 2 ^ (fe_width i - 1))"
  have "lval fe_pos (fe_carry i s) = lval fe_pos s
      + ?c * ((if i = 9 then 19 else 1) * 2 ^ fe_pos ((i + 1) mod 10) - 2 ^ fe_width i * 2 ^ fe_pos i)"
    unfolding fe_carry_def by (rule carry_step_lval [OF wraps_s64 b iv' w(3,4,1,2)])
  also have "\<dots> = lval fe_pos s + (if i = 9 then - ?c else 0) * fe_p"
    using i by (auto simp: fe_pos_Suc) (simp add: fe_pos_def fe_width_def fe_p_def)
  finally show "lval fe_pos (fe_carry i s) mod fe_p = lval fe_pos s mod fe_p"
    by (simp only: mod_mult_self1)
qed

lemma fe_bnd_bounded: "fe_bnd c f \<longleftrightarrow> bounded (fe_ivs c) f"
proof -
  have "100 * \<bar>x\<bar> \<le> y \<longleftrightarrow> - (y div 100) \<le> x \<and> x \<le> y div 100" for x y :: int
    by linarith
  note * = this
  show ?thesis
  proof
    assume "fe_bnd c f"
    then obtain f0 f1 f2 f3 f4 f5 f6 f7 f8 f9 where "f = [f0, f1, f2, f3, f4, f5, f6, f7, f8, f9]"
      using fe_list10 fe_bnd_length by blast
    with \<open>fe_bnd c f\<close> show "bounded (fe_ivs c) f"
      by (simp add: bounded_def fe_bnd_def fe_ivs_def *)
  next
    assume "bounded (fe_ivs c) f"
    moreover from bounded_length [OF this] have "length f = 10"
      by (simp add: fe_ivs_def)
    then obtain f0 f1 f2 f3 f4 f5 f6 f7 f8 f9 where "f = [f0, f1, f2, f3, f4, f5, f6, f7, f8, f9]"
      by (rule fe_list10)
    ultimately show "fe_bnd c f"
      by (simp add: bounded_def fe_bnd_def fe_ivs_def *)
  qed
qed

lemma fe_carries_ok: "iv_within (iv_chain fe_carry_iv [0, 4, 1, 5, 2, 6, 3, 7, 4, 8, 9, 0]
     (replicate 10 (- (2 ^ 63 - 2 ^ 40), 2 ^ 63 - 2 ^ 40))) (fe_ivs 101)"
  by code_simp

lemma fe_bnd_s32: "fe_bnd c f \<Longrightarrow> c \<le> 5000 \<Longrightarrow> map s32 f = f"
proof (rule map_idI)
  fix x assume f: "fe_bnd c f" "c \<le> 5000" "x \<in> set f"
  then obtain i where i: "i < 10" "x = f ! i"
    by (auto simp: in_set_conv_nth fe_bnd_length)
  have "c * 2 ^ (fe_width i - 1) \<le> 5000 * 2 ^ 25"
    using f(2) by (intro order_trans [OF mult_right_mono [OF f(2)]]) (simp_all add: fe_width_def)
  with fe_bnd_nth [OF f(1) i(1)] show "s32 x = x"
    by (intro s32_id) (simp_all add: i(2))
qed

lemma fe_carries_sound:
  assumes "length h = 10" "\<And>k. k < 10 \<Longrightarrow> \<bar>h ! k\<bar> \<le> 2 ^ 63 - 2 ^ 40"
  shows "fe_bnd 101 (fe_carries h)" "fe_val (fe_carries h) mod fe_p = lval fe_pos h mod fe_p"
proof -
  let ?h = "foldl (\<lambda>h i. fe_carry i h) h [0, 4, 1, 5, 2, 6, 3, 7, 4, 8, 9, 0]"
  have b: "bounded (replicate 10 (- (2 ^ 63 - 2 ^ 40), 2 ^ 63 - 2 ^ 40)) h"
  proof (rule boundedI)
    fix i assume "i < length (replicate 10 (- (2 ^ 63 - 2 ^ 40 :: int), 2 ^ 63 - 2 ^ 40 :: int))"
    then show "fst (replicate 10 (- (2 ^ 63 - 2 ^ 40), 2 ^ 63 - 2 ^ 40) ! i) \<le> h ! i
        \<and> h ! i \<le> snd (replicate 10 (- (2 ^ 63 - 2 ^ 40), 2 ^ 63 - 2 ^ 40) ! i)"
      using assms(2) [of i] by (auto simp: abs_le_iff)
  qed (simp add: assms(1))
  obtain B where B: "iv_chain fe_carry_iv [0, 4, 1, 5, 2, 6, 3, 7, 4, 8, 9, 0]
     (replicate 10 (- (2 ^ 63 - 2 ^ 40), 2 ^ 63 - 2 ^ 40)) = Some B"
    and "\<And>s. bounded B s \<Longrightarrow> bounded (fe_ivs 101) s"
    using fe_carries_ok by (elim iv_withinE) blast
  then have bnd: "fe_bnd 101 ?h"
    using fec.chain_bounded [OF b B] by (simp add: fe_bnd_bounded)
  then have eq: "fe_carries h = ?h"
    by (simp add: fe_carries_def fe_bnd_s32 del: foldl.simps)
  show "fe_bnd 101 (fe_carries h)"
    using bnd by (simp only: eq)
  show "fe_val (fe_carries h) mod fe_p = lval fe_pos h mod fe_p"
    unfolding eq fe_val_def by (rule fec.chain_val [OF b B])
qed

section \<open>The arithmetic operations\<close>

lemma fe_product:
  assumes "length f = 10" "length g = 10" "0 \<le> c" "c \<le> 2"
    and "\<And>k. \<bar>fe_conv f g k\<bar> \<le> 10 * 2 ^ 58"
    and h: "h = map (\<lambda>k. c * fe_conv f g k) [0, 1, 2, 3, 4, 5, 6, 7, 8, 9]"
  shows "fe_bnd 101 (fe_carries h)" "fe_val (fe_carries h) mod fe_p = c * (fe_val f * fe_val g) mod fe_p"
proof -
  have hk: "h ! k = c * fe_conv f g k" if "k < 10" for k
  proof -
    have "[0, 1, 2, 3, 4, 5, 6, 7, 8, 9] = [0..<10]"
      by (simp add: upt_rec)
    with that show ?thesis
      by (simp only: h nth_map length_upt nth_upt) simp
  qed
  have b: "\<bar>h ! k\<bar> \<le> 2 ^ 63 - 2 ^ 40" if "k < 10" for k
  proof -
    have "\<bar>c\<bar> * \<bar>fe_conv f g k\<bar> \<le> 2 * (10 * 2 ^ 58)"
      using assms(3-5) by (intro mult_mono) auto
    then show ?thesis
      by (simp add: hk that abs_mult)
  qed
  have l: "length h = 10"
    by (simp add: h)
  show "fe_bnd 101 (fe_carries h)"
    using l b by (rule fe_carries_sound)
  have "lval fe_pos h = c * (\<Sum>k<10. fe_conv f g k * 2 ^ fe_pos k)"
    by (simp add: lval_def l hk sum_distrib_left mult.assoc)
  then show "fe_val (fe_carries h) mod fe_p = c * (fe_val f * fe_val g) mod fe_p"
    using fe_carries_sound(2) [OF l b] fe_conv_val [OF assms(1,2)] by (metis mod_mult_right_eq)
qed

lemma fe_conv_s64:
  assumes "fe_bnd 330 f" "fe_bnd 330 g"
  shows "s64 (fe_conv f g k) = fe_conv f g k"
    "s64 (fe_conv f g k + fe_conv f g k) = 2 * fe_conv f g k"
  using fe_conv_bound [OF assms, of k] by (auto simp: s64_id)

lemma fe_mul_sound:
  assumes "fe_bnd 330 f" "fe_bnd 330 g"
  shows "fe_bnd 101 (fe_mul f g)" "fe_val (fe_mul f g) mod fe_p = fe_val f * fe_val g mod fe_p"
proof -
  have "fe_mul_sums f g = map (\<lambda>k. 1 * fe_conv f g k) [0, 1, 2, 3, 4, 5, 6, 7, 8, 9]"
    by (simp only: fe_mul_sums_conv assms fe_conv_s64 mult_1)
  note fe_product [OF fe_bnd_length [OF assms(1)] fe_bnd_length [OF assms(2)] _ _ fe_conv_bound [OF assms] this]
  then show "fe_bnd 101 (fe_mul f g)" "fe_val (fe_mul f g) mod fe_p = fe_val f * fe_val g mod fe_p"
    by (simp_all add: fe_mul_def)
qed

lemma fe_sq_sound:
  assumes "fe_bnd 330 f"
  shows "fe_bnd 101 (fe_sq f)" "fe_val (fe_sq f) mod fe_p = (fe_val f)\<^sup>2 mod fe_p"
proof -
  have "fe_sq_sums f = map (\<lambda>k. 1 * fe_conv f f k) [0, 1, 2, 3, 4, 5, 6, 7, 8, 9]"
    by (simp only: fe_sq_sums_conv assms fe_conv_s64 mult_1)
  note fe_product [OF fe_bnd_length [OF assms] fe_bnd_length [OF assms] _ _ fe_conv_bound [OF assms assms] this]
  then show "fe_bnd 101 (fe_sq f)" "fe_val (fe_sq f) mod fe_p = (fe_val f)\<^sup>2 mod fe_p"
    by (simp_all add: fe_sq_def power2_eq_square)
qed

lemma fe_sq2_sound:
  assumes "fe_bnd 330 f"
  shows "fe_bnd 101 (fe_sq2 f)" "fe_val (fe_sq2 f) mod fe_p = 2 * (fe_val f)\<^sup>2 mod fe_p"
proof -
  have "fe_sq2_sums f = map (\<lambda>k. 2 * fe_conv f f k) [0, 1, 2, 3, 4, 5, 6, 7, 8, 9]"
    by (simp only: fe_sq2_sums_sq fe_sq_sums_conv assms list.map fe_conv_s64)
  note fe_product [OF fe_bnd_length [OF assms] fe_bnd_length [OF assms] _ _ fe_conv_bound [OF assms assms] this]
  then show "fe_bnd 101 (fe_sq2 f)" "fe_val (fe_sq2 f) mod fe_p = 2 * (fe_val f)\<^sup>2 mod fe_p"
    by (simp_all add: fe_sq2_def power2_eq_square)
qed

text \<open>The operations without carries add their bounds.\<close>

lemma map_limbs:
  assumes "\<And>i. i < 10 \<Longrightarrow> 100 * \<bar>h i\<bar> \<le> c * 2 ^ (fe_width i - 1)" "c \<le> 5000"
    and r: "r = map (\<lambda>i. s32 (h i)) [0, 1, 2, 3, 4, 5, 6, 7, 8, 9]"
  shows "fe_bnd c r" "fe_val r = (\<Sum>i<10. h i * 2 ^ fe_pos i)"
proof -
  have u: "[0, 1, 2, 3, 4, 5, 6, 7, 8, 9] = [0..<10]"
    by (simp add: upt_rec)
  have c: "fe_bnd c (map h [0..<10])"
    using assms(1) by (intro fe_bndI) simp_all
  have "r = map s32 (map h [0..<10])"
    by (simp only: r u list.map_comp o_def)
  also have "\<dots> = map h [0..<10]"
    using fe_bnd_s32 [OF c assms(2)] .
  finally have "r = map h [0..<10]" .
  with c show "fe_bnd c r" "fe_val r = (\<Sum>i<10. h i * 2 ^ fe_pos i)"
    by (simp_all add: fe_val_def lval_def del: upt_rec_numeral)
qed

lemma fe_val_sum: "length f = 10 \<Longrightarrow> fe_val f = (\<Sum>i<10. f ! i * 2 ^ fe_pos i)"
  by (simp add: fe_val_def lval_def)

lemma fe_add_sound:
  assumes "fe_bnd c f" "fe_bnd d g" "c + d \<le> 5000"
  shows "fe_bnd (c + d) (fe_add f g)" "fe_val (fe_add f g) = fe_val f + fe_val g"
proof -
  have "100 * \<bar>f ! i + g ! i\<bar> \<le> (c + d) * 2 ^ (fe_width i - 1)" if "i < 10" for i
    using fe_bnd_nth [OF assms(1) that] fe_bnd_nth [OF assms(2) that] abs_triangle_ineq [of "f ! i" "g ! i"]
    unfolding distrib_right by linarith
  note map_limbs [OF this assms(3) fe_add_def]
  then show "fe_bnd (c + d) (fe_add f g)" "fe_val (fe_add f g) = fe_val f + fe_val g"
    using assms by (simp_all add: fe_val_sum fe_bnd_length [OF assms(1)] fe_bnd_length [OF assms(2)] sum.distrib distrib_right)
qed

lemma fe_sub_sound:
  assumes "fe_bnd c f" "fe_bnd d g" "c + d \<le> 5000"
  shows "fe_bnd (c + d) (fe_sub f g)" "fe_val (fe_sub f g) = fe_val f - fe_val g"
proof -
  have "100 * \<bar>f ! i - g ! i\<bar> \<le> (c + d) * 2 ^ (fe_width i - 1)" if "i < 10" for i
    using fe_bnd_nth [OF assms(1) that] fe_bnd_nth [OF assms(2) that] abs_triangle_ineq4 [of "f ! i" "g ! i"]
    unfolding distrib_right by linarith
  note map_limbs [OF this assms(3) fe_sub_def]
  then show "fe_bnd (c + d) (fe_sub f g)" "fe_val (fe_sub f g) = fe_val f - fe_val g"
    using assms by (simp_all add: fe_val_sum fe_bnd_length [OF assms(1)] fe_bnd_length [OF assms(2)] sum_subtractf left_diff_distrib)
qed

lemma fe_neg_sound:
  assumes "fe_bnd c f" "c \<le> 5000"
  shows "fe_bnd c (fe_neg f)" "fe_val (fe_neg f) = - fe_val f"
proof -
  have "100 * \<bar>- (f ! i)\<bar> \<le> c * 2 ^ (fe_width i - 1)" if "i < 10" for i
    using fe_bnd_nth [OF assms(1) that] by simp
  note map_limbs [OF this assms(2) fe_neg_def]
  then show "fe_bnd c (fe_neg f)" "fe_val (fe_neg f) = - fe_val f"
    by (simp_all add: fe_val_sum fe_bnd_length [OF assms(1)] sum_negf)
qed

lemma fe_val_list:
  "fe_val [a, b, c, d, e, f, g, h, i, j] = a + b * 2 ^ 26 + c * 2 ^ 51 + d * 2 ^ 77 + e * 2 ^ 102
     + f * 2 ^ 128 + g * 2 ^ 153 + h * 2 ^ 179 + i * 2 ^ 204 + j * 2 ^ 230"
  by (simp add: fe_val_def lval_def fe_pos_def lessThan_nat_numeral)

lemma fe_bnd_list:
  "fe_bnd n [a, b, c, d, e, f, g, h, i, j] \<longleftrightarrow>
     100 * \<bar>a\<bar> \<le> n * 2 ^ 25 \<and> 100 * \<bar>b\<bar> \<le> n * 2 ^ 24 \<and> 100 * \<bar>c\<bar> \<le> n * 2 ^ 25 \<and> 100 * \<bar>d\<bar> \<le> n * 2 ^ 24 \<and>
     100 * \<bar>e\<bar> \<le> n * 2 ^ 25 \<and> 100 * \<bar>f\<bar> \<le> n * 2 ^ 24 \<and> 100 * \<bar>g\<bar> \<le> n * 2 ^ 25 \<and> 100 * \<bar>h\<bar> \<le> n * 2 ^ 24 \<and>
     100 * \<bar>i\<bar> \<le> n * 2 ^ 25 \<and> 100 * \<bar>j\<bar> \<le> n * 2 ^ 24"
  by (simp add: fe_bnd_def fe_width_def)

section \<open>The residues\<close>

lemma fe_abs_eq_iff: "fe_abs f = fe_abs g \<longleftrightarrow> fe_val f mod fe_p = fe_val g mod fe_p"
  by (simp add: fe_abs_def of_int_gf_eq_iff)

text \<open>The operations on limbs refine the ring operations.\<close>

lemma fe_abs_ops:
  "fe_bnd 330 f \<Longrightarrow> fe_bnd 330 g \<Longrightarrow> fe_abs (fe_mul f g) = fe_abs f * fe_abs g"
  "fe_bnd 330 f \<Longrightarrow> fe_abs (fe_sq f) = (fe_abs f)\<^sup>2"
  "fe_bnd 330 f \<Longrightarrow> fe_abs (fe_sq2 f) = 2 * (fe_abs f)\<^sup>2"
proof -
  assume f: "fe_bnd 330 f"
  show "fe_abs (fe_sq f) = (fe_abs f)\<^sup>2" "fe_abs (fe_sq2 f) = 2 * (fe_abs f)\<^sup>2"
    using fe_sq_sound(2) [OF f, folded of_int_gf_eq_iff] fe_sq2_sound(2) [OF f, folded of_int_gf_eq_iff]
    by (simp_all add: fe_abs_def)
  assume "fe_bnd 330 g"
  then show "fe_abs (fe_mul f g) = fe_abs f * fe_abs g"
    using fe_mul_sound(2) [OF f, folded of_int_gf_eq_iff] by (simp add: fe_abs_def)
qed

lemma fe_abs_lin:
  "fe_bnd c f \<Longrightarrow> fe_bnd d g \<Longrightarrow> c + d \<le> 5000 \<Longrightarrow> fe_abs (fe_add f g) = fe_abs f + fe_abs g"
  "fe_bnd c f \<Longrightarrow> fe_bnd d g \<Longrightarrow> c + d \<le> 5000 \<Longrightarrow> fe_abs (fe_sub f g) = fe_abs f - fe_abs g"
  "fe_bnd c f \<Longrightarrow> c \<le> 5000 \<Longrightarrow> fe_abs (fe_neg f) = - fe_abs f"
  by (simp_all add: fe_abs_def fe_add_sound fe_sub_sound fe_neg_sound)

lemma fe_consts: "fe_bnd 101 fe_0" "fe_bnd 101 fe_1" "fe_abs fe_0 = 0" "fe_abs fe_1 = 1"
  "fe_val fe_0 = 0" "fe_val fe_1 = 1"
  by (simp_all add: fe_bnd_list fe_val_list fe_0_def fe_1_def fe_abs_def)

lemma fe_copy_id: "length f = 10 \<Longrightarrow> fe_copy f = f"
  by (erule fe_list10) (simp add: fe_copy_def)

section \<open>Conditional move\<close>

lemma s32_uint_word_of_int: "s32 (uint (word_of_int x :: u32)) = s32 x"
  by (simp add: s32_def unsigned_of_int take_bit_eq_mod mod_simps)

lemma xor_cancel_int: "x XOR (x XOR y) = (y :: int)"
  by (simp add: xor.assoc [symmetric])

lemma s32_xor:
  assumes "- (2 ^ 31) \<le> x" "x < 2 ^ 31" "- (2 ^ 31) \<le> y" "y < 2 ^ 31"
  shows "s32 (x XOR y) = x XOR y"
proof (rule s32_id)
  have "signed_take_bit 31 x = x" "signed_take_bit 31 y = y"
    using assms by (simp_all add: signed_take_bit_int_eq_self)
  moreover have "signed_take_bit 31 (x XOR y) = signed_take_bit 31 x XOR signed_take_bit 31 y"
    by (rule bit_eqI) (simp add: bit_signed_take_bit_iff bit_xor_iff)
  ultimately have "x XOR y = signed_take_bit 31 (x XOR y)"
    by simp
  then show "- (2 ^ 31) \<le> x XOR y" "x XOR y < 2 ^ 31"
    using signed_take_bit_int_greater_eq_minus_exp [of 31 "x XOR y"] signed_take_bit_int_less_exp [of 31 "x XOR y"]
    by simp_all
qed

lemma fe_cmov_ok_iff: "fe_cmov_ok b \<longleftrightarrow> b = 0 \<or> b = 1"
proof
  assume ok: "fe_cmov_ok b"
  have z: "(y - 1) AND NOT y = 0" if "odd y" for y :: u32
  proof -
    have eq: "y - 1 = y AND NOT 1"
      using that by (intro disjunctive_diff_eq_and_not) (simp add: and_one_eq mod2_eq_if even_not_iff)
    show ?thesis
      unfolding eq by (rule bit_word_eqI) (auto simp: bit_simps)
  qed
  show "b = 0 \<or> b = 1"
  proof (cases "even b")
    case True
    then have "(b - 1) AND NOT b = - 1"
      using ok z [of "b - 1"] by (simp add: fe_cmov_ok_def)
    then have "NOT b = - 1"
      by (simp add: and_eq_minus_1_iff)
    then show ?thesis
      by (simp add: not_eq_complement)
  next
    case False
    then have "(b - 2) AND NOT (b - 1) = - 1"
      using ok z [of b] by (simp add: fe_cmov_ok_def)
    then have "NOT (b - 1) = - 1"
      by (simp add: and_eq_minus_1_iff)
    then show ?thesis
      by (simp add: not_eq_complement)
  qed
qed (auto simp: fe_cmov_ok_def)

lemma fe_bnd_s32_range:
  assumes "fe_bnd c f" "c \<le> 5000" "i < 10"
  shows "- (2 ^ 31) \<le> f ! i" "f ! i < 2 ^ 31"
proof -
  have "s32 (f ! i) = f ! i"
    using fe_bnd_s32 [OF assms(1,2)] fe_bnd_length [OF assms(1)] assms(3) by (metis nth_map)
  then show "- (2 ^ 31) \<le> f ! i" "f ! i < 2 ^ 31"
    using s32_range [of "f ! i"] by simp_all
qed

lemma fe_cmov_sound:
  assumes "fe_bnd c f" "fe_bnd d g" "c \<le> 5000" "d \<le> 5000"
  shows "fe_cmov f g 0 = f" "fe_cmov f g 1 = g"
proof -
  have u: "[0, 1, 2, 3, 4, 5, 6, 7, 8, 9] = [0..<10]"
    by (simp add: upt_rec)
  show "fe_cmov f g 0 = f"
    unfolding fe_cmov_def u by (rule nth_equalityI) (simp_all add: s32_def fe_bnd_length [OF assms(1)] del: upt_rec_numeral)
  have "f ! i XOR s32 (uint (word_of_int (f ! i XOR g ! i) :: u32)) = g ! i" if "i < 10" for i
    using fe_bnd_s32_range [OF assms(1,3) that] fe_bnd_s32_range [OF assms(2,4) that]
    unfolding s32_uint_word_of_int by (simp only: s32_xor xor_cancel_int)
  then show "fe_cmov f g 1 = g"
    unfolding fe_cmov_def u by (intro nth_equalityI) (simp_all add: fe_bnd_length [OF assms(2)] del: upt_rec_numeral)
qed

section \<open>Correctness of the arithmetic\<close>

text \<open>C13. \<^verbatim>\<open>fe_mul\<close> multiplies modulo \<open>2 ^ 255 - 19\<close>: for arguments within the bounds that its
  comment asks for (\<open>1.65 * 2 ^ 26\<close> and \<open>1.65 * 2 ^ 25\<close>) no intermediate value overflows, the result
  represents the product, and it is within the bounds that the comment promises
  (\<open>1.01 * 2 ^ 25\<close> and \<open>1.01 * 2 ^ 24\<close>).\<close>

theorem fe_mul_correct:
  assumes "fe_bnd 330 f" "fe_bnd 330 g"
  shows "fe_bnd 101 (fe_mul f g) \<and> fe_val (fe_mul f g) mod fe_p = fe_val f * fe_val g mod fe_p"
  using fe_mul_sound [OF assms] by simp

theorem fe_mul_witness:
  "fe_bnd 101 (fe_mul [67108864, - 33554432, 3, 4, 5, - 6, 7, 8, 9, 33554432]
      [- 5, 4, 0, 0, 0, 0, 0, 0, 0, 0])
   \<and> fe_val (fe_mul [67108864, - 33554432, 3, 4, 5, - 6, 7, 8, 9, 33554432]
      [- 5, 4, 0, 0, 0, 0, 0, 0, 0, 0]) mod fe_p
    = 62115717609624230346671653637465612354711767450710543348914406176063393"
  using fe_mul_correct [of "[67108864, - 33554432, 3, 4, 5, - 6, 7, 8, 9, 33554432]"
      "[- 5, 4, 0, 0, 0, 0, 0, 0, 0, 0]"]
  by (simp add: fe_bnd_list fe_val_list fe_p_def)

text \<open>C29. \<^verbatim>\<open>fe_sq\<close> computes the square with about half of the products of \<^verbatim>\<open>fe_mul\<close>, and returns
  the same limbs as \<^verbatim>\<open>fe_mul\<close> applied to the argument twice.\<close>

theorem fe_sq_is_mul:
  assumes "fe_bnd 330 f"
  shows "fe_sq f = fe_mul f f"
  by (simp only: fe_sq_def fe_mul_def fe_sq_sums_conv fe_mul_sums_conv assms)

theorem fe_sq_is_mul_witness: "fe_sq [67108864, - 33554432, 3, 4, 5, - 6, 7, 8, 9, 33554432] = fe_mul [67108864, - 33554432, 3, 4, 5, - 6, 7, 8, 9, 33554432] [67108864, - 33554432, 3, 4, 5, - 6, 7, 8, 9, 33554432]"
  by (rule fe_sq_is_mul) (simp add: fe_bnd_list)

text \<open>Lemma. \<^verbatim>\<open>fe_sq2\<close> computes twice the square modulo \<open>2 ^ 255 - 19\<close>, within the bounds of its comment.\<close>

theorem fe_sq2_correct:
  assumes "fe_bnd 330 f"
  shows "fe_bnd 101 (fe_sq2 f) \<and> fe_val (fe_sq2 f) mod fe_p = 2 * (fe_val f)\<^sup>2 mod fe_p"
  using fe_sq2_sound [OF assms] by simp

text \<open>Lemma. \<^verbatim>\<open>fe_add\<close>, \<^verbatim>\<open>fe_sub\<close> and \<^verbatim>\<open>fe_neg\<close> compute the sum, the difference and the negation of the
  represented integers exactly, and their results are within the bounds that their comments
  promise: \<open>1.1 * 2 ^ 26\<close> and \<open>1.1 * 2 ^ 25\<close> for arguments within half of that.\<close>

theorem fe_lin_correct:
  assumes "fe_bnd 110 f" "fe_bnd 110 g"
  shows "fe_bnd 220 (fe_add f g) \<and> fe_val (fe_add f g) = fe_val f + fe_val g
    \<and> fe_bnd 220 (fe_sub f g) \<and> fe_val (fe_sub f g) = fe_val f - fe_val g
    \<and> fe_bnd 110 (fe_neg f) \<and> fe_val (fe_neg f) = - fe_val f"
  using fe_add_sound [OF assms] fe_sub_sound [OF assms] fe_neg_sound [OF assms(1)] by simp

text \<open>Lemma. \<^verbatim>\<open>fe_cmov\<close> selects without a branch: its assertion holds exactly for \<open>b\<close> in
  \<open>{0, 1}\<close>, and then it leaves \<open>f\<close> for \<open>b = 0\<close> and copies \<open>g\<close> for \<open>b = 1\<close>, limb by limb.\<close>

theorem fe_cmov_correct:
  assumes "fe_bnd 330 f" "fe_bnd 330 g"
  shows "(fe_cmov_ok b \<longleftrightarrow> b = 0 \<or> b = 1) \<and> fe_cmov f g 0 = f \<and> fe_cmov f g 1 = g"
  using fe_cmov_ok_iff fe_cmov_sound [OF assms] by simp

end
