(* ===== verification/FieldBytes.thy ===== *)
theory FieldBytes
  imports Field
begin

text \<open>
  The canonical encoding of field elements: \<^verbatim>\<open>fe_tobytes\<close> and the predicates on encodings,
  \<^verbatim>\<open>fe_isnegative\<close> and \<^verbatim>\<open>fe_isnonzero\<close>, and the limbs that \<^verbatim>\<open>ge_frombytes_vartime\<close> reads.
\<close>

section \<open>The routines\<close>

text \<open>The quotient \<^verbatim>\<open>q\<close>: eleven shifts, the first of \<^verbatim>\<open>19 * h9 + 2^24\<close>.\<close>

definition fe_quot :: "fe \<Rightarrow> int" where
  "fe_quot h = foldl (\<lambda>q i. drop_bit (fe_width i) (s32 (h ! i + q)))
     (drop_bit 25 (s32 (19 * h ! 9 + push_bit 24 1))) [0, 1, 2, 3, 4, 5, 6, 7, 8, 9]"

text \<open>The carries of \<^verbatim>\<open>fe_tobytes\<close>, on \<^verbatim>\<open>int32_t\<close> limbs; the carry out of \<^verbatim>\<open>h9\<close> is dropped.\<close>

definition fe_floor :: "nat \<Rightarrow> int list \<Rightarrow> int list" where
  "fe_floor i = carry_step s32 0 (fe_width i) i (i + 1) 1"

definition fe_reduce :: "fe \<Rightarrow> int list" where
  "fe_reduce h =
     (let q = fe_quot h;
          h = h[0 := s32 (h ! 0 + 19 * q)];
          h = foldl (\<lambda>h i. fe_floor i h) h [0, 1, 2, 3, 4, 5, 6, 7, 8];
          carry9 = drop_bit 25 (h ! 9)
      in h[9 := s32 (h ! 9 - push_bit 25 carry9)])"

definition fe_store :: "int list \<Rightarrow> byte list" where
  "fe_store h = map word_of_int
    [drop_bit 0 (h!0), drop_bit 8 (h!0), drop_bit 16 (h!0), drop_bit 24 (h!0) OR push_bit 2 (h!1),
     drop_bit 6 (h!1), drop_bit 14 (h!1), drop_bit 22 (h!1) OR push_bit 3 (h!2),
     drop_bit 5 (h!2), drop_bit 13 (h!2), drop_bit 21 (h!2) OR push_bit 5 (h!3),
     drop_bit 3 (h!3), drop_bit 11 (h!3), drop_bit 19 (h!3) OR push_bit 6 (h!4),
     drop_bit 2 (h!4), drop_bit 10 (h!4), drop_bit 18 (h!4),
     drop_bit 0 (h!5), drop_bit 8 (h!5), drop_bit 16 (h!5), drop_bit 24 (h!5) OR push_bit 1 (h!6),
     drop_bit 7 (h!6), drop_bit 15 (h!6), drop_bit 23 (h!6) OR push_bit 3 (h!7),
     drop_bit 5 (h!7), drop_bit 13 (h!7), drop_bit 21 (h!7) OR push_bit 4 (h!8),
     drop_bit 4 (h!8), drop_bit 12 (h!8), drop_bit 20 (h!8) OR push_bit 6 (h!9),
     drop_bit 2 (h!9), drop_bit 10 (h!9), drop_bit 18 (h!9)]"

definition fe_tobytes :: "fe \<Rightarrow> byte list" where
  "fe_tobytes h = fe_store (fe_reduce h)"

definition fe_isnegative :: "fe \<Rightarrow> int" where
  "fe_isnegative f = uint (fe_tobytes f ! 0 AND 1)"

definition fe_isnonzero :: "fe \<Rightarrow> int" where
  "fe_isnonzero f =
     (let s = fe_tobytes f
      in drop_bit 8 (uint (foldl (OR) (s ! 0) (map (\<lambda>i. s ! i) [1..<32])) - 1) + 1)"

definition fe_floor_iv :: "nat \<Rightarrow> ival list \<Rightarrow> ival list option" where
  "fe_floor_iv i B = (if i < 9 then carry_iv (2 ^ 31) 0 (fe_width i) i (i + 1) 1 B else None)"

section \<open>The quotient\<close>

lemma div_chain:
  fixes x h :: int
  shows "(h + x div 2 ^ m) div 2 ^ w = (x + h * 2 ^ m) div 2 ^ (m + w)"
proof -
  have "(x + h * 2 ^ m) div (2 ^ m * 2 ^ w) = (x + h * 2 ^ m) div 2 ^ m div 2 ^ w"
    by (rule zdiv_zmult2_eq) simp
  then show ?thesis
    by (simp add: power_add add.commute)
qed

text \<open>\<open>n\<close> shifts: no wrap-around, a small value, and the floor of the whole sum.\<close>

lemma fe_quot_step:
  assumes "fe_bnd 330 h" "i < 10" "\<bar>q\<bar> \<le> 40"
  shows "s32 (h ! i + q) = h ! i + q" "\<bar>drop_bit (fe_width i) (h ! i + q)\<bar> \<le> 40"
proof -
  have "\<bar>h ! i\<bar> \<le> 110729625"
    using fe_bnd_nth [OF assms(1,2)] by (auto simp: fe_width_def split: if_splits)
  with assms(3) have b: "- 110729665 \<le> h ! i + q" "h ! i + q \<le> 110729665"
    by linarith+
  then show "s32 (h ! i + q) = h ! i + q"
    by (intro s32_id) simp_all
  show "\<bar>drop_bit (fe_width i) (h ! i + q)\<bar> \<le> 40"
    using drop_bit_int_bounds [OF b, of "fe_width i"] by (auto simp: fe_width_def split: if_splits)
qed

lemma fe_quot_chain:
  fixes h :: fe
  defines "F \<equiv> \<lambda>q i. drop_bit (fe_width i) (s32 (h ! i + q))"
  assumes "fe_bnd 330 h" "n \<le> 10" "\<bar>a\<bar> \<le> 40"
  shows "\<bar>foldl F a [0..<n]\<bar> \<le> 40
    \<and> foldl F a [0..<n] = (a + (\<Sum>i<n. h ! i * 2 ^ fe_pos i)) div 2 ^ fe_pos n"
  using assms(3)
proof (induction n)
  case 0
  show ?case
    using assms(4) by (simp add: fe_pos_def)
next
  case (Suc n)
  let ?q = "foldl F a [0..<n]"
  have n: "n < 10"
    using Suc.prems by simp
  then have IH: "\<bar>?q\<bar> \<le> 40" "?q = (a + (\<Sum>i<n. h ! i * 2 ^ fe_pos i)) div 2 ^ fe_pos n"
    using Suc.IH by (blast dest: less_imp_le)+
  note st = fe_quot_step [OF assms(2) n IH(1)]
  have p: "fe_pos (Suc n) = fe_pos n + fe_width n"
    by (auto simp: fe_pos_def fe_width_def elim!: evenE oddE)
  have "foldl F a [0..<Suc n] = drop_bit (fe_width n) (h ! n + ?q)"
    by (simp only: upt_Suc_append le0 foldl_append foldl.simps) (simp only: F_def st(1) [unfolded F_def])
  moreover have "(h ! n + ?q) div 2 ^ fe_width n
      = (a + (\<Sum>i<Suc n. h ! i * 2 ^ fe_pos i)) div 2 ^ fe_pos (Suc n)"
    unfolding IH(2) p div_chain by (simp add: add.assoc)
  ultimately show ?case
    using st(2) by (simp only: drop_bit_eq_div)
qed

lemma fe_upt10: "[0, 1, 2, 3, 4, 5, 6, 7, 8, 9] = [0..<10]"
  by (simp add: upt_rec)

text \<open>The quotient is the floor of the value by \<open>2 ^ 255 - 19\<close>; it can be \<open>-2\<close>.\<close>

lemma fe_val_split:
  assumes "length h = 10"
  shows "fe_val h = (\<Sum>i<9. h ! i * 2 ^ fe_pos i) + h ! 9 * 2 ^ 230"
proof -
  have "fe_val h = (\<Sum>i<Suc 9. h ! i * 2 ^ fe_pos i)"
    by (simp add: fe_val_sum [OF assms])
  then show ?thesis
    unfolding sum.lessThan_Suc by (simp add: fe_pos_def)
qed

lemma fe_low_bound:
  assumes "fe_bnd 330 h"
  shows "\<bar>\<Sum>i<9. h ! i * 2 ^ fe_pos i\<bar> \<le> 2 ^ 231"
proof -
  have "(\<Sum>i<9. \<bar>h ! i * 2 ^ fe_pos i\<bar>) \<le> (\<Sum>i<9. (if even i then 110729625 else 55364812) * 2 ^ fe_pos i)"
  proof (rule sum_mono)
    fix i :: nat assume "i \<in> {..<9}"
    then have "\<bar>h ! i\<bar> \<le> (if even i then 110729625 else 55364812)"
      using fe_bnd_nth [OF assms, of i] by (auto simp: fe_width_def split: if_splits)
    then show "\<bar>h ! i * 2 ^ fe_pos i\<bar> \<le> (if even i then 110729625 else 55364812) * 2 ^ fe_pos i"
      unfolding abs_mult by (intro mult_mono) simp_all
  qed
  also have "\<dots> \<le> 2 ^ 231"
    by (simp add: fe_pos_def lessThan_nat_numeral)
  finally show ?thesis
    by (rule order_trans [OF sum_abs])
qed

lemma fe_quot_arith:
  fixes V L h9 a :: int
  assumes "V = L + h9 * 2 ^ 230" "\<bar>L\<bar> \<le> 2 ^ 231" "\<bar>h9\<bar> \<le> 55364812" "a = (19 * h9 + 2 ^ 24) div 2 ^ 25"
  shows "(a + V) div 2 ^ 255 = V div fe_p" "- 2 \<le> V div fe_p" "V div fe_p \<le> 1"
proof -
  define Q r where "Q = V div fe_p" and "r = V mod fe_p"
  have V: "V = fe_p * Q + r" and r: "0 \<le> r" "r < fe_p"
    by (simp_all add: Q_def r_def fe_p_def)
  have a: "2 ^ 25 * a \<le> 19 * h9 + 2 ^ 24" "19 * h9 + 2 ^ 24 < 2 ^ 25 * a + 2 ^ 25"
    unfolding assms(4) by (simp; linarith)+
  have p: "fe_p = 57896044618658097711785492504343953926634992332820282019728792003956564819949"
    by (simp add: fe_p_def)
  have Q: "- 2 \<le> Q" "Q \<le> 1"
    using assms(1-3) V r unfolding p by simp_all
  then show "- 2 \<le> V div fe_p" "V div fe_p \<le> 1"
    by (simp_all add: Q_def)
  have "0 \<le> a - 19 * Q" "a - 19 * Q \<le> 19"
    using assms(1-3) V r a Q unfolding p by simp_all
  then have "0 \<le> r + (a - 19 * Q)" "r + (a - 19 * Q) < 2 ^ 255"
    using r unfolding fe_p_def by linarith+
  moreover have "a + V = r + (a - 19 * Q) + Q * 2 ^ 255"
    unfolding V fe_p_def by (simp add: algebra_simps)
  ultimately show "(a + V) div 2 ^ 255 = V div fe_p"
    unfolding Q_def by (simp add: div_pos_pos_trivial)
qed

lemma fe_quot_eq:
  assumes "fe_bnd 330 h"
  shows "fe_quot h = fe_val h div fe_p" "\<bar>fe_quot h\<bar> \<le> 2"
proof -
  let ?a = "drop_bit 25 (s32 (19 * h ! 9 + push_bit 24 1))"
  have h9: "\<bar>h ! 9\<bar> \<le> 55364812"
    using fe_bnd_nth [OF assms, of 9] by (simp add: fe_width_def)
  then have "s32 (19 * h ! 9 + push_bit 24 1) = 19 * h ! 9 + 2 ^ 24"
    by (intro trans [OF s32_id]) (simp_all add: push_bit_eq_mult)
  then have a: "?a = (19 * h ! 9 + 2 ^ 24) div 2 ^ 25"
    by (simp only: drop_bit_eq_div)
  then have a40: "\<bar>?a\<bar> \<le> 40"
    using h9 by simp
  have "fe_quot h = (?a + (\<Sum>i<10. h ! i * 2 ^ fe_pos i)) div 2 ^ fe_pos 10"
    using fe_quot_chain [OF assms order_refl a40] unfolding fe_quot_def fe_upt10 by blast
  also have "\<dots> = (?a + fe_val h) div 2 ^ 255"
    by (simp add: fe_val_sum [OF fe_bnd_length [OF assms]] fe_pos_def)
  finally have q: "fe_quot h = (?a + fe_val h) div 2 ^ 255" .
  note * = fe_quot_arith [OF fe_val_split [OF fe_bnd_length [OF assms]] fe_low_bound [OF assms] h9 a]
  show "fe_quot h = fe_val h div fe_p" "\<bar>fe_quot h\<bar> \<le> 2"
    using * unfolding q by auto
qed

section \<open>The reduced limbs\<close>

lemma fe_pos_add_width: "fe_pos (Suc i) = fe_pos i + fe_width i"
  by (auto simp: fe_pos_def fe_width_def elim!: evenE oddE)

interpretation fef: limb_step fe_floor fe_floor_iv "lval fe_pos" 0
proof
  fix B s i B'
  assume b: "bounded B s" and iv: "fe_floor_iv i B = Some B'"
  have iv': "carry_iv (2 ^ 31) 0 (fe_width i) i (i + 1) 1 B = Some B'"
    using iv by (auto simp: fe_floor_iv_def split: if_splits)
  have w: "(0 :: int) < 2 ^ fe_width i" "(2 :: int) ^ fe_width i \<le> 2 ^ 31"
    by (simp_all add: fe_width_def)
  show "bounded B' (fe_floor i s)"
    unfolding fe_floor_def by (rule carry_step_exact(1) [OF wraps_s32 b iv' _ _ w]) simp_all
  show "lval fe_pos (fe_floor i s) mod 0 = lval fe_pos s mod 0"
    unfolding fe_floor_def using carry_step_lval [OF wraps_s32 b iv' _ _ w, of fe_pos]
    by (simp add: fe_pos_Suc)
qed

lemma fe_floor_ok: "iv_within (iv_chain fe_floor_iv [0, 1, 2, 3, 4, 5, 6, 7, 8]
     ((fe_ivs 330)[0 := (- 110729663, 110729663)]))
     (map (\<lambda>i. (0, 2 ^ fe_width i - 1)) [0..<9] @ [(- 55364820, 55364820)])"
  by code_simp

lemma fe_reduce_digits:
  assumes "fe_bnd 330 h"
  shows "length (fe_reduce h) = 10" "i < 10 \<Longrightarrow> 0 \<le> fe_reduce h ! i \<and> fe_reduce h ! i < 2 ^ fe_width i"
    "lval fe_pos (fe_reduce h) = fe_val h mod fe_p"
proof -
  let ?q = "fe_quot h"
  let ?B = "(fe_ivs 330)[0 := (- 110729663, 110729663)]"
  let ?C = "map (\<lambda>i. (0, 2 ^ fe_width i - 1)) [0..<9] @ [(- 55364820, 55364820)]"
  define h' where "h' = h[0 := s32 (h ! 0 + 19 * ?q)]"
  define t where "t = foldl (\<lambda>h i. fe_floor i h) h' [0, 1, 2, 3, 4, 5, 6, 7, 8]"
  define u where "u = t[9 := s32 (t ! 9 - push_bit 25 (drop_bit 25 (t ! 9)))]"
  note q = fe_quot_eq [OF assms] and l = fe_bnd_length [OF assms]
  have h0: "\<bar>h ! 0\<bar> \<le> 110729625"
    using fe_bnd_nth [OF assms, of 0] by (simp add: fe_width_def)
  with q(2) have "- 110729663 \<le> h ! 0 + 19 * ?q" "h ! 0 + 19 * ?q \<le> 110729663"
    by linarith+
  then have b: "bounded ?B h'" and v: "lval fe_pos h' = fe_val h + 19 * ?q"
    using assms l unfolding h'_def fe_bnd_bounded
    by (auto intro!: bounded_update simp: s32_id lval_update fe_val_def fe_pos_def)
  obtain B where B: "iv_chain fe_floor_iv [0, 1, 2, 3, 4, 5, 6, 7, 8] ?B = Some B"
    and "\<And>s. bounded B s \<Longrightarrow> bounded ?C s"
    using fe_floor_ok by (elim iv_withinE) blast
  then have c: "bounded ?C t"
    using fef.chain_bounded [OF b B] unfolding t_def by blast
  have vt: "lval fe_pos t = fe_val h + 19 * ?q"
    using fef.chain_val [OF b B] v unfolding t_def by simp
  have lt: "length t = 10"
    using bounded_length [OF c] by simp
  have t9: "- 55364820 \<le> t ! 9" "t ! 9 \<le> 55364820"
    using bounded_nth [OF c, of 9] by (simp_all add: nth_append)
  have "t ! 9 - push_bit 25 (drop_bit 25 (t ! 9)) = t ! 9 mod 2 ^ 25"
    by (rule drop_bit_remainder)
  then have u: "u = t[9 := t ! 9 mod 2 ^ 25]"
    unfolding u_def by (simp add: s32_id)
  have r: "fe_reduce h = u"
    by (simp only: fe_reduce_def Let_def u_def t_def h'_def)
  show lr: "length (fe_reduce h) = 10"
    by (simp add: r u lt)
  show d: "0 \<le> fe_reduce h ! i \<and> fe_reduce h ! i < 2 ^ fe_width i" if "i < 10" for i
  proof (cases "i = 9")
    case False
    with that have i: "i < 9" by simp
    then show ?thesis
      using bounded_nth [OF c, of i] by (simp add: r u nth_append del: upt_rec_numeral)
  qed (simp add: r u lt fe_width_def)
  have "lval fe_pos (fe_reduce h) = lval fe_pos t + (t ! 9 mod 2 ^ 25 - t ! 9) * 2 ^ fe_pos 9"
    unfolding r u by (rule lval_update) (simp add: lt)
  also have "t ! 9 mod 2 ^ 25 - t ! 9 = - (t ! 9 div 2 ^ 25 * 2 ^ 25)"
    by (simp add: minus_div_mult_eq_mod [symmetric])
  also have "lval fe_pos t + \<dots> * 2 ^ fe_pos 9 = fe_val h mod fe_p + (?q - t ! 9 div 2 ^ 25) * 2 ^ 255"
    using div_mult_mod_eq [of "fe_val h" fe_p] unfolding vt q(1) fe_p_def
    by (simp add: fe_pos_def algebra_simps)
  finally have e: "lval fe_pos (fe_reduce h) = fe_val h mod fe_p + (?q - t ! 9 div 2 ^ 25) * 2 ^ 255" .
  have "0 \<le> lval fe_pos (fe_reduce h) \<and> lval fe_pos (fe_reduce h) < 2 ^ fe_pos (length (fe_reduce h))"
    by (rule lval_digits_range [where w = fe_width]) (simp_all add: fe_pos_def [of 0] fe_pos_add_width d lr)
  then have "0 \<le> lval fe_pos (fe_reduce h)" "lval fe_pos (fe_reduce h) < 2 ^ 255"
    by (simp_all add: lr fe_pos_def)
  moreover have "0 \<le> fe_val h mod fe_p" "fe_val h mod fe_p < 2 ^ 255"
    using pos_mod_bound [of fe_p "fe_val h"] by (simp_all add: fe_p_def)
  ultimately have "?q - t ! 9 div 2 ^ 25 = 0"
    unfolding e by simp
  then show "lval fe_pos (fe_reduce h) = fe_val h mod fe_p"
    by (simp add: e)
qed


section \<open>The encoding\<close>

lemma fe_store_digits:
  assumes "h = map (\<lambda>i. take_bit (fe_width i) (drop_bit (fe_pos i) v)) [0, 1, 2, 3, 4, 5, 6, 7, 8] @ [drop_bit 230 v]"
  shows "fe_store h = map (\<lambda>k. word_of_int (drop_bit (8 * k) v)) [0..<32]"
  unfolding assms by (simp add: fe_store_def fe_width_def fe_pos_def upt_rec bytes_of_limbs)

lemma fe_list_nth:
  assumes "length f = 10"
  shows "f = map (\<lambda>i. f ! i) [0, 1, 2, 3, 4, 5, 6, 7, 8] @ [f ! 9]"
  by (rule fe_list10 [OF assms]) simp

lemma fe_tobytes_digits:
  assumes "fe_bnd 330 h"
  shows "le (fe_tobytes h) = fe_val h mod fe_p" "length (fe_tobytes h) = 32"
proof -
  let ?r = "fe_val h mod fe_p"
  note d = fe_reduce_digits [OF assms]
  have dig: "fe_reduce h ! i = take_bit (fe_width i) (drop_bit (fe_pos i) ?r)" if "i < 10" for i
    using limb_eq_digit [of fe_pos fe_width "fe_reduce h" i] d that by (simp add: fe_pos_def [of 0] fe_pos_add_width)
  have r: "0 \<le> ?r" "?r < 2 ^ 255"
    using pos_mod_bound [of fe_p "fe_val h"] by (simp_all add: fe_p_def)
  then have "drop_bit 230 ?r < 2 ^ 25"
    by (intro drop_bit_less_exp) simp
  then have "fe_reduce h ! 9 = drop_bit 230 ?r"
    using r by (simp add: dig fe_width_def fe_pos_def take_bit_int_eq_self)
  then have "fe_reduce h = map (\<lambda>i. take_bit (fe_width i) (drop_bit (fe_pos i) ?r)) [0, 1, 2, 3, 4, 5, 6, 7, 8]
      @ [drop_bit 230 ?r]"
    by (subst fe_list_nth [OF d(1)]) (simp add: dig)
  from fe_store_digits [OF this] show "le (fe_tobytes h) = fe_val h mod fe_p" "length (fe_tobytes h) = 32"
    using r by (simp_all add: fe_tobytes_def le_map_digits del: upt_rec_numeral)
qed

text \<open>The lowest bit and the nonzero flag.\<close>

lemma fe_isnegative_val: "fe_bnd 330 f \<Longrightarrow> fe_isnegative f = fe_val f mod fe_p mod 2"
proof -
  assume f: "fe_bnd 330 f"
  have "uint (fe_tobytes f ! 0) = take_bit 8 (fe_val f mod fe_p)"
    using le_nth [of 0 "fe_tobytes f"] fe_tobytes_digits [OF f] by simp
  then have "fe_isnegative f = take_bit 8 (fe_val f mod fe_p) mod 2"
    unfolding fe_isnegative_def by (subst unsigned_and_eq) (simp only: unsigned_1 and_one_eq)
  then show ?thesis
    by (simp add: take_bit_eq_mod mod_mod_cancel)
qed

lemma fe_isnonzero_val: "fe_bnd 330 f \<Longrightarrow> fe_isnonzero f = (if fe_val f mod fe_p = 0 then 0 else 1)"
  using or_bytes_flag [of "fe_tobytes f"] fe_tobytes_digits [of f]
  by (simp only: fe_isnonzero_def Let_def)

lemma fe_abs_0_iff: "fe_abs f = 0 \<longleftrightarrow> fe_val f mod fe_p = 0"
  using of_int_gf_eq_iff [of "fe_val f" 0] by (simp add: fe_abs_def)

section \<open>Correctness of the encoding\<close>

text \<open>C26. \<^verbatim>\<open>fe_tobytes\<close> writes the canonical encoding, the 32 little-endian bytes of the residue
  below \<open>2 ^ 255 - 19\<close>, of every element with limbs up to \<open>1.65 * 2 ^ 26\<close> and \<open>1.65 * 2 ^ 25\<close>; its comment asks for
  \<open>1.1 * 2 ^ 26\<close> and \<open>1.1 * 2 ^ 25\<close>.  The comment
  argues from \<open>\<bar>h\<bar> \<le> p\<close>; the bounds do not imply that, and the quotient can be \<open>-2\<close>, but the
  encoding is right for all of them.\<close>

theorem fe_tobytes_correct:
  assumes "fe_bnd 330 h"
  shows "length (fe_tobytes h) = 32 \<and> le (fe_tobytes h) = fe_val h mod fe_p"
  using fe_tobytes_digits [OF assms] by simp

theorem fe_tobytes_witness:
  "fe_val [67108864, 33554432, 67108864, 33554432, 67108864, 33554432, 67108864, 33554432, 67108864, 36909875] > fe_p
   \<and> le (fe_tobytes [67108864, 33554432, 67108864, 33554432, 67108864, 33554432, 67108864, 33554432, 67108864, 36909875])
    = 5789605842215104840300781129011827445773176406659045449137518005285128503315"
  using fe_tobytes_correct [of "[67108864, 33554432, 67108864, 33554432, 67108864, 33554432, 67108864, 33554432, 67108864, 36909875]"]
  by (simp add: fe_bnd_list fe_val_list fe_p_def)

text \<open>Lemma. \<^verbatim>\<open>fe_isnegative\<close> returns the parity of the canonical residue, and \<^verbatim>\<open>fe_isnonzero\<close> returns 0
  exactly for the representations of zero, canonical or not, and 1 for all others.\<close>

theorem fe_flags_correct:
  assumes "fe_bnd 330 f"
  shows "fe_isnegative f = fe_val f mod fe_p mod 2
    \<and> fe_isnonzero f = (if fe_val f mod fe_p = 0 then 0 else 1)"
  using fe_isnegative_val [OF assms] fe_isnonzero_val [OF assms] by simp

end
