(* ===== verification/FieldPow.thy ===== *)
theory FieldPow
  imports FieldBytes
begin

text \<open>
  Exponentiation in the field: \<^verbatim>\<open>fe_invert\<close> and \<^verbatim>\<open>fe_divpowm1\<close>, each a fixed chain of squarings and
  multiplications.  The locale \<open>power_chain\<close> is the contract of the two operations that the
  chains rely on; in it a chain is checked by adding and doubling exponents.
\<close>

section \<open>The routines\<close>

text \<open>\<^verbatim>\<open>for (i = 0; i < n; ++i) fe_sq(t, t);\<close>\<close>

definition fe_sqn :: "nat \<Rightarrow> fe \<Rightarrow> fe" where
  "fe_sqn n t = (fe_sq ^^ n) t"

definition fe_invert :: "fe \<Rightarrow> fe" where
  "fe_invert z =
     (let t0 = fe_sq z;
          t1 = fe_sq t0;
          t1 = fe_sq t1;
          t1 = fe_mul z t1;
          t0 = fe_mul t0 t1;
          t2 = fe_sq t0;
          t1 = fe_mul t1 t2;
          t2 = fe_sq t1;
          t2 = fe_sqn 4 t2;
          t1 = fe_mul t2 t1;
          t2 = fe_sq t1;
          t2 = fe_sqn 9 t2;
          t2 = fe_mul t2 t1;
          t3 = fe_sq t2;
          t3 = fe_sqn 19 t3;
          t2 = fe_mul t3 t2;
          t2 = fe_sq t2;
          t2 = fe_sqn 9 t2;
          t1 = fe_mul t2 t1;
          t2 = fe_sq t1;
          t2 = fe_sqn 49 t2;
          t2 = fe_mul t2 t1;
          t3 = fe_sq t2;
          t3 = fe_sqn 99 t3;
          t2 = fe_mul t3 t2;
          t2 = fe_sq t2;
          t2 = fe_sqn 49 t2;
          t1 = fe_mul t2 t1;
          t1 = fe_sq t1;
          t1 = fe_sqn 4 t1
      in fe_mul t1 t0)"

text \<open>The part of \<^verbatim>\<open>fe_divpowm1\<close> that comes from \<^verbatim>\<open>fe_pow22523.c\<close>, and the whole.\<close>

definition fe_pow22523 :: "fe \<Rightarrow> fe" where
  "fe_pow22523 uv7 =
     (let t0 = fe_sq uv7;
          t1 = fe_sq t0;
          t1 = fe_sq t1;
          t1 = fe_mul uv7 t1;
          t0 = fe_mul t0 t1;
          t0 = fe_sq t0;
          t0 = fe_mul t1 t0;
          t1 = fe_sq t0;
          t1 = fe_sqn 4 t1;
          t0 = fe_mul t1 t0;
          t1 = fe_sq t0;
          t1 = fe_sqn 9 t1;
          t1 = fe_mul t1 t0;
          t2 = fe_sq t1;
          t2 = fe_sqn 19 t2;
          t1 = fe_mul t2 t1;
          t1 = fe_sqn 10 t1;
          t0 = fe_mul t1 t0;
          t1 = fe_sq t0;
          t1 = fe_sqn 49 t1;
          t1 = fe_mul t1 t0;
          t2 = fe_sq t1;
          t2 = fe_sqn 99 t2;
          t1 = fe_mul t2 t1;
          t1 = fe_sqn 50 t1;
          t0 = fe_mul t1 t0;
          t0 = fe_sq t0;
          t0 = fe_sq t0
      in fe_mul t0 uv7)"

definition fe_divpowm1 :: "fe \<Rightarrow> fe \<Rightarrow> fe" where
  "fe_divpowm1 u v =
     (let v3 = fe_sq v;
          v3 = fe_mul v3 v;
          uv7 = fe_sq v3;
          uv7 = fe_mul uv7 v;
          uv7 = fe_mul uv7 u;
          t0 = fe_pow22523 uv7;
          t0 = fe_mul t0 v3
      in fe_mul t0 u)"

section \<open>Chains of squarings and multiplications\<close>

text \<open>
  \<open>mul\<close> and \<open>sq\<close> on representations refine the operations of a ring; their results are fit to
  be arguments again.
\<close>

locale power_chain =
  fixes ok :: "'f \<Rightarrow> bool" and abs :: "'f \<Rightarrow> 'r :: comm_ring_1"
    and mul :: "'f \<Rightarrow> 'f \<Rightarrow> 'f" and sq :: "'f \<Rightarrow> 'f"
  assumes mul: "ok x \<Longrightarrow> ok y \<Longrightarrow> ok (mul x y) \<and> abs (mul x y) = abs x * abs y"
    and sq: "ok x \<Longrightarrow> ok (sq x) \<and> abs (sq x) = (abs x)\<^sup>2"
begin

definition pw :: "'f \<Rightarrow> nat \<Rightarrow> 'f \<Rightarrow> bool" where
  "pw x e y \<longleftrightarrow> ok y \<and> abs y = abs x ^ e"

lemma pw_base: "ok x \<Longrightarrow> pw x 1 x"
  by (simp add: pw_def)

lemma pw_mul: "pw x a y \<Longrightarrow> pw x b z \<Longrightarrow> a + b = e \<Longrightarrow> pw x e (mul y z)"
  using mul [of y z] by (auto simp: pw_def power_add)

lemma pw_sq: "pw x a y \<Longrightarrow> a * 2 = e \<Longrightarrow> pw x e (sq y)"
  using sq [of y] by (auto simp: pw_def power_mult)

lemma pw_sqn: "pw x a y \<Longrightarrow> a * 2 ^ n = e \<Longrightarrow> pw x e ((sq ^^ n) y)"
proof (induction n arbitrary: e)
  case (Suc n)
  have "pw x (a * 2 ^ n) ((sq ^^ n) y)"
    by (rule Suc.IH [OF Suc.prems(1) refl])
  then show ?case
    using Suc.prems(2) by (simp add: pw_sq)
qed simp

text \<open>A run of \<open>a\<close> one bits followed by a run of \<open>b\<close> one bits.\<close>

lemma pw_run:
  assumes "pw x (2 ^ a - 1) y" "pw x (2 ^ Suc n - 1) z" "c = a + Suc n"
  shows "pw x (2 ^ c - 1) (mul ((sq ^^ n) (sq y)) z)"
proof -
  have "(2 ^ a - 1) * 2 ^ Suc n + (2 ^ Suc n - 1) = (2 :: nat) ^ c - 1"
  proof -
    obtain k m where km: "(2 :: nat) ^ a = Suc k" "(2 :: nat) ^ Suc n = Suc m"
      using not0_implies_Suc [of "2 ^ a"] not0_implies_Suc [of "2 ^ Suc n"] by auto
    show ?thesis
      unfolding assms(3) power_add km by simp
  qed
  moreover have "pw x ((2 ^ a - 1) * 2 ^ Suc n) ((sq ^^ n) (sq y))"
    using pw_sqn [OF pw_sq [OF assms(1) refl] refl, of n] by (simp add: mult.assoc)
  ultimately show ?thesis
    using assms(2) by (intro pw_mul)
qed

end

interpretation fe: power_chain "fe_bnd 330" fe_abs fe_mul fe_sq
proof
  fix x y
  assume x: "fe_bnd 330 x"
  show "fe_bnd 330 (fe_sq x) \<and> fe_abs (fe_sq x) = (fe_abs x)\<^sup>2"
    using fe_sq_sound(1) [OF x] fe_abs_ops(2) [OF x] by (auto intro: fe_bnd_mono)
  assume y: "fe_bnd 330 y"
  show "fe_bnd 330 (fe_mul x y) \<and> fe_abs (fe_mul x y) = fe_abs x * fe_abs y"
    using fe_mul_sound(1) [OF x y] fe_abs_ops(1) [OF x y] by (auto intro: fe_bnd_mono)
qed

lemmas fe_pw_run = fe.pw_run [folded fe_sqn_def]
lemmas fe_pw_sqn = fe.pw_sqn [folded fe_sqn_def]

text \<open>Both chains start with \<open>z ^ 11\<close> and \<open>z ^ 31\<close>, and continue with runs of one bits up to
  \<open>z ^ (2 ^ 250 - 1)\<close>.\<close>

lemma fe_pw_start:
  assumes "fe_bnd 330 z"
  shows "fe.pw z 9 (fe_mul z (fe_sq (fe_sq (fe_sq z))))"
    "fe.pw z 11 (fe_mul (fe_sq z) (fe_mul z (fe_sq (fe_sq (fe_sq z)))))"
    "fe.pw z (2 ^ 5 - 1) (fe_mul (fe_mul z (fe_sq (fe_sq (fe_sq z))))
       (fe_sq (fe_mul (fe_sq z) (fe_mul z (fe_sq (fe_sq (fe_sq z)))))))"
proof -
  note b = fe.pw_base [of z, OF assms]
  show 9: "fe.pw z 9 (fe_mul z (fe_sq (fe_sq (fe_sq z))))"
    by (rule fe.pw_mul [OF b fe.pw_sq [OF fe.pw_sq [OF fe.pw_sq [OF b refl] refl] refl]]) simp
  show 11: "fe.pw z 11 (fe_mul (fe_sq z) (fe_mul z (fe_sq (fe_sq (fe_sq z)))))"
    by (rule fe.pw_mul [OF fe.pw_sq [OF b refl] 9]) simp
  show "fe.pw z (2 ^ 5 - 1) (fe_mul (fe_mul z (fe_sq (fe_sq (fe_sq z))))
       (fe_sq (fe_mul (fe_sq z) (fe_mul z (fe_sq (fe_sq (fe_sq z)))))))"
    by (rule fe.pw_mul [OF 9 fe.pw_sq [OF 11 refl]]) simp
qed

text \<open>The chain of \<^verbatim>\<open>fe_invert\<close>: \<open>z ^ (2 ^ 255 - 21)\<close>.\<close>

lemma fe_invert_pw:
  assumes "fe_bnd 330 z"
  shows "fe.pw z (2 ^ 255 - 21) (fe_invert z)" "fe_bnd 101 (fe_invert z)"
proof -
  define t0 where "t0 = fe_mul (fe_sq z) (fe_mul z (fe_sq (fe_sq (fe_sq z))))"
  define t5 where "t5 = fe_mul (fe_mul z (fe_sq (fe_sq (fe_sq z)))) (fe_sq t0)"
  define t10 where "t10 = fe_mul (fe_sqn 4 (fe_sq t5)) t5"
  define t20 where "t20 = fe_mul (fe_sqn 9 (fe_sq t10)) t10"
  define t40 where "t40 = fe_mul (fe_sqn 19 (fe_sq t20)) t20"
  define t50 where "t50 = fe_mul (fe_sqn 9 (fe_sq t40)) t10"
  define t100 where "t100 = fe_mul (fe_sqn 49 (fe_sq t50)) t50"
  define t200 where "t200 = fe_mul (fe_sqn 99 (fe_sq t100)) t100"
  define t250 where "t250 = fe_mul (fe_sqn 49 (fe_sq t200)) t50"
  have 0: "fe.pw z 11 t0"
    unfolding t0_def by (rule fe_pw_start [OF assms])
  have 5: "fe.pw z (2 ^ 5 - 1) t5"
    unfolding t5_def t0_def by (rule fe_pw_start [OF assms])
  have 10: "fe.pw z (2 ^ 10 - 1) t10"
    unfolding t10_def by (rule fe_pw_run [OF 5]) (use 5 in simp_all)
  have 20: "fe.pw z (2 ^ 20 - 1) t20"
    unfolding t20_def by (rule fe_pw_run [OF 10]) (use 10 in simp_all)
  have 40: "fe.pw z (2 ^ 40 - 1) t40"
    unfolding t40_def by (rule fe_pw_run [OF 20]) (use 20 in simp_all)
  have 50: "fe.pw z (2 ^ 50 - 1) t50"
    unfolding t50_def by (rule fe_pw_run [OF 40]) (use 10 in simp_all)
  have 100: "fe.pw z (2 ^ 100 - 1) t100"
    unfolding t100_def by (rule fe_pw_run [OF 50]) (use 50 in simp_all)
  have 200: "fe.pw z (2 ^ 200 - 1) t200"
    unfolding t200_def by (rule fe_pw_run [OF 100]) (use 100 in simp_all)
  have 250: "fe.pw z (2 ^ 250 - 1) t250"
    unfolding t250_def by (rule fe_pw_run [OF 200]) (use 50 in simp_all)
  note 255 = fe_pw_sqn [OF fe.pw_sq [OF 250 refl] refl, of 4]
  have eq: "fe_invert z = fe_mul (fe_sqn 4 (fe_sq t250)) t0"
    by (simp only: fe_invert_def Let_def t0_def t5_def t10_def t20_def t40_def t50_def t100_def t200_def t250_def)
  show "fe.pw z (2 ^ 255 - 21) (fe_invert z)"
    unfolding eq by (rule fe.pw_mul [OF 255 0]) simp
  show "fe_bnd 101 (fe_invert z)"
    unfolding eq using 255 0 by (intro fe_mul_sound) (simp_all only: fe.pw_def)
qed

lemma fe_sqn_sq: "fe_sqn (Suc n) t = fe_sqn n (fe_sq t)"
  by (simp add: fe_sqn_def funpow_swap1)

text \<open>The chain of \<^verbatim>\<open>fe_divpowm1\<close>: \<open>z ^ (2 ^ 252 - 3)\<close>.\<close>

lemma fe_pow22523_pw:
  assumes "fe_bnd 330 z"
  shows "fe.pw z (2 ^ 252 - 3) (fe_pow22523 z)"
proof -
  define t5 where "t5 = fe_mul (fe_mul z (fe_sq (fe_sq (fe_sq z))))
    (fe_sq (fe_mul (fe_sq z) (fe_mul z (fe_sq (fe_sq (fe_sq z))))))"
  define t10 where "t10 = fe_mul (fe_sqn 4 (fe_sq t5)) t5"
  define t20 where "t20 = fe_mul (fe_sqn 9 (fe_sq t10)) t10"
  define t40 where "t40 = fe_mul (fe_sqn 19 (fe_sq t20)) t20"
  define t50 where "t50 = fe_mul (fe_sqn 9 (fe_sq t40)) t10"
  define t100 where "t100 = fe_mul (fe_sqn 49 (fe_sq t50)) t50"
  define t200 where "t200 = fe_mul (fe_sqn 99 (fe_sq t100)) t100"
  define t250 where "t250 = fe_mul (fe_sqn 49 (fe_sq t200)) t50"
  have 5: "fe.pw z (2 ^ 5 - 1) t5"
    unfolding t5_def by (rule fe_pw_start [OF assms])
  have 10: "fe.pw z (2 ^ 10 - 1) t10"
    unfolding t10_def by (rule fe_pw_run [OF 5]) (use 5 in simp_all)
  have 20: "fe.pw z (2 ^ 20 - 1) t20"
    unfolding t20_def by (rule fe_pw_run [OF 10]) (use 10 in simp_all)
  have 40: "fe.pw z (2 ^ 40 - 1) t40"
    unfolding t40_def by (rule fe_pw_run [OF 20]) (use 20 in simp_all)
  have 50: "fe.pw z (2 ^ 50 - 1) t50"
    unfolding t50_def by (rule fe_pw_run [OF 40]) (use 10 in simp_all)
  have 100: "fe.pw z (2 ^ 100 - 1) t100"
    unfolding t100_def by (rule fe_pw_run [OF 50]) (use 50 in simp_all)
  have 200: "fe.pw z (2 ^ 200 - 1) t200"
    unfolding t200_def by (rule fe_pw_run [OF 100]) (use 100 in simp_all)
  have 250: "fe.pw z (2 ^ 250 - 1) t250"
    unfolding t250_def by (rule fe_pw_run [OF 200]) (use 50 in simp_all)
  have sqn: "fe_sqn 10 t = fe_sqn 9 (fe_sq t)" "fe_sqn 50 t = fe_sqn 49 (fe_sq t)" for t
    using fe_sqn_sq [of 9 t] fe_sqn_sq [of 49 t] by simp_all
  have eq: "fe_pow22523 z = fe_mul (fe_sq (fe_sq t250)) z"
    by (simp only: fe_pow22523_def Let_def sqn t5_def t10_def t20_def t40_def t50_def t100_def t200_def t250_def)
  show ?thesis
    unfolding eq
    by (rule fe.pw_mul [OF fe.pw_sq [OF fe.pw_sq [OF 250 refl] refl] fe.pw_base [OF assms]]) simp
qed

lemma fe_divpowm1_abs:
  assumes u: "fe_bnd 330 u" and v: "fe_bnd 330 v"
  shows "fe_abs (fe_divpowm1 u v) = fe_abs u * fe_abs v ^ 3 * (fe_abs u * fe_abs v ^ 7) ^ (2 ^ 252 - 3)"
    "fe_bnd 101 (fe_divpowm1 u v)"
proof -
  define v3 where "v3 = fe_mul (fe_sq v) v"
  define uv7 where "uv7 = fe_mul (fe_mul (fe_sq v3) v) u"
  have v3: "fe_bnd 330 v3" "fe_abs v3 = fe_abs v ^ 3"
    using fe.sq [OF v] fe.mul [OF _ v, of "fe_sq v"] unfolding v3_def
    by (auto simp: power2_eq_square power3_eq_cube mult.assoc)
  have v7: "fe_bnd 330 (fe_mul (fe_sq v3) v)" "fe_abs (fe_mul (fe_sq v3) v) = fe_abs v ^ 7"
    using fe.sq [OF v3(1)] fe.mul [OF _ v, of "fe_sq v3"]
    by (auto simp: v3(2) power_mult [symmetric] simp flip: power_Suc2)
  have uv7: "fe_bnd 330 uv7" "fe_abs uv7 = fe_abs u * fe_abs v ^ 7"
    using fe.mul [OF v7(1) u] unfolding uv7_def by (simp_all add: v7(2) mult.commute)
  have t: "fe_bnd 330 (fe_pow22523 uv7)" "fe_abs (fe_pow22523 uv7) = (fe_abs u * fe_abs v ^ 7) ^ (2 ^ 252 - 3)"
    using fe_pow22523_pw [OF uv7(1)] unfolding fe.pw_def uv7(2) by blast+
  have r: "fe_bnd 330 (fe_mul (fe_pow22523 uv7) v3)"
    using fe.mul [OF t(1) v3(1)] by blast
  have eq: "fe_divpowm1 u v = fe_mul (fe_mul (fe_pow22523 uv7) v3) u"
    by (simp only: fe_divpowm1_def Let_def uv7_def v3_def)
  show "fe_abs (fe_divpowm1 u v) = fe_abs u * fe_abs v ^ 3 * (fe_abs u * fe_abs v ^ 7) ^ (2 ^ 252 - 3)"
    using fe.mul [OF r u] fe.mul [OF t(1) v3(1)] unfolding eq t(2) v3(2)
    by (simp only: mult_ac)
  show "fe_bnd 101 (fe_divpowm1 u v)"
    unfolding eq by (rule fe_mul_sound [OF r u])
qed

section \<open>Correctness of the exponentiations\<close>

text \<open>C27. \<^verbatim>\<open>fe_invert\<close> raises its argument to the power \<open>p - 2 = 2 ^ 255 - 21\<close>, the power that
  is the inverse of every nonzero element of the field, and returns limbs that are fit for every
  operation.\<close>

theorem fe_invert_correct:
  assumes "fe_bnd 330 z"
  shows "fe_bnd 101 (fe_invert z) \<and> fe_abs (fe_invert z) = fe_abs z ^ (2 ^ 255 - 21)"
  using fe_invert_pw [OF assms] by (simp only: fe.pw_def)

theorem fe_invert_witness: "fe_bnd 101 (fe_invert fe_1) \<and> fe_abs (fe_invert fe_1) = 1"
proof -
  have "fe_bnd 330 fe_1"
    using fe_consts(2) by (rule fe_bnd_mono) simp
  from fe_invert_correct [OF this] show ?thesis
    by (simp only: fe_consts power_one simp_thms)
qed

text \<open>Lemma. \<^verbatim>\<open>fe_divpowm1\<close> computes \<open>u v ^ 3 (u v ^ 7) ^ ((p - 5) / 8)\<close>, the candidate for a square
  root of \<open>u / v\<close> that point decompression uses.\<close>

theorem fe_divpowm1_correct:
  assumes "fe_bnd 330 u" "fe_bnd 330 v"
  shows "fe_bnd 101 (fe_divpowm1 u v)
    \<and> fe_abs (fe_divpowm1 u v) = fe_abs u * fe_abs v ^ 3 * (fe_abs u * fe_abs v ^ 7) ^ nat ((fe_p - 5) div 8)"
proof -
  have "nat ((fe_p - 5) div 8) = 2 ^ 252 - 3"
    by (simp add: fe_p_def)
  then show ?thesis
    using fe_divpowm1_abs [OF assms] by (simp only: simp_thms)
qed

theorem fe_divpowm1_witness: "fe_bnd 101 (fe_divpowm1 fe_1 fe_1) \<and> fe_abs (fe_divpowm1 fe_1 fe_1) = 1"
proof -
  have "fe_bnd 330 fe_1"
    using fe_consts(2) by (rule fe_bnd_mono) simp
  from fe_divpowm1_correct [OF this this] show ?thesis
    by (simp only: fe_consts power_one simp_thms mult_1)
qed

end
