(* ===== verification/Group.thy ===== *)
theory Group
  imports FieldPow
begin

text \<open>
  The curve points, \<^verbatim>\<open>ge_*\<close> of \<^verbatim>\<open>crypto-ops.c\<close> with the constants of \<^verbatim>\<open>crypto-ops-data.c\<close>: five
  coordinate systems, the conversions between them, addition and doubling.  The specification is
  the addition law of the twisted Edwards curve \<open>- x\<^sup>2 + y\<^sup>2 = 1 + d x\<^sup>2 y\<^sup>2\<close> on affine points.
\<close>

named_theorems fe_simps \<open>bounds and residues of terms built from field operations\<close>

section \<open>The data\<close>

record ge_p2 =
  p2_X :: fe
  p2_Y :: fe
  p2_Z :: fe

record ge_p3 =
  p3_X :: fe
  p3_Y :: fe
  p3_Z :: fe
  p3_T :: fe

record ge_p1p1 =
  p1_X :: fe
  p1_Y :: fe
  p1_Z :: fe
  p1_T :: fe

record ge_precomp =
  yplusx :: fe
  yminusx :: fe
  xy2d :: fe

record ge_cached =
  YplusX :: fe
  YminusX :: fe
  c_Z :: fe
  T2d :: fe

definition fe_d :: fe where
  "fe_d = [- 10913610, 13857413, - 15372611, 6949391, 114729, - 8787816, - 6275908, - 3247719, - 18696448, - 12055116]"

definition fe_sqrtm1 :: fe where
  "fe_sqrtm1 = [- 32595792, - 7943725, 9377950, 3500415, 12389472, - 272473, - 25146209, - 2005654, 326686, 11406482]"

definition fe_d2 :: fe where
  "fe_d2 = [- 21827239, - 5839606, - 30745221, 13898782, 229458, 15978800, - 12551817, - 6495438, 29715968, 9444199]"

definition fe_ma2 :: fe where
  "fe_ma2 = [- 12721188, - 3529, 0, 0, 0, 0, 0, 0, 0, 0]"

definition fe_ma :: fe where
  "fe_ma = [- 486662, 0, 0, 0, 0, 0, 0, 0, 0, 0]"

definition fe_fffb1 :: fe where
  "fe_fffb1 = [- 31702527, - 2466483, - 26106795, - 12203692, - 12169197, - 321052, 14850977, - 10296299, - 16929438, - 407568]"

definition fe_fffb2 :: fe where
  "fe_fffb2 = [8166131, - 6741800, - 17040804, 3154616, 21461005, 1466302, - 30876704, - 6368709, 10503587, - 13363080]"

definition fe_fffb3 :: fe where
  "fe_fffb3 = [- 13620103, 14639558, 4532995, 7679154, 16815101, - 15883539, - 22863840, - 14813421, 13716513, - 6477756]"

definition fe_fffb4 :: fe where
  "fe_fffb4 = [- 21786234, - 12173074, 21573800, 4524538, - 4645904, 16204591, 8012863, - 8444712, 3212926, 6885324]"

section \<open>The routines\<close>

definition ge_add :: "ge_p3 \<Rightarrow> ge_cached \<Rightarrow> ge_p1p1" where
  "ge_add p q =
     (let rX = fe_add (p3_Y p) (p3_X p);
          rY = fe_sub (p3_Y p) (p3_X p);
          rZ = fe_mul rX (YplusX q);
          rY = fe_mul rY (YminusX q);
          rT = fe_mul (T2d q) (p3_T p);
          rX = fe_mul (p3_Z p) (c_Z q);
          t0 = fe_add rX rX;
          rX = fe_sub rZ rY;
          rY = fe_add rZ rY;
          rZ = fe_add t0 rT;
          rT = fe_sub t0 rT
      in \<lparr>p1_X = rX, p1_Y = rY, p1_Z = rZ, p1_T = rT\<rparr>)"

definition ge_sub :: "ge_p3 \<Rightarrow> ge_cached \<Rightarrow> ge_p1p1" where
  "ge_sub p q =
     (let rX = fe_add (p3_Y p) (p3_X p);
          rY = fe_sub (p3_Y p) (p3_X p);
          rZ = fe_mul rX (YminusX q);
          rY = fe_mul rY (YplusX q);
          rT = fe_mul (T2d q) (p3_T p);
          rX = fe_mul (p3_Z p) (c_Z q);
          t0 = fe_add rX rX;
          rX = fe_sub rZ rY;
          rY = fe_add rZ rY;
          rZ = fe_sub t0 rT;
          rT = fe_add t0 rT
      in \<lparr>p1_X = rX, p1_Y = rY, p1_Z = rZ, p1_T = rT\<rparr>)"

definition ge_madd :: "ge_p3 \<Rightarrow> ge_precomp \<Rightarrow> ge_p1p1" where
  "ge_madd p q =
     (let rX = fe_add (p3_Y p) (p3_X p);
          rY = fe_sub (p3_Y p) (p3_X p);
          rZ = fe_mul rX (yplusx q);
          rY = fe_mul rY (yminusx q);
          rT = fe_mul (xy2d q) (p3_T p);
          t0 = fe_add (p3_Z p) (p3_Z p);
          rX = fe_sub rZ rY;
          rY = fe_add rZ rY;
          rZ = fe_add t0 rT;
          rT = fe_sub t0 rT
      in \<lparr>p1_X = rX, p1_Y = rY, p1_Z = rZ, p1_T = rT\<rparr>)"

definition ge_msub :: "ge_p3 \<Rightarrow> ge_precomp \<Rightarrow> ge_p1p1" where
  "ge_msub p q =
     (let rX = fe_add (p3_Y p) (p3_X p);
          rY = fe_sub (p3_Y p) (p3_X p);
          rZ = fe_mul rX (yminusx q);
          rY = fe_mul rY (yplusx q);
          rT = fe_mul (xy2d q) (p3_T p);
          t0 = fe_add (p3_Z p) (p3_Z p);
          rX = fe_sub rZ rY;
          rY = fe_add rZ rY;
          rZ = fe_sub t0 rT;
          rT = fe_add t0 rT
      in \<lparr>p1_X = rX, p1_Y = rY, p1_Z = rZ, p1_T = rT\<rparr>)"

definition ge_p1p1_to_p2 :: "ge_p1p1 \<Rightarrow> ge_p2" where
  "ge_p1p1_to_p2 p = \<lparr>p2_X = fe_mul (p1_X p) (p1_T p), p2_Y = fe_mul (p1_Y p) (p1_Z p),
     p2_Z = fe_mul (p1_Z p) (p1_T p)\<rparr>"

definition ge_p1p1_to_p3 :: "ge_p1p1 \<Rightarrow> ge_p3" where
  "ge_p1p1_to_p3 p = \<lparr>p3_X = fe_mul (p1_X p) (p1_T p), p3_Y = fe_mul (p1_Y p) (p1_Z p),
     p3_Z = fe_mul (p1_Z p) (p1_T p), p3_T = fe_mul (p1_X p) (p1_Y p)\<rparr>"

definition ge_p2_0 :: ge_p2 where
  "ge_p2_0 = \<lparr>p2_X = fe_0, p2_Y = fe_1, p2_Z = fe_1\<rparr>"

definition ge_p2_dbl :: "ge_p2 \<Rightarrow> ge_p1p1" where
  "ge_p2_dbl p =
     (let rX = fe_sq (p2_X p);
          rZ = fe_sq (p2_Y p);
          rT = fe_sq2 (p2_Z p);
          rY = fe_add (p2_X p) (p2_Y p);
          t0 = fe_sq rY;
          rY = fe_add rZ rX;
          rZ = fe_sub rZ rX;
          rX = fe_sub t0 rY;
          rT = fe_sub rT rZ
      in \<lparr>p1_X = rX, p1_Y = rY, p1_Z = rZ, p1_T = rT\<rparr>)"

definition ge_p3_0 :: ge_p3 where
  "ge_p3_0 = \<lparr>p3_X = fe_0, p3_Y = fe_1, p3_Z = fe_1, p3_T = fe_0\<rparr>"

text \<open>The constants of \<^verbatim>\<open>crypto-ops-data.c\<close> in extended coordinates; a short initialiser is filled with zeros.\<close>

definition ge_p3_identity :: ge_p3 where
  "ge_p3_identity = \<lparr>p3_X = [0, 0, 0, 0, 0, 0, 0, 0, 0, 0], p3_Y = [1, 0, 0, 0, 0, 0, 0, 0, 0, 0],
     p3_Z = [1, 0, 0, 0, 0, 0, 0, 0, 0, 0], p3_T = [0, 0, 0, 0, 0, 0, 0, 0, 0, 0]\<rparr>"

definition ge_p3_H :: ge_p3 where
  "ge_p3_H =
     \<lparr>p3_X = [7329926, - 15101362, 31411471, 7614783, 27996851, - 3197071, - 11157635, - 6878293, 466949, - 7986503],
      p3_Y = [5858699, 5096796, 21321203, - 7536921, - 5553480, - 11439507, - 5627669, 15045946, 19977121, 5275251],
      p3_Z = [1, 0, 0, 0, 0, 0, 0, 0, 0, 0],
      p3_T = [23443568, - 5110398, - 8776029, - 4345135, 6889568, - 14710814, 7474843, 3279062, 14550766, - 7453428]\<rparr>"

definition ge_p3_to_cached :: "ge_p3 \<Rightarrow> ge_cached" where
  "ge_p3_to_cached p = \<lparr>YplusX = fe_add (p3_Y p) (p3_X p), YminusX = fe_sub (p3_Y p) (p3_X p),
     c_Z = fe_copy (p3_Z p), T2d = fe_mul (p3_T p) fe_d2\<rparr>"

definition ge_p3_to_p2 :: "ge_p3 \<Rightarrow> ge_p2" where
  "ge_p3_to_p2 p = \<lparr>p2_X = fe_copy (p3_X p), p2_Y = fe_copy (p3_Y p), p2_Z = fe_copy (p3_Z p)\<rparr>"

definition ge_p3_dbl :: "ge_p3 \<Rightarrow> ge_p1p1" where
  "ge_p3_dbl p = (let q = ge_p3_to_p2 p in ge_p2_dbl q)"

definition ge_precomp_0 :: ge_precomp where
  "ge_precomp_0 = \<lparr>yplusx = fe_1, yminusx = fe_1, xy2d = fe_0\<rparr>"

definition ge_cached_0 :: ge_cached where
  "ge_cached_0 = \<lparr>YplusX = fe_1, YminusX = fe_1, c_Z = fe_1, T2d = fe_0\<rparr>"

definition ge_precomp_cmov :: "ge_precomp \<Rightarrow> ge_precomp \<Rightarrow> byte \<Rightarrow> ge_precomp" where
  "ge_precomp_cmov t u b = \<lparr>yplusx = fe_cmov (yplusx t) (yplusx u) (ucast b),
     yminusx = fe_cmov (yminusx t) (yminusx u) (ucast b), xy2d = fe_cmov (xy2d t) (xy2d u) (ucast b)\<rparr>"

definition ge_cached_cmov :: "ge_cached \<Rightarrow> ge_cached \<Rightarrow> byte \<Rightarrow> ge_cached" where
  "ge_cached_cmov t u b = \<lparr>YplusX = fe_cmov (YplusX t) (YplusX u) (ucast b),
     YminusX = fe_cmov (YminusX t) (YminusX u) (ucast b), c_Z = fe_cmov (c_Z t) (c_Z u) (ucast b),
     T2d = fe_cmov (T2d t) (T2d u) (ucast b)\<rparr>"

definition ge_mul8 :: "ge_p2 \<Rightarrow> ge_p1p1" where
  "ge_mul8 t =
     (let r = ge_p2_dbl t;
          u = ge_p1p1_to_p2 r;
          r = ge_p2_dbl u;
          u = ge_p1p1_to_p2 r
      in ge_p2_dbl u)"

text \<open>\<^verbatim>\<open>ge_p3_is_point_at_infinity\<close> compares limbs, not residues: \<^verbatim>\<open>X\<close> and \<^verbatim>\<open>T\<close> are all zero limbs
  and \<^verbatim>\<open>Y\<close> and \<^verbatim>\<open>Z\<close> have the same limbs.\<close>

definition ge_p3_is_point_at_infinity :: "ge_p3 \<Rightarrow> int" where
  "ge_p3_is_point_at_infinity p =
     (if list_ex (\<lambda>n. p3_X p ! n OR p3_T p ! n \<noteq> 0 \<or> p3_Y p ! n \<noteq> p3_Z p ! n) [0, 1, 2, 3, 4, 5, 6, 7, 8, 9]
      then 0 else 1)"

section \<open>The specification\<close>

text \<open>Affine points over the integers modulo \<open>2 ^ 255 - 19\<close>; the curve and its addition law.  A sum is
  defined by its denominators, which have to be invertible.\<close>

type_synonym point = "gf \<times> gf"

definition ed_d :: gf where
  "ed_d = fe_abs fe_d"

definition ed_curve :: "point \<Rightarrow> bool" where
  "ed_curve P = (case P of (x, y) \<Rightarrow> y\<^sup>2 - x\<^sup>2 = 1 + ed_d * x\<^sup>2 * y\<^sup>2)"

definition ed_zero :: point where
  "ed_zero = (0, 1)"

definition ed_neg :: "point \<Rightarrow> point" where
  "ed_neg P = (case P of (x, y) \<Rightarrow> (- x, y))"

definition ed_sum :: "point \<Rightarrow> point \<Rightarrow> point \<Rightarrow> bool" where
  "ed_sum P Q R = (case (P, Q, R) of ((x1, y1), (x2, y2), (x3, y3)) \<Rightarrow>
     let m = ed_d * x1 * x2 * y1 * y2
     in (1 + m) dvd 1 \<and> (1 - m) dvd 1
        \<and> x3 * (1 + m) = x1 * y2 + y1 * x2 \<and> y3 * (1 - m) = y1 * y2 + x1 * x2)"

text \<open>What the five coordinate systems represent, with the bounds on their limbs.\<close>

definition p2_rep :: "ge_p2 \<Rightarrow> point \<Rightarrow> bool" where
  "p2_rep p P = (case P of (x, y) \<Rightarrow>
     fe_bnd 110 (p2_X p) \<and> fe_bnd 110 (p2_Y p) \<and> fe_bnd 110 (p2_Z p) \<and> fe_abs (p2_Z p) dvd 1
     \<and> fe_abs (p2_X p) = x * fe_abs (p2_Z p) \<and> fe_abs (p2_Y p) = y * fe_abs (p2_Z p))"

definition p3_rep :: "ge_p3 \<Rightarrow> point \<Rightarrow> bool" where
  "p3_rep p P = (case P of (x, y) \<Rightarrow>
     fe_bnd 110 (p3_X p) \<and> fe_bnd 110 (p3_Y p) \<and> fe_bnd 110 (p3_Z p) \<and> fe_bnd 110 (p3_T p)
     \<and> fe_abs (p3_Z p) dvd 1
     \<and> fe_abs (p3_X p) = x * fe_abs (p3_Z p) \<and> fe_abs (p3_Y p) = y * fe_abs (p3_Z p)
     \<and> fe_abs (p3_T p) = x * y * fe_abs (p3_Z p))"

definition p1p1_rep :: "ge_p1p1 \<Rightarrow> point \<Rightarrow> bool" where
  "p1p1_rep p P = (case P of (x, y) \<Rightarrow>
     fe_bnd 330 (p1_X p) \<and> fe_bnd 330 (p1_Y p) \<and> fe_bnd 330 (p1_Z p) \<and> fe_bnd 330 (p1_T p)
     \<and> fe_abs (p1_Z p) dvd 1 \<and> fe_abs (p1_T p) dvd 1
     \<and> fe_abs (p1_X p) = x * fe_abs (p1_Z p) \<and> fe_abs (p1_Y p) = y * fe_abs (p1_T p))"

definition cached_rep :: "ge_cached \<Rightarrow> point \<Rightarrow> bool" where
  "cached_rep p P = (case P of (x, y) \<Rightarrow>
     fe_bnd 220 (YplusX p) \<and> fe_bnd 220 (YminusX p) \<and> fe_bnd 110 (c_Z p) \<and> fe_bnd 110 (T2d p)
     \<and> fe_abs (c_Z p) dvd 1
     \<and> fe_abs (YplusX p) = (y + x) * fe_abs (c_Z p) \<and> fe_abs (YminusX p) = (y - x) * fe_abs (c_Z p)
     \<and> fe_abs (T2d p) = 2 * ed_d * x * y * fe_abs (c_Z p))"

definition precomp_rep :: "ge_precomp \<Rightarrow> point \<Rightarrow> bool" where
  "precomp_rep p P = (case P of (x, y) \<Rightarrow>
     fe_bnd 110 (yplusx p) \<and> fe_bnd 110 (yminusx p) \<and> fe_bnd 110 (xy2d p)
     \<and> fe_abs (yplusx p) = y + x \<and> fe_abs (yminusx p) = y - x \<and> fe_abs (xy2d p) = 2 * ed_d * x * y)"

section \<open>The constants\<close>

lemma gf_eqI: "a mod fe_p = b mod fe_p \<Longrightarrow> (of_int a :: gf) = of_int b"
  by (simp only: of_int_gf_eq_iff)

text \<open>A residue is checked with the quotient as a certificate.\<close>

lemma gf_eq_cert: "a = b + k * fe_p \<Longrightarrow> (of_int a :: gf) = of_int b"
  by (rule gf_eqI) (simp only: mod_mult_self1)

lemmas fe_const_defs = fe_d_def fe_d2_def fe_sqrtm1_def fe_ma_def fe_ma2_def
  fe_fffb1_def fe_fffb2_def fe_fffb3_def fe_fffb4_def

lemma fe_const_bnd:
  "fe_bnd 101 fe_d" "fe_bnd 101 fe_d2" "fe_bnd 101 fe_sqrtm1" "fe_bnd 101 fe_ma" "fe_bnd 101 fe_ma2"
  "fe_bnd 101 fe_fffb1" "fe_bnd 101 fe_fffb2" "fe_bnd 101 fe_fffb3" "fe_bnd 101 fe_fffb4"
  by (simp_all add: fe_const_defs fe_bnd_list)

lemma fe_d2_double: "fe_abs fe_d2 = 2 * ed_d"
proof -
  have "(of_int (fe_val fe_d2) :: gf) = of_int (2 * fe_val fe_d)"
    by (rule gf_eq_cert [where k = 1]) (simp add: fe_const_defs fe_val_list fe_p_def)
  then show ?thesis
    by (simp add: fe_abs_def ed_d_def)
qed

lemma ed_d_eq: "121666 * ed_d = - 121665"
proof -
  have "(of_int (121666 * fe_val fe_d) :: gf) = of_int (- 121665)"
    by (rule gf_eq_cert [where k = "(- 43711)"]) (simp add: fe_const_defs fe_val_list fe_p_def)
  then show ?thesis
    by (simp add: fe_abs_def ed_d_def)
qed

text \<open>\<open>A = 2 (1 - d) / (1 + d) = 486662\<close>.\<close>

lemma A_d: "486662 * (1 + ed_d) = 2 * (1 - ed_d)"
proof -
  have "486662 * (1 + ed_d) = 2 * (1 - ed_d) + 4 * (121666 * ed_d + 121665)"
    by (simp add: algebra_simps)
  then show ?thesis
    unfolding ed_d_eq by simp
qed

lemma fe_sqrtm1_sq: "(fe_abs fe_sqrtm1)\<^sup>2 = - 1"
proof -
  have "(of_int ((fe_val fe_sqrtm1)\<^sup>2) :: gf) = of_int (- 1)"
    by (rule gf_eq_cert [where k = "6690407189080634018507799843845558368979872843924222843531373839242004886245"])
      (simp add: fe_const_defs fe_val_list fe_p_def power2_eq_square)
  then show ?thesis
    by (simp add: fe_abs_def)
qed

lemma fe_ma_abs: "fe_abs fe_ma = - 486662" "fe_abs fe_ma2 = - (486662 ^ 2)"
  by (simp_all add: fe_const_defs fe_val_list fe_abs_def)

lemma fe_fffb1_sq: "(fe_abs fe_fffb1)\<^sup>2 = - 2 * 486662 * 486664"
proof -
  have "(of_int ((fe_val fe_fffb1)\<^sup>2) :: gf) = of_int (- 2 * 486662 * 486664)"
    by (rule gf_eq_cert [where k = "8541807999629177022622485976777824916889076321483502149449674648148155333"])
      (simp add: fe_const_defs fe_val_list fe_p_def power2_eq_square)
  then show ?thesis
    by (simp add: fe_abs_def)
qed

lemma fe_fffb2_sq: "(fe_abs fe_fffb2)\<^sup>2 = 2 * 486662 * 486664"
proof -
  have "(of_int ((fe_val fe_fffb2)\<^sup>2) :: gf) = of_int (2 * 486662 * 486664)"
    by (rule gf_eq_cert [where k = "9182527501155079853014997979756392388284717163381950860790556154704119286861"])
      (simp add: fe_const_defs fe_val_list fe_p_def power2_eq_square)
  then show ?thesis
    by (simp add: fe_abs_def)
qed

lemma fe_fffb3_sq: "(fe_abs fe_fffb3)\<^sup>2 = - fe_abs fe_sqrtm1 * 486662 * 486664"
proof -
  have "(of_int ((fe_val fe_fffb3)\<^sup>2) :: gf) = of_int (- fe_val fe_sqrtm1 * 486662 * 486664)"
    by (rule gf_eq_cert [where k = "2157735735436890667404237773353690192313663208276088634631419752372585196245"])
      (simp add: fe_const_defs fe_val_list fe_p_def power2_eq_square)
  then show ?thesis
    by (simp add: fe_abs_def)
qed

lemma fe_fffb4_sq: "(fe_abs fe_fffb4)\<^sup>2 = fe_abs fe_sqrtm1 * 486662 * 486664"
proof -
  have "(of_int ((fe_val fe_fffb4)\<^sup>2) :: gf) = of_int (fe_val fe_sqrtm1 * 486662 * 486664)"
    by (rule gf_eq_cert [where k = "2437798919140463847614572459512894914287139911575628546838583162303548524852"])
      (simp add: fe_const_defs fe_val_list fe_p_def power2_eq_square)
  then show ?thesis
    by (simp add: fe_abs_def)
qed

text \<open>The square root that \<^verbatim>\<open>crypto-ops-data.c\<close> means is the one whose residue is even.\<close>

definition even_root :: "fe \<Rightarrow> gf \<Rightarrow> bool" where
  "even_root f a \<longleftrightarrow> (fe_abs f)\<^sup>2 = a \<and> even (gf_rep (fe_abs f))"

lemma even_cert:
  assumes "0 \<le> fe_val f - k * fe_p" "fe_val f - k * fe_p < fe_p" "even (fe_val f - k * fe_p)"
  shows "even (gf_rep (fe_abs f))"
proof -
  have "fe_val f mod fe_p = (fe_val f - k * fe_p) mod fe_p"
    using mod_mult_self1 [of "fe_val f - k * fe_p" k fe_p] by simp
  also have "\<dots> = fe_val f - k * fe_p"
    using assms(1,2) by (rule mod_pos_pos_trivial)
  finally show ?thesis
    using assms(3) by (simp add: fe_abs_def gf_rep_of_int)
qed

lemma even_roots:
  "even_root fe_sqrtm1 (- 1)"
  "even_root fe_fffb1 (- 2 * 486662 * 486664)" "even_root fe_fffb2 (2 * 486662 * 486664)"
  "even_root fe_fffb3 (- fe_abs fe_sqrtm1 * 486662 * 486664)" "even_root fe_fffb4 (fe_abs fe_sqrtm1 * 486662 * 486664)"
proof -
  have "even (gf_rep (fe_abs fe_sqrtm1))" "even (gf_rep (fe_abs fe_fffb4))"
    by (rule even_cert [where k = 0]; simp add: fe_const_defs fe_val_list fe_p_def)+
  moreover have "even (gf_rep (fe_abs fe_fffb1))" "even (gf_rep (fe_abs fe_fffb2))" "even (gf_rep (fe_abs fe_fffb3))"
    by (rule even_cert [where k = "- 1"]; simp add: fe_const_defs fe_val_list fe_p_def)+
  ultimately show
    "even_root fe_sqrtm1 (- 1)"
    "even_root fe_fffb1 (- 2 * 486662 * 486664)" "even_root fe_fffb2 (2 * 486662 * 486664)"
    "even_root fe_fffb3 (- fe_abs fe_sqrtm1 * 486662 * 486664)" "even_root fe_fffb4 (fe_abs fe_sqrtm1 * 486662 * 486664)"
    by (simp_all add: even_root_def fe_sqrtm1_sq fe_fffb1_sq fe_fffb2_sq fe_fffb3_sq fe_fffb4_sq)
qed

lemma two_unit: "(2 :: gf) dvd 1"
proof -
  have "(of_int (2 * ((fe_p + 1) div 2)) :: gf) = of_int 1"
    by (rule gf_eq_cert [where k = 1]) (simp add: fe_p_def)
  then have "(2 :: gf) * of_int ((fe_p + 1) div 2) = 1"
    by (simp only: of_int_mult of_int_numeral of_int_1)
  then show ?thesis
    by (metis dvd_triv_left)
qed

section \<open>Bounds and residues of compound terms\<close>

text \<open>Conditional rewrite rules that compute bounds from the outermost operation inwards.\<close>

lemma fe_bnd_ops [fe_simps]:
  "101 \<le> c \<Longrightarrow> fe_bnd 330 f \<Longrightarrow> fe_bnd 330 g \<Longrightarrow> fe_bnd c (fe_mul f g)"
  "101 \<le> c \<Longrightarrow> fe_bnd 330 f \<Longrightarrow> fe_bnd c (fe_sq f)"
  "101 \<le> c \<Longrightarrow> fe_bnd 330 f \<Longrightarrow> fe_bnd c (fe_sq2 f)"
  by (auto intro: fe_bnd_mono fe_mul_sound fe_sq_sound fe_sq2_sound)

lemma fe_bnd_sum:
  "c + d \<le> e \<Longrightarrow> e \<le> 5000 \<Longrightarrow> fe_bnd c f \<Longrightarrow> fe_bnd d g \<Longrightarrow> fe_bnd e (fe_add f g)"
  "c + d \<le> e \<Longrightarrow> e \<le> 5000 \<Longrightarrow> fe_bnd c f \<Longrightarrow> fe_bnd d g \<Longrightarrow> fe_bnd e (fe_sub f g)"
  by (rule fe_bnd_mono [of "c + d"], rule fe_add_sound fe_sub_sound, assumption+, linarith, assumption)+

lemmas fe_bnd_lin [fe_simps] =
  fe_bnd_sum [where c = 110 and d = 110, simplified]
  fe_bnd_sum [where c = 220 and d = 110, simplified]
  fe_bnd_sum [where c = 110 and d = 220, simplified]

lemma fe_bnd_neg [fe_simps]: "fe_bnd c f \<Longrightarrow> c \<le> 5000 \<Longrightarrow> fe_bnd c (fe_neg f)"
  by (rule fe_neg_sound)

lemma fe_bnd_consts [fe_simps]:
  "101 \<le> c \<Longrightarrow> fe_bnd c fe_0" "101 \<le> c \<Longrightarrow> fe_bnd c fe_1" "101 \<le> c \<Longrightarrow> fe_bnd c fe_d2"
  "101 \<le> c \<Longrightarrow> fe_bnd c fe_d" "101 \<le> c \<Longrightarrow> fe_bnd c fe_sqrtm1"
  using fe_consts(1,2) fe_const_bnd by (auto intro: fe_bnd_mono)

lemmas fe_abs_simps [fe_simps] =
  fe_abs_ops fe_abs_lin(1,2) [where c = 330 and d = 330, simplified] fe_abs_lin(3) [where c = 330, simplified]
  fe_consts(3,4)

lemma fe_copy_bnd [fe_simps]: "fe_bnd c f \<Longrightarrow> fe_bnd d (fe_copy f) = fe_bnd d f"
  "fe_bnd 110 f \<Longrightarrow> fe_abs (fe_copy f) = fe_abs f"
  by (simp_all add: fe_copy_id fe_bnd_length)

lemma fe_bnd_weaken [fe_simps]:
  "fe_bnd 110 f \<Longrightarrow> fe_bnd 220 f" "fe_bnd 110 f \<Longrightarrow> fe_bnd 330 f" "fe_bnd 220 f \<Longrightarrow> fe_bnd 330 f"
  by (auto intro: fe_bnd_mono)

section \<open>Addition\<close>

lemma unit_mult: "a dvd 1 \<Longrightarrow> b dvd 1 \<Longrightarrow> a * b dvd (1 :: 'a :: comm_ring_1)"
  using mult_dvd_mono [of a 1 b 1] by simp

text \<open>The common shape of the four additions, in terms of the product \<open>z\<close> of the denominators.\<close>

lemma p1p1_sumI:
  assumes s: "ed_sum (x1, y1) (x2, y2) (x3, y3)" and z: "z dvd 1"
    and b: "fe_bnd 330 (p1_X r)" "fe_bnd 330 (p1_Y r)" "fe_bnd 330 (p1_Z r)" "fe_bnd 330 (p1_T r)"
    and Z: "fe_abs (p1_Z r) = 2 * z * (1 + ed_d * x1 * x2 * y1 * y2)"
    and T: "fe_abs (p1_T r) = 2 * z * (1 - ed_d * x1 * x2 * y1 * y2)"
    and X: "fe_abs (p1_X r) = 2 * z * (x1 * y2 + y1 * x2)"
    and Y: "fe_abs (p1_Y r) = 2 * z * (y1 * y2 + x1 * x2)"
  shows "p1p1_rep r (x3, y3)"
proof -
  let ?m = "ed_d * x1 * x2 * y1 * y2"
  have u: "(1 + ?m) dvd 1" "(1 - ?m) dvd 1" and e: "x3 * (1 + ?m) = x1 * y2 + y1 * x2" "y3 * (1 - ?m) = y1 * y2 + x1 * x2"
    using s by (simp_all add: ed_sum_def Let_def)
  have "fe_abs (p1_Z r) dvd 1" "fe_abs (p1_T r) dvd 1"
    unfolding Z T using u z two_unit by (intro unit_mult; simp)+
  moreover have "fe_abs (p1_X r) = x3 * fe_abs (p1_Z r)" "fe_abs (p1_Y r) = y3 * fe_abs (p1_T r)"
    unfolding X Y Z T e [symmetric] by (simp_all only: mult_ac)
  ultimately show ?thesis
    using b by (simp add: p1p1_rep_def)
qed

lemma ge_add_rep:
  assumes p: "p3_rep p P" and q: "cached_rep q Q" and s: "ed_sum P Q R"
  shows "p1p1_rep (ge_add p q) R"
proof -
  obtain x1 y1 x2 y2 x3 y3 where PQR: "P = (x1, y1)" "Q = (x2, y2)" "R = (x3, y3)"
    by (cases P, cases Q, cases R) auto
  note pq = p [unfolded PQR p3_rep_def prod.case] q [unfolded PQR cached_rep_def prod.case]
  have "p1p1_rep (ge_add p q) (x3, y3)"
    by (rule p1p1_sumI [OF s [unfolded PQR ed_neg_def prod.case], of "fe_abs (p3_Z p) * fe_abs (c_Z q)"])
      (simp_all add: ge_add_def Let_def fe_simps unit_mult pq algebra_simps)
  then show ?thesis
    by (simp only: PQR)
qed

lemma ge_sub_rep:
  assumes p: "p3_rep p P" and q: "cached_rep q Q" and s: "ed_sum P (ed_neg Q) R"
  shows "p1p1_rep (ge_sub p q) R"
proof -
  obtain x1 y1 x2 y2 x3 y3 where PQR: "P = (x1, y1)" "Q = (x2, y2)" "R = (x3, y3)"
    by (cases P, cases Q, cases R) auto
  note pq = p [unfolded PQR p3_rep_def prod.case] q [unfolded PQR cached_rep_def prod.case]
  have "p1p1_rep (ge_sub p q) (x3, y3)"
    by (rule p1p1_sumI [OF s [unfolded PQR ed_neg_def prod.case], of "fe_abs (p3_Z p) * fe_abs (c_Z q)"])
      (simp_all add: ge_sub_def Let_def fe_simps unit_mult pq algebra_simps)
  then show ?thesis
    by (simp only: PQR)
qed

lemma ge_madd_rep:
  assumes p: "p3_rep p P" and q: "precomp_rep q Q" and s: "ed_sum P Q R"
  shows "p1p1_rep (ge_madd p q) R"
proof -
  obtain x1 y1 x2 y2 x3 y3 where PQR: "P = (x1, y1)" "Q = (x2, y2)" "R = (x3, y3)"
    by (cases P, cases Q, cases R) auto
  note pq = p [unfolded PQR p3_rep_def prod.case] q [unfolded PQR precomp_rep_def prod.case]
  have "p1p1_rep (ge_madd p q) (x3, y3)"
    by (rule p1p1_sumI [OF s [unfolded PQR ed_neg_def prod.case], of "fe_abs (p3_Z p)"])
      (simp_all add: ge_madd_def Let_def fe_simps unit_mult pq algebra_simps)
  then show ?thesis
    by (simp only: PQR)
qed

lemma ge_msub_rep:
  assumes p: "p3_rep p P" and q: "precomp_rep q Q" and s: "ed_sum P (ed_neg Q) R"
  shows "p1p1_rep (ge_msub p q) R"
proof -
  obtain x1 y1 x2 y2 x3 y3 where PQR: "P = (x1, y1)" "Q = (x2, y2)" "R = (x3, y3)"
    by (cases P, cases Q, cases R) auto
  note pq = p [unfolded PQR p3_rep_def prod.case] q [unfolded PQR precomp_rep_def prod.case]
  have "p1p1_rep (ge_msub p q) (x3, y3)"
    by (rule p1p1_sumI [OF s [unfolded PQR ed_neg_def prod.case], of "fe_abs (p3_Z p)"])
      (simp_all add: ge_msub_def Let_def fe_simps unit_mult pq algebra_simps)
  then show ?thesis
    by (simp only: PQR)
qed


text \<open>Doubling, of a point of the curve.\<close>

lemma ge_p2_dbl_rep:
  assumes p: "p2_rep p P" and c: "ed_curve P" and s: "ed_sum P P R"
  shows "p1p1_rep (ge_p2_dbl p) R"
proof -
  obtain x y x3 y3 where PR: "P = (x, y)" "R = (x3, y3)"
    by (cases P, cases R) auto
  let ?r = "ge_p2_dbl p" and ?z = "(fe_abs (p2_Z p))\<^sup>2" and ?m = "ed_d * x * x * y * y"
  note b = p [unfolded PR p2_rep_def prod.case]
  have c': "y\<^sup>2 - x\<^sup>2 = 1 + ?m"
    using c by (simp add: PR ed_curve_def power2_eq_square algebra_simps)
  have u: "(1 + ?m) dvd 1" "(1 - ?m) dvd 1" and e: "x3 * (1 + ?m) = x * y + y * x" "y3 * (1 - ?m) = y * y + x * x"
    using s by (simp_all add: PR ed_sum_def Let_def)
  have bnd: "fe_bnd 330 (p1_X ?r)" "fe_bnd 330 (p1_Y ?r)" "fe_bnd 330 (p1_Z ?r)" "fe_bnd 330 (p1_T ?r)"
    by (simp_all add: ge_p2_dbl_def Let_def fe_simps b)
  have X: "fe_abs (p1_X ?r) = ?z * (x * y + y * x)" "fe_abs (p1_Y ?r) = ?z * (y * y + x * x)"
    by (simp_all add: ge_p2_dbl_def Let_def fe_simps b power2_eq_square algebra_simps)
  have "fe_abs (p1_Z ?r) = ?z * (y\<^sup>2 - x\<^sup>2)" "fe_abs (p1_T ?r) = ?z * (1 - (y\<^sup>2 - x\<^sup>2 - 1))"
    by (simp_all add: ge_p2_dbl_def Let_def fe_simps b power2_eq_square algebra_simps)
  then have Z: "fe_abs (p1_Z ?r) = ?z * (1 + ?m)" "fe_abs (p1_T ?r) = ?z * (1 - ?m)"
    by (simp_all only: c') simp_all
  have "?z dvd 1"
    using b by (simp add: power2_eq_square unit_mult)
  then have "fe_abs (p1_Z ?r) dvd 1" "fe_abs (p1_T ?r) dvd 1"
    unfolding Z using u by (simp_all add: unit_mult)
  moreover have "fe_abs (p1_X ?r) = x3 * fe_abs (p1_Z ?r)" "fe_abs (p1_Y ?r) = y3 * fe_abs (p1_T ?r)"
    unfolding X Z e [symmetric] by (simp_all only: mult_ac)
  ultimately show ?thesis
    using bnd by (simp add: p1p1_rep_def PR)
qed

section \<open>Conversions\<close>

lemma ge_p1p1_to_p2_rep: "p1p1_rep p P \<Longrightarrow> p2_rep (ge_p1p1_to_p2 p) P"
  by (cases P) (auto simp: p1p1_rep_def p2_rep_def ge_p1p1_to_p2_def fe_simps unit_mult)

lemma ge_p1p1_to_p3_rep: "p1p1_rep p P \<Longrightarrow> p3_rep (ge_p1p1_to_p3 p) P"
  by (cases P) (auto simp: p1p1_rep_def p3_rep_def ge_p1p1_to_p3_def fe_simps unit_mult)

lemma ge_p3_to_cached_rep: "p3_rep p P \<Longrightarrow> cached_rep (ge_p3_to_cached p) P"
  by (cases P) (auto simp: cached_rep_def p3_rep_def ge_p3_to_cached_def fe_simps fe_d2_double algebra_simps)

lemma ge_p3_to_p2_rep: "p3_rep p P \<Longrightarrow> p2_rep (ge_p3_to_p2 p) P"
  by (cases P) (auto simp: p2_rep_def p3_rep_def ge_p3_to_p2_def fe_simps)

lemma ge_p3_dbl_rep: "p3_rep p P \<Longrightarrow> ed_curve P \<Longrightarrow> ed_sum P P R \<Longrightarrow> p1p1_rep (ge_p3_dbl p) R"
  unfolding ge_p3_dbl_def Let_def by (intro ge_p2_dbl_rep ge_p3_to_p2_rep)

lemma ge_zero_rep: "p2_rep ge_p2_0 ed_zero" "p3_rep ge_p3_0 ed_zero" "cached_rep ge_cached_0 ed_zero"
  "precomp_rep ge_precomp_0 ed_zero"
  by (simp_all add: p2_rep_def p3_rep_def cached_rep_def precomp_rep_def ed_zero_def ge_p2_0_def ge_p3_0_def
      ge_cached_0_def ge_precomp_0_def fe_simps)

lemma ge_p3_identity_rep: "p3_rep ge_p3_identity ed_zero"
  using ge_zero_rep(2) by (simp add: ge_p3_identity_def ge_p3_0_def fe_0_def fe_1_def)

lemma ge_p3_H_T: "fe_abs (p3_T ge_p3_H) = fe_abs (p3_X ge_p3_H) * fe_abs (p3_Y ge_p3_H)"
proof -
  have "(of_int (fe_val (p3_X ge_p3_H) * fe_val (p3_Y ge_p3_H)) :: gf) = of_int (fe_val (p3_T ge_p3_H))"
    by (rule gf_eq_cert [where k = "- 2166451259877012348013728633600973227994762868135222544959558665836282703526"])
      (simp add: ge_p3_H_def fe_val_list fe_p_def)
  then show ?thesis
    by (simp add: fe_abs_def)
qed

lemma ge_p3_H_rep:
  "p3_rep ge_p3_H (fe_abs (p3_X ge_p3_H), fe_abs (p3_Y ge_p3_H))"
  "ed_curve (fe_abs (p3_X ge_p3_H), fe_abs (p3_Y ge_p3_H))"
proof -
  have "fe_bnd 110 (p3_X ge_p3_H)" "fe_bnd 110 (p3_Y ge_p3_H)" "fe_bnd 110 (p3_Z ge_p3_H)" "fe_bnd 110 (p3_T ge_p3_H)"
    by (simp_all add: ge_p3_H_def fe_bnd_list)
  moreover have "fe_abs (p3_Z ge_p3_H) = 1"
    by (simp add: ge_p3_H_def fe_abs_def fe_val_list)
  ultimately show "p3_rep ge_p3_H (fe_abs (p3_X ge_p3_H), fe_abs (p3_Y ge_p3_H))"
    by (simp add: p3_rep_def ge_p3_H_T)
  have "(of_int ((fe_val (p3_Y ge_p3_H))\<^sup>2 - (fe_val (p3_X ge_p3_H))\<^sup>2) :: gf) = of_int (1 + fe_val fe_d * (fe_val (p3_T ge_p3_H))\<^sup>2)"
    by (rule gf_eq_cert [where k = 59419858520442852644184057479645530531976160522262011525556574955158828114148816755540376779201281452823614421946611437924614649238011098118779587313700])
      (simp add: ge_p3_H_def fe_d_def fe_val_list fe_p_def power2_eq_square)
  then have "(fe_abs (p3_Y ge_p3_H))\<^sup>2 - (fe_abs (p3_X ge_p3_H))\<^sup>2 = 1 + ed_d * (fe_abs (p3_T ge_p3_H))\<^sup>2"
    by (simp add: fe_abs_def ed_d_def)
  then show "ed_curve (fe_abs (p3_X ge_p3_H), fe_abs (p3_Y ge_p3_H))"
    unfolding ge_p3_H_T by (simp add: ed_curve_def power_mult_distrib mult_ac)
qed

section \<open>The addition law\<close>

text \<open>The sum of two points of the curve is a point of the curve: the defect of the sum, times its
  denominators, is a combination of the defects of the summands.\<close>

lemma curve_cofactors:
  fixes d x1 y1 x2 y2 :: "'a :: comm_ring_1"
  defines "m \<equiv> d * x1 * x2 * y1 * y2"
  shows "(y1 * y2 + x1 * x2) ^ 2 * (1 + m) ^ 2 - (x1 * y2 + y1 * x2) ^ 2 * (1 - m) ^ 2
      - (1 - m) ^ 2 * (1 + m) ^ 2 - d * (x1 * y2 + y1 * x2) ^ 2 * (y1 * y2 + x1 * x2) ^ 2
    = (y2 ^ 4 - 4 * x2 ^ 2 * y2 ^ 2 + 2 * x2 ^ 2 * y2 ^ 4 + x2 ^ 4 - 2 * x2 ^ 4 * y2 ^ 2 - 2 * d * x2 ^ 2 * y2 ^ 2 - 2 * d * x2 ^ 4 * y2 ^ 4 - d * y1 ^ 2 * x2 ^ 2 * y2 ^ 4 + d * y1 ^ 2 * x2 ^ 4 * y2 ^ 2 + d * x1 ^ 2 * x2 ^ 2 * y2 ^ 4 - d * x1 ^ 2 * x2 ^ 4 * y2 ^ 2 - d ^ 2 * x2 ^ 4 * y2 ^ 4 + d ^ 2 * y1 ^ 2 * x2 ^ 4 * y2 ^ 4 - d ^ 2 * x1 ^ 2 * x2 ^ 4 * y2 ^ 4 + d ^ 3 * x1 ^ 2 * y1 ^ 2 * x2 ^ 4 * y2 ^ 4) * (y1 ^ 2 - x1 ^ 2 - 1 - d * x1 ^ 2 * y1 ^ 2)
      + (1 + y2 ^ 2 - x2 ^ 2 + 2 * x2 ^ 2 * y2 ^ 2 - y1 ^ 2 * y2 ^ 2 + y1 ^ 2 * x2 ^ 2 - 2 * y1 ^ 2 * x2 ^ 2 * y2 ^ 2 + x1 ^ 2 * y2 ^ 2 - x1 ^ 2 * x2 ^ 2 + 2 * x1 ^ 2 * x2 ^ 2 * y2 ^ 2 + d * x2 ^ 2 * y2 ^ 2 - 2 * d * y1 ^ 2 * x2 ^ 2 * y2 ^ 2 + d * y1 ^ 4 * x2 ^ 2 * y2 ^ 2 + 2 * d * x1 ^ 2 * x2 ^ 2 * y2 ^ 2 + d * x1 ^ 4 * x2 ^ 2 * y2 ^ 2) * (y2 ^ 2 - x2 ^ 2 - 1 - d * x2 ^ 2 * y2 ^ 2)"
  unfolding m_def by (simp add: power2_eq_square power3_eq_cube power4_eq_xxxx algebra_simps)

lemma unit_cancel:
  fixes c a b :: "'a :: comm_ring_1"
  assumes "c dvd 1" "c * a = c * b"
  shows "a = b"
proof -
  obtain k where k: "1 = c * k"
    using assms(1) by (rule dvdE)
  have "a = (c * k) * a"
    by (simp only: k [symmetric] mult_1)
  also have "\<dots> = k * (c * a)"
    by (simp only: mult_ac)
  also have "\<dots> = k * (c * b)"
    by (simp only: assms(2))
  also have "\<dots> = (c * k) * b"
    by (simp only: mult_ac)
  finally show ?thesis
    by (simp only: k [symmetric] mult_1)
qed

lemma curve_closed:
  fixes d x1 y1 x2 y2 x3 y3 :: "'a :: comm_ring_1"
  defines "m \<equiv> d * x1 * x2 * y1 * y2"
  assumes u: "(1 + m) dvd 1" "(1 - m) dvd 1"
    and e: "x3 * (1 + m) = x1 * y2 + y1 * x2" "y3 * (1 - m) = y1 * y2 + x1 * x2"
    and c: "y1\<^sup>2 - x1\<^sup>2 = 1 + d * x1\<^sup>2 * y1\<^sup>2" "y2\<^sup>2 - x2\<^sup>2 = 1 + d * x2\<^sup>2 * y2\<^sup>2"
  shows "y3\<^sup>2 - x3\<^sup>2 = 1 + d * x3\<^sup>2 * y3\<^sup>2"
proof -
  have z: "y1\<^sup>2 - x1\<^sup>2 - 1 - d * x1\<^sup>2 * y1\<^sup>2 = 0" "y2\<^sup>2 - x2\<^sup>2 - 1 - d * x2\<^sup>2 * y2\<^sup>2 = 0"
    using c by simp_all
  let ?c = "(1 + m) * (1 - m) * ((1 + m) * (1 - m))"
  have "(y3 * (1 - m))\<^sup>2 * (1 + m)\<^sup>2 - (x3 * (1 + m))\<^sup>2 * (1 - m)\<^sup>2
      - (1 - m)\<^sup>2 * (1 + m)\<^sup>2 - d * (x3 * (1 + m))\<^sup>2 * (y3 * (1 - m))\<^sup>2 = 0"
    using curve_cofactors [of y1 y2 x1 x2 d, folded m_def] unfolding z e by simp
  then have "?c * (y3\<^sup>2 - x3\<^sup>2 - 1 - d * x3\<^sup>2 * y3\<^sup>2) = ?c * 0"
    by (simp add: power2_eq_square algebra_simps)
  moreover have "?c dvd 1"
    using u by (intro unit_mult)
  ultimately have "y3\<^sup>2 - x3\<^sup>2 - 1 - d * x3\<^sup>2 * y3\<^sup>2 = 0"
    by (rule unit_cancel [rotated])
  then show ?thesis
    by (simp add: algebra_simps)
qed

lemma ed_sum_curve: "ed_curve P \<Longrightarrow> ed_curve Q \<Longrightarrow> ed_sum P Q R \<Longrightarrow> ed_curve R"
  by (cases P, cases Q, cases R) (auto simp only: ed_curve_def ed_sum_def Let_def prod.case intro: curve_closed)

lemma unit_cancel_right: "c dvd 1 \<Longrightarrow> a * c = b * c \<Longrightarrow> a = (b :: 'a :: comm_ring_1)"
  using unit_cancel [of c a b] by (simp only: mult.commute)

lemma ed_sum_unique:
  assumes "ed_sum P Q R" "ed_sum P Q S"
  shows "R = S"
proof -
  obtain x1 y1 x2 y2 x3 y3 x4 y4 where PQRS: "P = (x1, y1)" "Q = (x2, y2)" "R = (x3, y3)" "S = (x4, y4)"
    by (cases P, cases Q, cases R, cases S) auto
  let ?m = "ed_d * x1 * x2 * y1 * y2"
  have "x3 * (1 + ?m) = x4 * (1 + ?m)" "y3 * (1 - ?m) = y4 * (1 - ?m)" "(1 + ?m) dvd 1" "(1 - ?m) dvd 1"
    using assms by (simp_all only: PQRS ed_sum_def Let_def prod.case)
  then show ?thesis
    by (simp only: PQRS unit_cancel_right [of "1 + ?m" x3 x4] unit_cancel_right [of "1 - ?m" y3 y4])
qed

lemma ed_sum_zero: "ed_sum P ed_zero P" "ed_sum ed_zero P P"
  by (cases P; simp add: ed_sum_def ed_zero_def)+

lemma ed_sum_commute: "ed_sum P Q R \<longleftrightarrow> ed_sum Q P R"
  by (cases P, cases Q, cases R) (auto simp: ed_sum_def Let_def ac_simps)

lemma ed_curve_zero: "ed_curve ed_zero"
  by (simp add: ed_curve_def ed_zero_def)

lemma ed_curve_neg: "ed_curve (ed_neg P) \<longleftrightarrow> ed_curve P"
  by (cases P) (simp add: ed_curve_def ed_neg_def)

lemma ed_neg_neg: "ed_neg (ed_neg P) = P"
  by (cases P) (simp add: ed_neg_def)

section \<open>The test for the neutral point\<close>

lemma infinity_neutral:
  assumes rep: "p3_rep p P" and inf: "ge_p3_is_point_at_infinity p = 1"
  shows "P = ed_zero"
proof -
  obtain x y where P: "P = (x, y)"
    by (cases P)
  note r = rep [unfolded P p3_rep_def prod.case]
  have l: "length (p3_X p) = 10" "length (p3_Y p) = 10" "length (p3_Z p) = 10"
    using r fe_bnd_length by blast+
  have "p3_X p = fe_0"
    by (rule fe_list10 [OF l(1)]) (use inf in \<open>simp add: ge_p3_is_point_at_infinity_def fe_0_def or_eq_0_iff split: if_splits\<close>)
  moreover have "p3_Y p = p3_Z p"
    by (rule fe_list10 [OF l(2)], rule fe_list10 [OF l(3)])
      (use inf in \<open>simp add: ge_p3_is_point_at_infinity_def split: if_splits\<close>)
  ultimately have "x * fe_abs (p3_Z p) = 0 * fe_abs (p3_Z p)" "y * fe_abs (p3_Z p) = 1 * fe_abs (p3_Z p)"
    using r by (simp_all add: fe_consts)
  moreover have "fe_abs (p3_Z p) dvd 1"
    using r by blast
  ultimately have "x = 0" "y = 1"
    using unit_cancel_right by blast+
  then show ?thesis
    by (simp add: P ed_zero_def)
qed

lemma infinity_missed: "\<exists>q. p3_rep q ed_zero \<and> ge_p3_is_point_at_infinity q = 0"
proof -
  let ?q = "\<lparr>p3_X = fe_0, p3_Y = [2 ^ 25, 0, 0, 0, 0, 0, 0, 0, 0, 0],
    p3_Z = [- (2 ^ 25), 1, 0, 0, 0, 0, 0, 0, 0, 0], p3_T = fe_0\<rparr>"
  have "(2 :: gf) ^ 25 dvd 1"
    using dvd_power_same [OF two_unit, of 25] by (simp only: power_one)
  then have "p3_rep ?q ed_zero"
    by (simp add: p3_rep_def ed_zero_def fe_consts fe_simps fe_bnd_list fe_abs_def fe_val_list)
  moreover have "ge_p3_is_point_at_infinity ?q = 0"
    by (simp add: ge_p3_is_point_at_infinity_def fe_0_def)
  ultimately show ?thesis by blast
qed

section \<open>Correctness of the point operations\<close>

text \<open>A point of order four, for the examples: \<open>(\<surd>-1, 0)\<close>, and its double \<open>(0, -1)\<close>.\<close>

definition ge_order4 :: ge_p3 where
  "ge_order4 = \<lparr>p3_X = fe_sqrtm1, p3_Y = fe_0, p3_Z = fe_1, p3_T = fe_0\<rparr>"

lemma order4:
  "p3_rep ge_order4 (fe_abs fe_sqrtm1, 0)" "ed_curve (fe_abs fe_sqrtm1, 0)" "ed_curve (0, - 1)"
  "ed_sum (fe_abs fe_sqrtm1, 0) (fe_abs fe_sqrtm1, 0) (0, - 1)" "ed_sum (0, - 1) (0, - 1) ed_zero"
  "ed_sum ed_zero ed_zero ed_zero"
  "ed_sum (fe_abs fe_sqrtm1, 0) (ed_neg (fe_abs fe_sqrtm1, 0)) ed_zero"
  using fe_sqrtm1_sq
  by (simp_all add: p3_rep_def ge_order4_def fe_simps ed_curve_def ed_sum_def ed_zero_def ed_neg_def power2_eq_square)

text \<open>C14. \<^verbatim>\<open>ge_add\<close>, with the conversions around it, implements the addition law: for two points
  of the curve in extended coordinates the result is the sum in extended coordinates, again a
  point of the curve, with limbs fit for the next operation.\<close>

theorem ge_add_correct:
  assumes "p3_rep p P" "p3_rep q Q" "ed_curve P" "ed_curve Q" "ed_sum P Q R"
  shows "p3_rep (ge_p1p1_to_p3 (ge_add p (ge_p3_to_cached q))) R \<and> ed_curve R"
  using assms by (auto intro: ge_p1p1_to_p3_rep ge_add_rep ge_p3_to_cached_rep ed_sum_curve)

theorem ge_add_witness:
  "p3_rep (ge_p1p1_to_p3 (ge_add ge_order4 (ge_p3_to_cached ge_order4))) (0, - 1) \<and> ed_curve (0, - 1)"
  by (rule ge_add_correct [OF order4(1,1,2,2,4)])

text \<open>Lemma. \<^verbatim>\<open>ge_sub\<close> computes the sum with the negative of the second point.\<close>

theorem ge_sub_correct:
  assumes "p3_rep p P" "p3_rep q Q" "ed_curve P" "ed_curve Q" "ed_sum P (ed_neg Q) R"
  shows "p3_rep (ge_p1p1_to_p3 (ge_sub p (ge_p3_to_cached q))) R \<and> ed_curve R"
  using assms ed_sum_curve [of P "ed_neg Q" R] ed_curve_neg [of Q]
  by (auto intro: ge_p1p1_to_p3_rep ge_sub_rep ge_p3_to_cached_rep)

text \<open>Lemma. \<^verbatim>\<open>ge_madd\<close> and \<^verbatim>\<open>ge_msub\<close>, the additions of a table entry with denominator one, compute
  the sum and the difference.\<close>

theorem ge_madd_correct:
  assumes "p3_rep p P" "precomp_rep q Q" "ed_sum P Q R" "ed_sum P (ed_neg Q) S"
  shows "p1p1_rep (ge_madd p q) R \<and> p1p1_rep (ge_msub p q) S"
  using assms by (auto intro: ge_madd_rep ge_msub_rep)

text \<open>C28. \<^verbatim>\<open>ge_p2_dbl\<close> doubles every point of the curve, in projective and in extended coordinates.\<close>

theorem ge_dbl_correct:
  assumes "p2_rep p P" "ed_curve P" "ed_sum P P R"
  shows "p2_rep (ge_p1p1_to_p2 (ge_p2_dbl p)) R \<and> p3_rep (ge_p1p1_to_p3 (ge_p2_dbl p)) R \<and> ed_curve R"
  using assms by (auto intro: ge_p1p1_to_p2_rep ge_p1p1_to_p3_rep ge_p2_dbl_rep ed_sum_curve)

theorem ge_dbl_witness: "p3_rep (ge_p1p1_to_p3 (ge_p2_dbl (ge_p3_to_p2 ge_order4))) (0, - 1)"
  using ge_dbl_correct [OF ge_p3_to_p2_rep [OF order4(1)] order4(2,4)] by blast

text \<open>Lemma. \<^verbatim>\<open>ge_mul8\<close> multiplies by the cofactor: it doubles three times.\<close>

theorem ge_mul8_correct:
  assumes "p2_rep p P" "ed_curve P" "ed_sum P P P2" "ed_sum P2 P2 P4" "ed_sum P4 P4 P8"
  shows "p1p1_rep (ge_mul8 p) P8"
proof -
  have c: "ed_curve P2" "ed_curve P4"
    using assms ed_sum_curve by blast+
  note dbl = ge_p1p1_to_p2_rep [OF ge_p2_dbl_rep]
  show ?thesis
    unfolding ge_mul8_def Let_def
    by (rule ge_p2_dbl_rep [OF dbl [OF dbl [OF assms(1,2,3)] c(1) assms(4)] c(2) assms(5)])
qed

text \<open>Lemma. \<^verbatim>\<open>ge_p3_is_point_at_infinity\<close> returns 1 only for the neutral point.  It compares limbs and
  not residues, so that there are representations of the neutral point for which it returns 0.\<close>

theorem ge_p3_is_point_at_infinity_sound:
  "(p3_rep p P \<longrightarrow> ge_p3_is_point_at_infinity p = 1 \<longrightarrow> P = ed_zero)
   \<and> (\<exists>q. p3_rep q ed_zero \<and> ge_p3_is_point_at_infinity q = 0)"
proof (intro conjI impI)
  assume rep: "p3_rep p P" and inf: "ge_p3_is_point_at_infinity p = 1"
  then show "P = ed_zero"
    using infinity_neutral by blast
next
  show "\<exists>q. p3_rep q ed_zero \<and> ge_p3_is_point_at_infinity q = 0"
    using infinity_missed by blast
qed

theorem ge_p3_is_point_at_infinity_witness:
  "p3_rep ge_p3_0 ed_zero \<and> ge_p3_is_point_at_infinity ge_p3_0 = 1 \<and> \<not> p3_rep ge_p3_0 (0, - 1)"
proof -
  have "ge_p3_is_point_at_infinity ge_p3_0 = 1"
    by (simp add: ge_p3_is_point_at_infinity_def ge_p3_0_def fe_0_def fe_1_def)
  moreover have "(0, - 1) \<noteq> ed_zero"
    using of_int_gf_eq_iff [of "- 1" 1] by (simp add: ed_zero_def fe_p_def)
  ultimately show ?thesis
    using ge_p3_is_point_at_infinity_sound [of ge_p3_0] ge_zero_rep(2) by blast
qed

text \<open>C37. The constants of \<^verbatim>\<open>crypto-ops-data.c\<close> are what their comments say: \<open>d = -121665/121666\<close>,
  \<open>2 d\<close>, \<open>A = 2 (1 - d) / (1 + d) = 486662\<close>, \<open>-A\<close> and \<open>-A\<^sup>2\<close>, and, with the square root that is even as an integer between \<open>0\<close> and
  \<open>p - 1\<close>, the square roots of \<open>-1\<close>, of \<open>\<plusminus>2 A (A + 2)\<close> and of \<open>\<plusminus>\<surd>-1 A (A + 2)\<close>; \<^verbatim>\<open>ge_p3_identity\<close> is the neutral point and
  \<^verbatim>\<open>ge_p3_H\<close> a point of the curve in extended coordinates.\<close>

theorem curve_constants_correct:
  "121666 * fe_abs fe_d = - 121665 \<and> fe_abs fe_d2 = 2 * fe_abs fe_d
   \<and> 486662 * (1 + fe_abs fe_d) = 2 * (1 - fe_abs fe_d)
   \<and> fe_abs fe_ma = - 486662 \<and> fe_abs fe_ma2 = - (486662 ^ 2)
   \<and> even_root fe_sqrtm1 (- 1)
   \<and> even_root fe_fffb1 (- 2 * 486662 * 486664) \<and> even_root fe_fffb2 (2 * 486662 * 486664)
   \<and> even_root fe_fffb3 (- fe_abs fe_sqrtm1 * 486662 * 486664) \<and> even_root fe_fffb4 (fe_abs fe_sqrtm1 * 486662 * 486664)
   \<and> p3_rep ge_p3_identity ed_zero
   \<and> p3_rep ge_p3_H (fe_abs (p3_X ge_p3_H), fe_abs (p3_Y ge_p3_H))
   \<and> ed_curve (fe_abs (p3_X ge_p3_H), fe_abs (p3_Y ge_p3_H))"
  using ed_d_eq fe_d2_double A_d fe_ma_abs even_roots ge_p3_identity_rep ge_p3_H_rep
  unfolding ed_d_def by (intro conjI)

end
