(* ===== verification/Recode.thy ===== *)
theory Recode
  imports Loads
begin

text \<open>
  Recodings of scalars into signed digits, as the scalar multiplications of \<^verbatim>\<open>crypto-ops.c\<close> use
  them: sliding windows (\<^verbatim>\<open>slide\<close>), two radix-16 recodings (the first loops of \<^verbatim>\<open>ge_scalarmult\<close> and
  \<^verbatim>\<open>ge_scalarmult_base\<close>), and the branch-free byte tests \<^verbatim>\<open>equal\<close> and \<^verbatim>\<open>negative\<close>.
\<close>

section \<open>The routines\<close>

subsection \<open>Sliding windows\<close>

definition slide_bits :: "byte list \<Rightarrow> int list" where
  "slide_bits a = map (\<lambda>i. uint (1 AND drop_bit (i mod 8) (a ! (i div 8)))) [0..<256]"

text \<open>The loop over \<^verbatim>\<open>k\<close>: it adds one at position \<open>k\<close> and carries; a carry out of position 255 is
  lost.\<close>

function slide_carry :: "nat \<Rightarrow> int list \<Rightarrow> int list" where
  "slide_carry k r =
     (if k < 256 then
        if r ! k = 0 then r[k := 1] else slide_carry (k + 1) (r[k := 0])
      else r)"
  by auto
termination
  by (relation "measure (\<lambda>(k, r). 256 - k)") auto

text \<open>The loop over \<^verbatim>\<open>b\<close>, with its \<^verbatim>\<open>break\<close>.\<close>

function slide_window :: "nat \<Rightarrow> nat \<Rightarrow> int list \<Rightarrow> int list" where
  "slide_window i b r =
     (if b \<le> 6 \<and> i + b < 256 then
        if r ! (i + b) \<noteq> 0 then
          if r ! i + push_bit b (r ! (i + b)) \<le> 15 then
            slide_window i (b + 1) (r[i := s8 (r ! i + push_bit b (r ! (i + b))), i + b := 0])
          else if r ! i - push_bit b (r ! (i + b)) \<ge> - 15 then
            slide_window i (b + 1)
              (slide_carry (i + b) (r[i := s8 (r ! i - push_bit b (r ! (i + b)))]))
          else r
        else slide_window i (b + 1) r
      else r)"
  by auto
termination
  by (relation "measure (\<lambda>(i, b, r). 7 - b)") auto

definition slide :: "byte list \<Rightarrow> int list" where
  "slide a = foldl (\<lambda>r i. if r ! i \<noteq> 0 then slide_window i 1 r else r) (slide_bits a) [0..<256]"

subsection \<open>Radix 16\<close>

text \<open>The digits of \<^verbatim>\<open>ge_scalarmult_base\<close>: nibbles, then carries that make them signed.\<close>

definition nibbles :: "byte list \<Rightarrow> int list" where
  "nibbles a = concat (map (\<lambda>b. [uint (drop_bit 0 b AND 15), uint (drop_bit 4 b AND 15)]) a)"

fun nibble_carry :: "int \<Rightarrow> int list \<Rightarrow> int list" where
  "nibble_carry carry [] = []"
| "nibble_carry carry [e] = [s8 (e + carry)]"
| "nibble_carry carry (e # e' # es) =
     (let e = s8 (e + carry);
          carry = s8 (e + 8);
          carry = drop_bit 4 carry
      in s8 (e - push_bit 4 carry) # nibble_carry carry (e' # es))"

definition recode_base :: "byte list \<Rightarrow> int list" where
  "recode_base a = nibble_carry 0 (nibbles a)"

text \<open>The digits of \<^verbatim>\<open>ge_scalarmult\<close>: a byte at a time.\<close>

fun byte_carry :: "int \<Rightarrow> byte list \<Rightarrow> int list" where
  "byte_carry carry [] = []"
| "byte_carry carry [a] =
     (let carry = carry + uint a;
          carry2 = drop_bit 4 (carry + 8)
      in [s8 (carry - push_bit 4 carry2), s8 carry2])"
| "byte_carry carry (a # a' # as) =
     (let carry = carry + uint a;
          carry2 = drop_bit 4 (carry + 8);
          e = s8 (carry - push_bit 4 carry2);
          carry = drop_bit 4 (carry2 + 8)
      in e # s8 (carry2 - push_bit 4 carry) # byte_carry carry (a' # as))"

definition recode :: "byte list \<Rightarrow> int list" where
  "recode a = byte_carry 0 a"

subsection \<open>Byte tests\<close>

text \<open>The arguments are \<^verbatim>\<open>signed char\<close>, the conversion to \<^verbatim>\<open>unsigned char\<close> is \<^term>\<open>word_of_int\<close>.\<close>

definition equal_c :: "int \<Rightarrow> int \<Rightarrow> byte" where
  "equal_c b c =
     (let ub = word_of_int b :: byte;
          uc = word_of_int c :: byte;
          x = ub XOR uc;
          y = ucast x :: u32;
          y = y - 1;
          y = drop_bit 31 y
      in ucast y)"

definition negative_c :: "int \<Rightarrow> byte" where
  "negative_c b =
     (let x = word_of_int b :: u64;
          x = drop_bit 63 x
      in ucast x)"

text \<open>\<^verbatim>\<open>babs = b - (((-bnegative) & b) << 1)\<close>, an \<^verbatim>\<open>unsigned char\<close>.\<close>

definition babs :: "int \<Rightarrow> byte" where
  "babs b = (let bnegative = negative_c b
     in word_of_int (b - push_bit 1 ((- uint bnegative) AND b)))"

text \<open>The value of digits in radix \<open>2 ^ w\<close>.\<close>

definition digit_sum :: "nat \<Rightarrow> int list \<Rightarrow> int" where
  "digit_sum w e = lval (\<lambda>i. w * i) e"

section \<open>Radix 16\<close>

lemma digit_sum_Nil [simp]: "digit_sum w [] = 0"
  by (simp add: digit_sum_def lval_def)

lemma digit_sum_Cons [simp]: "digit_sum w (x # xs) = x + 2 ^ w * digit_sum w xs"
  by (simp add: digit_sum_def lval_Cons)

lemma nibble_step:
  fixes e :: int
  assumes "0 \<le> e" "e \<le> 16"
  shows "0 \<le> drop_bit 4 (e + 8)" "drop_bit 4 (e + 8) \<le> 1"
    "- 8 \<le> e - push_bit 4 (drop_bit 4 (e + 8))" "e - push_bit 4 (drop_bit 4 (e + 8)) \<le> 7"
  using assms by (auto simp: drop_bit_eq_div push_bit_eq_mult)

lemma nibble_carry_sound:
  assumes "0 \<le> c" "c \<le> 1" "\<And>x. x \<in> set es \<Longrightarrow> 0 \<le> x \<and> x \<le> 15" "es \<noteq> []" "last es \<le> 7"
  shows "digit_sum 4 (nibble_carry c es) = c + digit_sum 4 es
    \<and> (\<forall>x \<in> set (nibble_carry c es). - 8 \<le> x \<and> x \<le> 8)
    \<and> length (nibble_carry c es) = length es"
  using assms
proof (induction c es rule: nibble_carry.induct)
  case (2 c e)
  then have "s8 (e + c) = e + c"
    by (intro s8_id) simp_all
  with 2 show ?case by simp
next
  case (3 c e e' es)
  have e: "0 \<le> e + c" "e + c \<le> 16"
    using "3.prems"(1,2) "3.prems"(3) [of e] by simp_all
  then have s: "s8 (e + c) = e + c" "s8 (e + c + 8) = e + c + 8"
    by (simp_all add: s8_id)
  note st = nibble_step [OF e]
  have s': "s8 (e + c - push_bit 4 (drop_bit 4 (e + c + 8))) = e + c - push_bit 4 (drop_bit 4 (e + c + 8))"
    using st by (intro s8_id) simp_all
  have IH: "digit_sum 4 (nibble_carry (drop_bit 4 (e + c + 8)) (e' # es)) = drop_bit 4 (e + c + 8) + digit_sum 4 (e' # es)
      \<and> (\<forall>x \<in> set (nibble_carry (drop_bit 4 (e + c + 8)) (e' # es)). - 8 \<le> x \<and> x \<le> 8)
      \<and> length (nibble_carry (drop_bit 4 (e + c + 8)) (e' # es)) = length (e' # es)"
    using "3.IH" [OF s(1) [symmetric] refl refl] st "3.prems" unfolding s by simp
  then show ?case
    using st s' by (simp add: s Let_def push_bit_eq_mult)
qed simp


lemma nibbles_Nil [simp]: "nibbles [] = []"
  by (simp add: nibbles_def)

lemma nibble_high:
  fixes x :: int
  assumes "0 \<le> x" "x < 256"
  shows "0 \<le> x div 16 \<and> x div 16 < 16"
  using assms by presburger

lemma uint_nibbles:
  "uint ((b :: byte) AND 15) = uint b mod 16" "uint (drop_bit 4 (b :: byte) AND 15) = uint b div 16"
proof -
  have m: "(15 :: byte) = mask 4"
    by (simp add: mask_eq_exp_minus_1)
  show "uint (b AND 15) = uint b mod 16"
    by (simp only: m take_bit_eq_mask [symmetric] unsigned_take_bit_eq) (simp add: take_bit_eq_mod)
  have "0 \<le> uint b div 16" "uint b div 16 < 16"
    using nibble_high [of "uint b"] by simp_all
  then show "uint (drop_bit 4 b AND 15) = uint b div 16"
    by (simp only: m take_bit_eq_mask [symmetric] unsigned_take_bit_eq unsigned_drop_bit_eq)
      (simp add: take_bit_eq_mod drop_bit_eq_div)
qed

lemma nibbles_Cons: "nibbles (b # bs) = uint b mod 16 # uint b div 16 # nibbles bs"
  by (simp only: nibbles_def list.map concat.simps append.simps uint_nibbles(2))
    (simp only: drop_bit_0 id_apply uint_nibbles(1))

lemma digit_sum_nibbles: "digit_sum 4 (nibbles bs) = le bs"
  by (induction bs) (simp_all add: nibbles_Cons algebra_simps)

lemma nibbles_range: "x \<in> set (nibbles bs) \<Longrightarrow> 0 \<le> x \<and> x \<le> 15"
proof (induction bs)
  case (Cons b bs)
  have "0 \<le> uint b div 16" "uint b div 16 < 16"
    using nibble_high [of "uint b"] by simp_all
  moreover have "0 \<le> uint b mod 16" "uint b mod 16 \<le> 15"
    by simp_all
  ultimately show ?case
    using Cons by (auto simp: nibbles_Cons)
qed simp

lemma length_nibbles: "length (nibbles bs) = 2 * length bs"
  by (induction bs) (simp_all add: nibbles_Cons)

lemma last_nibbles: "bs \<noteq> [] \<Longrightarrow> last (nibbles bs) = uint (last bs) div 16"
proof (induction bs)
  case (Cons b bs)
  then show ?case
    by (cases bs) (simp_all add: nibbles_Cons)
qed simp

text \<open>A byte and a carry, nibble by nibble.\<close>

lemma byte_step:
  fixes c x :: int
  assumes "0 \<le> c" "c \<le> 1" "0 \<le> x" "x < 256"
  shows "(c + x + 8) div 16 = x div 16 + (x mod 16 + c + 8) div 16"
    "c + x - 16 * ((c + x + 8) div 16) = x mod 16 + c - 16 * ((x mod 16 + c + 8) div 16)"
    "0 \<le> (x mod 16 + c + 8) div 16" "(x mod 16 + c + 8) div 16 \<le> 1"
proof -
  have "c + x + 8 = (x mod 16 + c + 8) + x div 16 * 16"
    by simp
  then show "(c + x + 8) div 16 = x div 16 + (x mod 16 + c + 8) div 16"
    by (simp only: div_mult_self1)
  then show "c + x - 16 * ((c + x + 8) div 16) = x mod 16 + c - 16 * ((x mod 16 + c + 8) div 16)"
    by (simp add: minus_mult_div_eq_mod)
  have "0 \<le> x mod 16" "x mod 16 \<le> 15"
    by simp_all
  then show "0 \<le> (x mod 16 + c + 8) div 16" "(x mod 16 + c + 8) div 16 \<le> 1"
    using assms by linarith+
qed

lemma carry16:
  fixes e :: int
  assumes "0 \<le> e" "e \<le> 16"
  shows "0 \<le> (e + 8) div 16" "(e + 8) div 16 \<le> 1" "s8 e = e" "s8 (e + 8) = e + 8"
  using assms by (auto intro: s8_id)

lemma byte_carry_nibble:
  assumes "0 \<le> c" "c \<le> 1"
  shows "byte_carry c as = nibble_carry c (nibbles as)"
  using assms
proof (induction c as rule: byte_carry.induct)
  case (2 c a)
  define x where "x = uint a"
  define c1 where "c1 = (x mod 16 + c + 8) div 16"
  have a: "0 \<le> x" "x < 256"
    by (simp_all add: x_def)
  note st = byte_step [OF 2 a, folded c1_def]
  have "0 \<le> x mod 16" "x mod 16 \<le> 15"
    by simp_all
  then have lo: "0 \<le> x mod 16 + c" "x mod 16 + c \<le> 16"
    using 2 by linarith+
  note s = carry16 [OF lo, folded c1_def]
  have L: "byte_carry c [a] = [s8 (c + x - 16 * ((c + x + 8) div 16)), s8 (x div 16 + c1)]"
    by (simp add: Let_def drop_bit_eq_div push_bit_eq_mult mult.commute [of _ 16] x_def [symmetric] st(1))
  have R: "nibble_carry c (nibbles [a]) = [s8 (x mod 16 + c - 16 * c1), s8 (x div 16 + c1)]"
    by (simp add: nibbles_Cons [of a] Let_def drop_bit_eq_div push_bit_eq_mult mult.commute [of _ 16]
        x_def [symmetric] s c1_def [symmetric])
  show ?case
    unfolding L R st(2) ..
next
  case (3 c a a' as)
  define x where "x = uint a"
  define c1 where "c1 = (x mod 16 + c + 8) div 16"
  define c2 where "c2 = (x div 16 + c1 + 8) div 16"
  have a: "0 \<le> x" "x < 256"
    by (simp_all add: x_def)
  note st = byte_step [OF "3.prems" a, folded c1_def]
  have "0 \<le> x mod 16" "x mod 16 \<le> 15"
    by simp_all
  then have lo: "0 \<le> x mod 16 + c" "x mod 16 + c \<le> 16"
    using "3.prems" by linarith+
  have hi: "0 \<le> x div 16 + c1" "x div 16 + c1 \<le> 16"
    using nibble_high [OF a] st(3,4) by linarith+
  note s = carry16 [OF lo, folded c1_def] carry16 [OF hi, folded c2_def]
  have IH: "byte_carry c2 (a' # as) = nibble_carry c2 (nibbles (a' # as))"
    using "3.IH" [OF refl refl refl refl] s(5,6) st(1) by (simp add: drop_bit_eq_div c2_def x_def)
  have L: "byte_carry c (a # a' # as) = s8 (c + x - 16 * ((c + x + 8) div 16)) # s8 (x div 16 + c1 - 16 * c2)
      # byte_carry c2 (a' # as)"
    by (simp add: Let_def drop_bit_eq_div push_bit_eq_mult mult.commute [of _ 16] x_def [symmetric] st(1) c2_def)
  obtain e es where n: "nibbles (a' # as) = e # es"
    by (simp add: nibbles_Cons)
  have R: "nibble_carry c (nibbles (a # a' # as)) = s8 (x mod 16 + c - 16 * c1) # s8 (x div 16 + c1 - 16 * c2)
      # nibble_carry c2 (nibbles (a' # as))"
    by (simp add: nibbles_Cons [of a] n Let_def drop_bit_eq_div push_bit_eq_mult mult.commute [of _ 16]
        x_def [symmetric] s c1_def [symmetric] c2_def [symmetric])
  show ?case
    unfolding L R st(2) IH ..
qed simp

lemma recode_same: "recode a = recode_base a"
  by (simp add: recode_def recode_base_def byte_carry_nibble)

section \<open>Sliding windows\<close>

definition hi :: "nat \<Rightarrow> int list \<Rightarrow> int" where
  "hi k r = digit_sum 1 (drop k r)"

definition bits_from :: "nat \<Rightarrow> int list \<Rightarrow> bool" where
  "bits_from k r \<longleftrightarrow> (\<forall>j. k \<le> j \<longrightarrow> j < length r \<longrightarrow> r ! j = 0 \<or> r ! j = 1)"

lemma hi_step: "k < length r \<Longrightarrow> hi k r = r ! k + 2 * hi (Suc k) r"
  unfolding hi_def by (subst Cons_nth_drop_Suc [symmetric]) simp_all

lemma hi_end: "length r \<le> k \<Longrightarrow> hi k r = 0"
  by (simp add: hi_def)

lemma hi_update: "i < k \<Longrightarrow> hi k (r[i := x]) = hi k r"
  by (simp add: hi_def)

lemma hi_nonneg: "bits_from k r \<Longrightarrow> 0 \<le> hi k r"
proof (induction "length r - k" arbitrary: k)
  case (Suc n)
  then have "0 \<le> hi (Suc k) r" "r ! k = 0 \<or> r ! k = 1" "k < length r"
    by (auto simp: bits_from_def)
  then show ?case
    by (auto simp: hi_step)
qed (simp add: hi_end)

lemma bits_from_mono: "bits_from k r \<Longrightarrow> k \<le> l \<Longrightarrow> bits_from l r"
  by (auto simp: bits_from_def)

declare slide_carry.simps [simp del] slide_window.simps [simp del]

text \<open>The carry adds one to the bits from position \<open>k\<close> on, unless they are all set.\<close>

lemma slide_carry_sound:
  assumes "length r = 256" "k \<le> 256" "bits_from k r" "hi k r + 1 < 2 ^ (256 - k)"
  shows "length (slide_carry k r) = 256 \<and> (\<forall>j<k. slide_carry k r ! j = r ! j)
    \<and> bits_from k (slide_carry k r) \<and> hi k (slide_carry k r) = hi k r + 1
    \<and> (r ! k = 1 \<longrightarrow> slide_carry k r ! k = 0)"
  using assms
proof (induction k r rule: slide_carry.induct)
  case (1 k r)
  have k: "k < 256"
  proof (rule ccontr)
    assume "\<not> k < 256"
    with 1 show False by (simp add: hi_end)
  qed
  show ?case
  proof (cases "r ! k = 0")
    case True
    then show ?thesis
      using k "1.prems" by (auto simp: slide_carry.simps [of k r] bits_from_def hi_step nth_list_update hi_update)
  next
    case False
    let ?r = "r[k := 0]"
    have rk: "r ! k = 1"
      using False k "1.prems" by (auto simp: bits_from_def)
    have h: "hi k r = 1 + 2 * hi (Suc k) r"
      using k "1.prems"(1) rk by (simp add: hi_step)
    have "(2 :: int) ^ (256 - k) = 2 * 2 ^ (256 - Suc k)"
      using k by (simp add: Suc_diff_Suc flip: power_Suc)
    with "1.prems"(4) h have "hi (Suc k) ?r + 1 < 2 ^ (256 - Suc k)"
      by (simp add: hi_update)
    then have IH: "length (slide_carry (Suc k) ?r) = 256" "\<forall>j<Suc k. slide_carry (Suc k) ?r ! j = ?r ! j"
      "bits_from (Suc k) (slide_carry (Suc k) ?r)" "hi (Suc k) (slide_carry (Suc k) ?r) = hi (Suc k) r + 1"
      using "1.IH" k False "1.prems" by (auto simp: bits_from_def nth_list_update hi_update)
    have eq: "slide_carry k r = slide_carry (Suc k) ?r"
      using k False by (simp add: slide_carry.simps [of k r])
    have z: "slide_carry (Suc k) ?r ! k = 0"
      using IH(2) k "1.prems"(1) by simp
    have "bits_from k (slide_carry (Suc k) ?r)"
      unfolding bits_from_def
    proof (intro allI impI)
      fix j assume "k \<le> j" "j < length (slide_carry (Suc k) ?r)"
      then show "slide_carry (Suc k) ?r ! j = 0 \<or> slide_carry (Suc k) ?r ! j = 1"
        using IH(3) z by (cases "j = k") (auto simp: bits_from_def)
    qed
    then show ?thesis
      unfolding eq using IH z h k by (simp add: hi_step nth_list_update)
  qed
qed

text \<open>When all the bits from position \<open>k\<close> on are set, the carry clears them and is lost.\<close>

lemma hi_less: "bits_from k r \<Longrightarrow> length r = 256 \<Longrightarrow> k \<le> 256 \<Longrightarrow> hi k r < 2 ^ (256 - k)"
proof (induction "256 - k" arbitrary: k)
  case 0
  then show ?case
    by (simp add: hi_end)
next
  case (Suc n)
  then have k: "k < 256"
    by simp
  then have "hi (Suc k) r < 2 ^ (256 - Suc k)" "r ! k = 0 \<or> r ! k = 1"
    using Suc.hyps(1) [of "Suc k"] Suc.hyps(2) Suc.prems bits_from_mono [of k r "Suc k"] by (auto simp: bits_from_def)
  moreover have "(2 :: int) ^ (256 - k) = 2 * 2 ^ (256 - Suc k)"
    using k by (simp add: Suc_diff_Suc flip: power_Suc)
  ultimately show ?case
    using k Suc.prems(2) by (auto simp: hi_step)
qed

lemma slide_carry_lost:
  assumes "length r = 256" "k \<le> 256" "bits_from k r" "hi k r + 1 = 2 ^ (256 - k)"
  shows "slide_carry k r = take k r @ replicate (256 - k) 0"
  using assms
proof (induction k r rule: slide_carry.induct)
  case (1 k r)
  show ?case
  proof (cases "k < 256")
    case True
    let ?r = "r[k := 0]"
    have p: "(2 :: int) ^ (256 - k) = 2 * 2 ^ (256 - Suc k)"
      using True by (simp add: Suc_diff_Suc flip: power_Suc)
    have h: "hi k r = r ! k + 2 * hi (Suc k) r"
      using True 1 by (simp add: hi_step)
    have b: "r ! k = 0 \<or> r ! k = 1"
      using True 1 by (auto simp: bits_from_def)
    then have one: "r ! k = 1"
      using "1.prems"(4) h p by presburger
    have "bits_from (Suc k) ?r"
      using "1.prems"(3) by (auto simp: bits_from_def nth_list_update)
    moreover have "hi (Suc k) ?r + 1 = 2 ^ (256 - Suc k)"
      using "1.prems"(4) h p one by (simp add: hi_update)
    ultimately have "slide_carry (Suc k) ?r = take (Suc k) ?r @ replicate (256 - Suc k) 0"
      using "1.IH" True one "1.prems"(1) by simp
    moreover have "slide_carry k r = slide_carry (Suc k) ?r"
      using True one by (simp add: slide_carry.simps [of k r])
    moreover have "take (Suc k) ?r = take k r @ [0]"
      using True "1.prems"(1) by (simp add: take_Suc_conv_app_nth)
    moreover have "replicate (256 - k) (0 :: int) = 0 # replicate (256 - Suc k) 0"
      using True by (simp add: Suc_diff_Suc flip: replicate_Suc)
    ultimately show ?thesis
      by simp
  next
    case False
    then have "slide_carry k r = r"
      by (subst slide_carry.simps) simp
    then show ?thesis
      using False "1.prems" by simp
  qed
qed

lemma slide_window_zeros: "(\<And>j. i < j \<Longrightarrow> j < 256 \<Longrightarrow> r ! j = 0) \<Longrightarrow> 0 < b \<Longrightarrow> slide_window i b r = r"
proof (induction i b r rule: slide_window.induct)
  case (1 i b r)
  then show ?case
    by (subst slide_window.simps) simp
qed

text \<open>
  The invariant of the loop over \<^verbatim>\<open>b\<close>, for the window at \<open>i\<close> of the list \<open>r0\<close>: the digit at \<open>i\<close> is odd
  and small, the \<open>b - 1\<close> positions after it are clear, the rest are bits, and the value \<open>T\<close> of the
  positions from \<open>i\<close> on has not changed.
\<close>

definition win :: "nat \<Rightarrow> nat \<Rightarrow> int \<Rightarrow> int list \<Rightarrow> int list \<Rightarrow> bool" where
  "win i b T r0 r \<longleftrightarrow> length r = 256 \<and> (\<forall>j<i. r ! j = r0 ! j) \<and> odd (r ! i) \<and> \<bar>r ! i\<bar> \<le> 15
     \<and> (\<forall>j. i < j \<longrightarrow> j < i + b \<longrightarrow> j < 256 \<longrightarrow> r ! j = 0) \<and> bits_from (i + b) r
     \<and> (r ! i < 0 \<longrightarrow> 5 \<le> b) \<and> r ! i + 2 ^ b * hi (i + b) r = T"

lemma winI:
  assumes "length r = 256" "\<And>j. j < i \<Longrightarrow> r ! j = r0 ! j" "odd (r ! i)" "- 15 \<le> r ! i" "r ! i \<le> 15"
    "\<And>j. i < j \<Longrightarrow> j < i + b \<Longrightarrow> j < 256 \<Longrightarrow> r ! j = 0" "bits_from (i + b) r"
    "r ! i < 0 \<Longrightarrow> 5 \<le> b" "r ! i + 2 ^ b * hi (i + b) r = T"
  shows "win i b T r0 r"
  using assms by (auto simp: win_def)

lemma win_skip:
  assumes "win i b T r0 r" "i + b < 256" "r ! (i + b) = 0"
  shows "win i (b + 1) T r0 r"
proof -
  have "hi (i + b) r = 2 * hi (i + (b + 1)) r"
    using assms by (simp add: win_def hi_step)
  moreover have "r ! j = 0" if "i < j" "j < i + (b + 1)" "j < 256" for j
    using assms that by (cases "j = i + b") (auto simp: win_def)
  ultimately show ?thesis
    using assms(1) by (auto simp: win_def intro: bits_from_mono)
qed

lemma win_add:
  assumes w: "win i b T r0 r" and b: "1 \<le> b" "i + b < 256" "r ! (i + b) = 1" "r ! i + 2 ^ b \<le> 15"
  shows "win i (b + 1) T r0 (r[i := s8 (r ! i + 2 ^ b), i + b := 0])"
proof -
  have "(0 :: int) < 2 ^ b"
    by simp
  moreover have "\<bar>r ! i\<bar> \<le> 15"
    using w by (simp add: win_def)
  ultimately have p: "- 15 \<le> r ! i + 2 ^ b" "\<bar>r ! i + 2 ^ b\<bar> \<le> 15"
    using b(4) by linarith+
  then have s: "s8 (r ! i + 2 ^ b) = r ! i + 2 ^ b"
    by (intro s8_id) auto
  let ?r = "r[i := r ! i + 2 ^ b, i + b := 0]"
  have nth: "?r ! i = r ! i + 2 ^ b" "?r ! j = (if j = i + b then 0 else r ! j)" if "j \<noteq> i" "j < 256" for j
    using w b that by (auto simp: win_def nth_list_update)
  have "hi (i + b) r = 1 + 2 * hi (i + (b + 1)) r"
    using w b by (simp add: win_def hi_step)
  moreover have "hi (i + (b + 1)) ?r = hi (i + (b + 1)) r"
    by (simp add: hi_update)
  ultimately have v: "?r ! i + 2 ^ (b + 1) * hi (i + (b + 1)) ?r = T"
    using w b by (simp add: win_def algebra_simps)
  have o: "odd (?r ! i)"
    using w b by (auto simp: win_def)
  have z: "?r ! j = 0" if "i < j" "j < i + (b + 1)" "j < 256" for j
    using w b that by (cases "j = i + b") (auto simp: win_def nth_list_update)
  have n: "5 \<le> b + 1" if "?r ! i < 0"
  proof -
    have "r ! i + 2 ^ b < 0"
      using that w b by (simp add: win_def)
    moreover have "(0 :: int) < 2 ^ b"
      by simp
    ultimately have "r ! i < 0"
      by linarith
    then show ?thesis
      using w by (simp add: win_def)
  qed
  have "bits_from (i + (b + 1)) ?r"
    using w b by (auto simp: win_def bits_from_def nth_list_update)
  then show ?thesis
    unfolding s by (intro winI v o z n) (use w b p in \<open>auto simp: win_def\<close>)
qed

lemma window_positive:
  fixes d :: int
  assumes "1 \<le> b" "15 < d + 2 ^ b" "- 15 \<le> d - 2 ^ b" "d \<le> 15" "odd d"
  shows "0 < d \<and> (d - 2 ^ b < 0 \<longrightarrow> 5 \<le> b + 1)"
proof -
  consider "b = 1" | "b = 2" | "b = 3" | "4 \<le> b"
    using assms(1) by linarith
  then show ?thesis
  proof cases
    case 4
    have "(2 :: int) ^ 4 \<le> 2 ^ b"
      using 4 by (intro power_increasing) simp_all
    with assms(3) 4 show ?thesis by simp
  qed (use assms in auto)
qed

lemma win_sub:
  assumes w: "win i b T r0 r" and c: "hi (i + b) r + 1 < 2 ^ (256 - (i + b))"
    and b: "1 \<le> b" "i + b < 256" "r ! (i + b) = 1" "15 < r ! i + 2 ^ b" "- 15 \<le> r ! i - 2 ^ b"
  shows "win i (b + 1) T r0 (slide_carry (i + b) (r[i := s8 (r ! i - 2 ^ b)]))"
proof -
  let ?k = "i + b" and ?d = "r ! i - 2 ^ b"
  have i: "i < length r" and ri: "r ! i \<le> 15" "odd (r ! i)" and len: "length r = 256"
    using w b by (auto simp: win_def)
  have neg: "?d < 0 \<longrightarrow> 5 \<le> b + 1"
    using window_positive [OF b(1,4,5) ri] by blast
  have "(0 :: int) < 2 ^ b"
    by simp
  then have d: "- 15 \<le> ?d" "?d \<le> 15"
    using b(5) ri by linarith+
  then have s: "s8 ?d = ?d"
    by (intro s8_id) auto
  let ?r = "r[i := ?d]"
  have h: "hi ?k ?r = hi ?k r"
    using b(1) by (simp add: hi_update)
  have no: "hi ?k ?r + 1 < 2 ^ (256 - ?k)"
    using c unfolding h .
  have "bits_from ?k ?r"
    using w b(1) by (auto simp: win_def bits_from_def nth_list_update)
  note c = slide_carry_sound [OF _ _ this no]
  let ?c = "slide_carry ?k ?r"
  have c': "length ?c = 256" "\<forall>j<?k. ?c ! j = ?r ! j" "bits_from ?k ?c" "hi ?k ?c = hi ?k r + 1" "?c ! ?k = 0"
    using c len b h by auto
  have "hi ?k ?c = 2 * hi (?k + 1) ?c"
    using c'(1,5) b(2) by (simp add: hi_step)
  then have "2 ^ (b + 1) * hi (i + (b + 1)) ?c = 2 ^ b * (hi ?k r + 1)"
    using c'(4) by (simp add: mult.assoc)
  then have v: "?d + 2 ^ (b + 1) * hi (i + (b + 1)) ?c = T"
    using w by (simp add: win_def distrib_left)
  have ci: "?c ! i = ?d"
    using c'(2) b(1) i by simp
  have z: "?c ! j = 0" if "i < j" "j < i + (b + 1)" "j < 256" for j
    using that c'(2,5) w b by (cases "j = ?k") (auto simp: win_def)
  have "odd ?d"
    using ri b(1) by auto
  then show ?thesis
    unfolding s
    by (intro winI z) (use c' v ci d neg w b(1) bits_from_mono [OF c'(3), of "i + (b + 1)"] in \<open>simp_all add: win_def\<close>)
qed

text \<open>The window at \<open>i\<close> after a lost carry: a digit, and nothing after it.\<close>

definition lost :: "nat \<Rightarrow> int \<Rightarrow> int list \<Rightarrow> int list \<Rightarrow> bool" where
  "lost i T r0 r \<longleftrightarrow> length r = 256 \<and> (\<forall>j<i. r ! j = r0 ! j) \<and> odd (r ! i) \<and> \<bar>r ! i\<bar> \<le> 15
     \<and> (\<forall>j. i < j \<longrightarrow> j < 256 \<longrightarrow> r ! j = 0) \<and> r ! i = T - 2 ^ (256 - i)"

lemma win_sub_lost:
  assumes w: "win i b T r0 r" and b: "1 \<le> b" "i + b < 256" "- 15 \<le> r ! i - 2 ^ b" "hi (i + b) r + 1 = 2 ^ (256 - (i + b))"
  shows "lost i T r0 (slide_carry (i + b) (r[i := s8 (r ! i - 2 ^ b)]))"
proof -
  let ?k = "i + b" and ?d = "r ! i - 2 ^ b"
  have r: "length r = 256" "\<forall>j<i. r ! j = r0 ! j" "odd (r ! i)" "\<bar>r ! i\<bar> \<le> 15" "\<forall>j. i < j \<longrightarrow> j < ?k \<longrightarrow> j < 256 \<longrightarrow> r ! j = 0"
    "bits_from ?k r" "r ! i + 2 ^ b * hi ?k r = T"
    using w by (simp_all add: win_def)
  have "(0 :: int) < 2 ^ b"
    by simp
  then have d: "\<bar>?d\<bar> \<le> 15"
    using b(3) r(4) by linarith
  have o: "odd ?d"
    using b(1) r(3) by auto
  have s: "s8 ?d = ?d"
    using d by (intro s8_id) auto
  let ?r = "r[i := ?d]"
  have "bits_from ?k ?r"
    using r(6) b(1) by (auto simp: bits_from_def nth_list_update)
  then have c: "slide_carry ?k ?r = take ?k ?r @ replicate (256 - ?k) 0"
    using r(1) b by (intro slide_carry_lost) (simp_all add: hi_update)
  have "2 ^ b * (hi ?k r + 1) = (2 :: int) ^ (256 - i)"
    unfolding b(4) using b(2) by (simp flip: power_add)
  then have "?d = T - 2 ^ (256 - i)"
    using r(7) by (simp add: distrib_left)
  then show ?thesis
    unfolding s lost_def c using r b d o by (auto simp: nth_append nth_list_update)
qed

text \<open>A carry is lost only if the bits stand for more than \<open>2 ^ 255\<close>.\<close>

lemma win_no_loss:
  assumes w: "win i b T r0 r" and T: "T \<le> 2 ^ (255 - i)" and b: "i + b < 256" and pos: "0 < r ! i"
  shows "hi (i + b) r + 1 < 2 ^ (256 - (i + b))"
proof -
  let ?k = "i + b"
  have "2 ^ b * hi ?k r < 2 ^ (255 - i)"
    using w T pos by (simp add: win_def)
  also have "(2 :: int) ^ (255 - i) = 2 ^ b * 2 ^ (255 - ?k)"
    using b by (simp flip: power_add)
  finally have "hi ?k r < 2 ^ (255 - ?k)"
    by simp
  moreover have "(2 :: int) ^ (256 - ?k) = 2 * 2 ^ (255 - ?k)"
    using b by (simp add: Suc_diff_le flip: power_Suc)
  ultimately show ?thesis
    by (smt (verit) zero_less_power)
qed

lemma window_break:
  fixes d :: int
  assumes "\<not> d + 2 ^ b \<le> 15" "\<not> - 15 \<le> d - 2 ^ b" "odd d"
  shows "5 \<le> b"
proof (rule ccontr)
  assume "\<not> 5 \<le> b"
  then consider "b = 0" | "b = 1" | "b = 2" | "b = 3" | "b = 4"
    by linarith
  then show False
    by cases (use assms in \<open>auto elim!: oddE\<close>)
qed

lemma slide_window_any:
  assumes "win i b T r0 r" "1 \<le> b"
  shows "(\<exists>b'\<ge>1. (5 \<le> b' \<or> 256 \<le> i + b') \<and> win i b' T r0 (slide_window i b r)) \<or> 2 ^ (255 - i) < T \<and> lost i T r0 (slide_window i b r)"
  using assms
proof (induction i b r rule: slide_window.induct)
  case (1 i b r)
  have ri: "r ! i \<le> 15" "odd (r ! i)" "length r = 256" "bits_from (i + b) r"
    using "1.prems"(1) by (auto simp: win_def)
  show ?case
  proof (cases "b \<le> 6 \<and> i + b < 256")
    case True
    then consider "r ! (i + b) = 0" | "r ! (i + b) = 1"
      using ri by (auto simp: bits_from_def)
    then show ?thesis
    proof cases
      case 1
      with True have "slide_window i b r = slide_window i (b + 1) r"
        by (subst slide_window.simps) simp
      then show ?thesis
        using "1.IH"(3) True 1 win_skip "1.prems" by auto
    next
      case 2
      show ?thesis
      proof (cases "r ! i + 2 ^ b \<le> 15")
        case add: True
        with 2 True have "slide_window i b r = slide_window i (b + 1) (r[i := s8 (r ! i + 2 ^ b), i + b := 0])"
          by (subst slide_window.simps) (simp add: push_bit_eq_mult)
        then show ?thesis
          using "1.IH"(1) True 2 add win_add "1.prems" by (simp add: push_bit_eq_mult)
      next
        case add: False
        show ?thesis
        proof (cases "- 15 \<le> r ! i - 2 ^ b")
          case sub: True
          let ?r = "slide_carry (i + b) (r[i := s8 (r ! i - 2 ^ b)])"
          have eq: "slide_window i b r = slide_window i (b + 1) ?r"
            using 2 True add sub by (subst slide_window.simps) (simp add: push_bit_eq_mult)
          show ?thesis
          proof (cases "hi (i + b) r + 1 < 2 ^ (256 - (i + b))")
            case no: True
            have "win i (b + 1) T r0 ?r"
              by (rule win_sub [OF "1.prems"(1) no "1.prems"(2)]) (use 2 True add sub in simp_all)
            then show ?thesis
              using "1.IH"(2) True 2 add sub "1.prems" unfolding eq by (simp add: push_bit_eq_mult)
          next
            case False
            then have "hi (i + b) r + 1 = 2 ^ (256 - (i + b))"
              using hi_less [OF ri(4,3)] True by simp
            then have l: "lost i T r0 ?r"
              using win_sub_lost [OF "1.prems"] True sub by blast
            moreover from this have "slide_window i (b + 1) ?r = ?r"
              by (intro slide_window_zeros) (simp_all add: lost_def)
            moreover have "2 ^ (255 - i) < T"
              using win_no_loss [OF "1.prems"(1)] window_positive [OF "1.prems"(2) _ sub ri(1,2)] True add False by fastforce
            ultimately show ?thesis
              unfolding eq by simp
          qed
        next
          case False
          with 2 True add have "slide_window i b r = r"
            by (subst slide_window.simps) (simp add: push_bit_eq_mult)
          then show ?thesis
            using "1.prems" window_break [OF add False ri(2)] by (intro disjI1 exI [of _ b]) simp
        qed
      qed
    qed
  next
    case False
    then have "slide_window i b r = r"
      by (subst slide_window.simps) (simp only: if_False)
    with "1.prems" False show ?thesis by auto
  qed
qed

lemma hi_zeros:
  "(\<And>j. k \<le> j \<Longrightarrow> j < k + n \<Longrightarrow> j < length r \<Longrightarrow> r ! j = 0) \<Longrightarrow> hi k r = 2 ^ n * hi (k + n) r"
proof (induction n)
  case (Suc n)
  have "hi (k + n) r = 2 * hi (k + Suc n) r"
    using Suc.prems [of "k + n"] by (cases "k + n < length r") (simp_all add: hi_step hi_end)
  then show ?case
    using Suc by simp
qed simp

lemma win_start:
  assumes "length r = 256" "bits_from i r" "i < 256" "r ! i \<noteq> 0"
  shows "win i 1 (hi i r) r r"
proof (rule winI)
  have one: "r ! i = 1"
    using assms by (auto simp: bits_from_def)
  then show "odd (r ! i)" "- 15 \<le> r ! i" "r ! i \<le> 15" "r ! i < 0 \<Longrightarrow> 5 \<le> (1 :: nat)"
    by simp_all
  show "bits_from (i + 1) r"
    using assms(2) by (rule bits_from_mono) simp
  show "r ! i + 2 ^ 1 * hi (i + 1) r = hi i r"
    using assms(1,3) by (simp add: hi_step)
qed (simp_all add: assms(1))

lemma win_done:
  assumes w: "win i b T r0 r" and b: "1 \<le> b" and l: "length r0 = 256"
  shows "length r = 256" "take i r = take i r0" "bits_from (Suc i) r" "r ! i + 2 * hi (Suc i) r = T"
proof -
  show "length r = 256" "take i r = take i r0"
    using w l by (auto simp: win_def intro: nth_equalityI)
  show "bits_from (Suc i) r"
    unfolding bits_from_def
  proof (intro allI impI)
    fix j assume "Suc i \<le> j" "j < length r"
    then show "r ! j = 0 \<or> r ! j = 1"
      using w by (cases "j < i + b") (auto simp: win_def bits_from_def)
  qed
  have "hi (Suc i) r = 2 ^ (b - 1) * hi (Suc i + (b - 1)) r"
    using w by (intro hi_zeros) (simp add: win_def)
  then have "2 * hi (Suc i) r = 2 ^ b * hi (i + b) r"
    using b by (cases b) simp_all
  then show "r ! i + 2 * hi (Suc i) r = T"
    using w by (simp add: win_def)
qed

lemma digit_sum_snoc: "digit_sum w (xs @ [x]) = digit_sum w xs + 2 ^ (w * length xs) * x"
  by (simp add: digit_sum_def lval_snoc)

text \<open>The invariant of the outer loop: the positions below \<open>i\<close> hold digits, the others bits, and the
  bits stand for at most \<open>2 ^ 255\<close>.\<close>

definition slide_digit :: "int \<Rightarrow> bool" where
  "slide_digit d \<longleftrightarrow> d = 0 \<or> odd d \<and> \<bar>d\<bar> \<le> 15"

definition slide_inv :: "int \<Rightarrow> nat \<Rightarrow> int list \<Rightarrow> bool" where
  "slide_inv V i r \<longleftrightarrow> length r = 256 \<and> (\<forall>j<i. slide_digit (r ! j)) \<and> bits_from i r
     \<and> digit_sum 1 (take i r) + 2 ^ i * hi i r = V \<and> hi i r \<le> 2 ^ (255 - i)"

lemma slide_half:
  assumes "i < 256" "2 * h \<le> 2 ^ (255 - i)" "i = 255 \<Longrightarrow> h = 0"
  shows "h \<le> (2 :: int) ^ (255 - Suc i)"
proof (cases "i = 255")
  case False
  then have "255 - i = Suc (255 - Suc i)"
    using assms(1) by simp
  then show ?thesis
    using assms(2) by simp
qed (use assms(3) in simp)

lemma slide_inv_Suc:
  assumes r: "slide_inv V i r" and i: "i < 256"
    and r': "length r' = 256" "take i r' = take i r" "slide_digit (r' ! i)" "bits_from (Suc i) r'"
      "r' ! i + 2 * hi (Suc i) r' = hi i r" "hi (Suc i) r' \<le> 2 ^ (255 - Suc i)"
  shows "slide_inv V (Suc i) r'"
proof -
  have "slide_digit (r' ! j)" if "j < Suc i" for j
  proof (cases "j = i")
    case False
    with that have j: "j < i" by simp
    have "r' ! j = r ! j"
      using r'(2) j by (metis nth_take)
    moreover have "slide_digit (r ! j)"
      using r j unfolding slide_inv_def by blast
    ultimately show ?thesis by simp
  qed (use r'(3) in simp)
  moreover have "digit_sum 1 (take (Suc i) r') = digit_sum 1 (take i r) + 2 ^ i * r' ! i"
    using i r'(1,2) r by (simp add: take_Suc_conv_app_nth digit_sum_snoc slide_inv_def)
  then have "digit_sum 1 (take (Suc i) r') + 2 ^ Suc i * hi (Suc i) r'
      = digit_sum 1 (take i r) + 2 ^ i * (r' ! i + 2 * hi (Suc i) r')"
    by (simp add: distrib_left)
  then have "digit_sum 1 (take (Suc i) r') + 2 ^ Suc i * hi (Suc i) r' = V"
    using r unfolding r'(5) by (simp add: slide_inv_def)
  ultimately show ?thesis
    using r' by (simp add: slide_inv_def)
qed

lemma slide_step:
  assumes r: "slide_inv V i r" and i: "i < 256"
  shows "slide_inv V (Suc i) (if r ! i \<noteq> 0 then slide_window i 1 r else r)"
proof (cases "r ! i = 0")
  case True
  have "hi i r = 2 * hi (Suc i) r"
    using r i True by (simp add: slide_inv_def hi_step)
  moreover from this have "2 * hi (Suc i) r \<le> 2 ^ (255 - i)"
    using r unfolding slide_inv_def by metis
  then have "hi (Suc i) r \<le> 2 ^ (255 - Suc i)"
    by (rule slide_half [OF i]) (use r in \<open>simp add: slide_inv_def hi_end\<close>)
  moreover have "bits_from (Suc i) r" "length r = 256"
    using r bits_from_mono [of i r "Suc i"] by (auto simp: slide_inv_def)
  ultimately have "slide_inv V (Suc i) r"
    using True by (intro slide_inv_Suc [OF r i]) (simp_all add: slide_digit_def)
  then show ?thesis
    using True by simp
next
  case False
  let ?r = "slide_window i 1 r"
  have r256: "length r = 256" "bits_from i r"
    using r by (simp_all add: slide_inv_def)
  then obtain b where b: "1 \<le> b" and w: "win i b (hi i r) r ?r"
    using slide_window_any [OF win_start [OF r256 i False]] r by (auto simp: slide_inv_def)
  note d = win_done [OF w b r256(1)]
  have h: "2 * hi (Suc i) ?r = 2 ^ b * hi (i + b) ?r"
    using d(4) w by (simp add: win_def)
  have T: "hi i r \<le> 2 ^ (255 - i)"
    using r by (simp add: slide_inv_def)
  have "hi (Suc i) ?r \<le> 2 ^ (255 - Suc i)"
  proof (cases "?r ! i < 0")
    case False
    then show ?thesis
      by (intro slide_half [OF i]) (use d(1,4) T in \<open>simp_all add: hi_end\<close>)
  next
    case True
    then have b5: "5 \<le> b" and neg: "- 15 \<le> ?r ! i"
      using w by (auto simp: win_def)
    show ?thesis
    proof (cases "i + b < 256")
      case ib: True
      then have e: "(2 :: int) ^ (255 - i) = 2 ^ b * 2 ^ (255 - (i + b))"
        by (simp flip: power_add)
      have "(2 :: int) ^ 5 \<le> 2 ^ b"
        using b5 by (intro power_increasing) simp_all
      moreover have "2 ^ b * hi (i + b) ?r \<le> 2 ^ b * 2 ^ (255 - (i + b)) + 15"
        using d(4) T neg unfolding h e by linarith
      ultimately have "2 ^ b * hi (i + b) ?r < 2 ^ b * (2 ^ (255 - (i + b)) + 1)"
        by (simp add: distrib_left)
      then have "hi (i + b) ?r \<le> 2 ^ (255 - (i + b))"
        by simp
      then have "2 * hi (Suc i) ?r \<le> 2 ^ (255 - i)"
        unfolding h e by simp
      then show ?thesis
        by (rule slide_half [OF i]) (use ib b in simp)
    next
      case False
      then have "hi (Suc i) ?r = 0"
        using h d(1) by (simp add: hi_end)
      then show ?thesis by simp
    qed
  qed
  moreover have "slide_digit (?r ! i)"
    using w by (simp add: slide_digit_def win_def)
  ultimately have "slide_inv V (Suc i) ?r"
    by (intro slide_inv_Suc [OF r i] d)
  then show ?thesis
    using False by simp
qed

lemma slide_bit:
  assumes "length a = 32" "i < 256"
  shows "uint (1 AND drop_bit (i mod 8) (a ! (i div 8))) = take_bit 1 (drop_bit (1 * i) (le a))"
proof -
  have "i div 8 < length a"
    using assms by simp
  then have "bit (a ! (i div 8)) (i mod 8) \<longleftrightarrow> bit (le a) i"
    by (simp add: bit_byte)
  moreover have "uint (1 AND drop_bit (i mod 8) (a ! (i div 8))) = of_bool (bit (a ! (i div 8)) (i mod 8))"
    by (simp add: one_and_eq mod2_eq_if bit_iff_odd_drop_bit)
  moreover have "take_bit 1 (drop_bit (1 * i) (le a)) = of_bool (bit (le a) i)"
    by (simp add: take_bit_Suc_0 mod2_eq_if bit_iff_odd_drop_bit take_bit_eq_mod)
  ultimately show ?thesis by simp
qed

lemma slide_bits_facts:
  assumes "length a = 32"
  shows "length (slide_bits a) = 256" "bits_from 0 (slide_bits a)" "digit_sum 1 (slide_bits a) = le a"
proof -
  have l: "length (slide_bits a) = 256"
    unfolding slide_bits_def by (simp only: length_map length_upt)
  have n: "slide_bits a ! i = take_bit 1 (drop_bit (1 * i) (le a))" if "i < 256" for i
    unfolding slide_bits_def using that by (simp only: nth_map length_upt nth_upt slide_bit assms) simp
  have "bits_from 0 (slide_bits a)"
    unfolding bits_from_def l
  proof (intro allI impI)
    fix j assume "j < (256 :: nat)"
    then show "slide_bits a ! j = 0 \<or> slide_bits a ! j = 1"
      using n [of j] by (simp add: take_bit_eq_mod mod2_eq_if)
  qed
  moreover have "digit_sum 1 (slide_bits a) = (\<Sum>i<256. take_bit 1 (drop_bit (1 * i) (le a)) * 2 ^ (1 * i))"
    unfolding digit_sum_def lval_def l by (rule sum.cong) (simp_all add: n)
  then have "digit_sum 1 (slide_bits a) = le a"
    using le_less [of a] unfolding digits_sum by (simp add: assms take_bit_int_eq_self)
  ultimately show "length (slide_bits a) = 256" "bits_from 0 (slide_bits a)" "digit_sum 1 (slide_bits a) = le a"
    using l by simp_all
qed

lemma slide_bits_sound: "length a = 32 \<Longrightarrow> slide_inv (le a) 0 (slide_bits a) \<longleftrightarrow> le a \<le> 2 ^ 255"
  using slide_bits_facts [of a] by (simp add: slide_inv_def hi_def)

text \<open>The loop over all positions.\<close>

lemma slide_sound:
  assumes "length a = 32" "le a \<le> 2 ^ 255"
  shows "slide_inv (le a) 256 (slide a)"
proof -
  have "slide_inv (le a) n (foldl (\<lambda>r i. if r ! i \<noteq> 0 then slide_window i 1 r else r) (slide_bits a) [0..<n])"
    if "n \<le> 256" for n
    using that
  proof (induction n)
    case 0
    then show ?case
      using slide_bits_sound [OF assms(1)] assms(2) by simp
  next
    case (Suc n)
    then show ?case
      using slide_step by (simp only: upt_Suc_append le0 foldl_append foldl.simps Suc_le_eq)
  qed
  then show ?thesis
    unfolding slide_def by blast
qed

text \<open>In terms of the positions from \<open>0\<close> on, and for the zero scalar.\<close>

lemma slide_facts:
  assumes "length a = 32" "le a \<le> 2 ^ 255"
  shows "length (slide a) = 256" "j < 256 \<Longrightarrow> slide_digit (slide a ! j)" "hi 0 (slide a) = le a"
proof -
  note s = slide_sound [OF assms]
  show l: "length (slide a) = 256" "j < 256 \<Longrightarrow> slide_digit (slide a ! j)"
    using s by (simp_all add: slide_inv_def)
  show "hi 0 (slide a) = le a"
    using s l(1) by (simp add: slide_inv_def hi_end) (simp add: hi_def)
qed

lemma slide_zero:
  assumes "length a = 32" "le a = 0"
  shows "slide a = replicate 256 0"
proof -
  have "a = replicate 32 0"
    using assms by (simp add: le_eq_0_iff replicate_eqI)
  moreover have "slide (replicate 32 0) = replicate 256 0"
    by code_simp
  ultimately show ?thesis
    by simp
qed

section \<open>Scalars above the bound\<close>

text \<open>
  The invariant for all scalars \<open>V\<close>: the digits and the bits stand for \<open>V\<close>, or the carry was lost and no bits are left.  If the five highest bits of
  \<open>V\<close> are set, they stay set until it is lost.
\<close>

definition any_inv :: "int \<Rightarrow> nat \<Rightarrow> int list \<Rightarrow> bool" where
  "any_inv V i r \<longleftrightarrow> length r = 256 \<and> bits_from i r
     \<and> (digit_sum 1 (take i r) + 2 ^ i * hi i r = V \<and> (2 ^ 256 - 2 ^ 251 \<le> V \<longrightarrow> i \<le> 251 \<and> 31 * 2 ^ (251 - i) \<le> hi i r)
       \<or> digit_sum 1 (take i r) = V - 2 ^ 256 \<and> (\<forall>j. i \<le> j \<longrightarrow> j < 256 \<longrightarrow> r ! j = 0))"

text \<open>A digit and a multiple of 32 cannot stand for the five highest bits.\<close>

lemma high_bits:
  fixes h d T :: int
  assumes "d + 32 * h = T" "d \<le> 15" "31 * 2 ^ (251 - i) \<le> T" "i \<le> 251" "h < 2 ^ (251 - i)"
  shows "i \<le> 246 \<and> 31 * 2 ^ (246 - i) \<le> h"
proof (cases "i \<le> 246")
  case True
  then have "(2 :: int) ^ (251 - i) = 32 * 2 ^ (246 - i)"
    using power_add [of "2 :: int" 5 "246 - i"] by simp
  then show ?thesis
    using assms(1-3) True by simp
next
  case False
  then have "(2 :: int) ^ (251 - i) \<le> 2 ^ 4"
    by (intro power_increasing) simp_all
  then show ?thesis
    using assms by simp
qed

lemma any_inv_Suc:
  assumes "any_inv V i r" "i < 256" "length r' = 256" "take i r' = take i r" "bits_from (Suc i) r'"
    "digit_sum 1 (take i r) + 2 ^ i * hi i r = V" "r' ! i + 2 * hi (Suc i) r' = hi i r"
    "2 ^ 256 - 2 ^ 251 \<le> V \<Longrightarrow> Suc i \<le> 251 \<and> 31 * 2 ^ (251 - Suc i) \<le> hi (Suc i) r'"
  shows "any_inv V (Suc i) r'"
proof -
  have "digit_sum 1 (take (Suc i) r') = digit_sum 1 (take i r) + 2 ^ i * r' ! i"
    using assms(1-4) by (simp add: take_Suc_conv_app_nth digit_sum_snoc any_inv_def)
  then have "digit_sum 1 (take (Suc i) r') + 2 ^ Suc i * hi (Suc i) r' = digit_sum 1 (take i r) + 2 ^ i * (r' ! i + 2 * hi (Suc i) r')"
    by (simp add: distrib_left)
  then show ?thesis
    using assms(3,5,6,8) unfolding assms(7) by (simp add: any_inv_def)
qed

lemma any_step_zero:
  assumes "any_inv V i r" "i < 256" "r ! i = 0"
  shows "any_inv V (Suc i) r"
proof -
  have l: "length r = 256" "bits_from (Suc i) r"
    using assms(1) bits_from_mono [of i r "Suc i"] by (simp_all add: any_inv_def)
  have h: "hi i r = 2 * hi (Suc i) r" "hi (Suc i) r < 2 ^ (256 - Suc i)"
    using hi_step [of i r] hi_less [OF l(2,1)] l assms(2,3) by simp_all
  consider "digit_sum 1 (take i r) + 2 ^ i * hi i r = V" "2 ^ 256 - 2 ^ 251 \<le> V \<longrightarrow> i \<le> 251 \<and> 31 * 2 ^ (251 - i) \<le> hi i r"
    | "digit_sum 1 (take i r) = V - 2 ^ 256" "\<forall>j. i \<le> j \<longrightarrow> j < 256 \<longrightarrow> r ! j = 0"
    using assms(1) unfolding any_inv_def by blast
  then show ?thesis
  proof cases
    case 1
    have "Suc i \<le> 251 \<and> 31 * 2 ^ (251 - Suc i) \<le> hi (Suc i) r" if "2 ^ 256 - 2 ^ 251 \<le> V"
    proof (cases "i = 251")
      case True
      then show ?thesis
        using 1(2) that h by simp
    next
      case False
      then have "251 - i = Suc (251 - Suc i)"
        using 1(2) that by linarith
      then have "(2 :: int) ^ (251 - i) = 2 * 2 ^ (251 - Suc i)" "Suc i \<le> 251"
        by simp_all
      then show ?thesis
        using 1(2) that h(1) by simp
    qed
    then show ?thesis
      by (intro any_inv_Suc [OF assms(1,2)]) (use 1(1) l h(1) assms(3) in simp_all)
  next
    case 2
    then show ?thesis
      using l assms by (simp add: any_inv_def take_Suc_conv_app_nth digit_sum_snoc)
  qed
qed

lemma any_step_window:
  assumes "any_inv V i r" "i < 256" "r ! i \<noteq> 0"
  shows "any_inv V (Suc i) (slide_window i 1 r)"
proof -
  let ?r = "slide_window i 1 r"
  have l: "length r = 256" "bits_from i r" and v: "digit_sum 1 (take i r) + 2 ^ i * hi i r = V"
    "2 ^ 256 - 2 ^ 251 \<le> V \<longrightarrow> i \<le> 251 \<and> 31 * 2 ^ (251 - i) \<le> hi i r"
    using assms unfolding any_inv_def by blast+
  consider b where "1 \<le> b" "5 \<le> b \<or> 256 \<le> i + b" "win i b (hi i r) r ?r" | "lost i (hi i r) r ?r"
    using slide_window_any [OF win_start [OF l(1,2) assms(2,3)]] by auto
  then show ?thesis
  proof cases
    case (1 b)
    note d = win_done [OF 1(3,1) l(1)]
    have "Suc i \<le> 251 \<and> 31 * 2 ^ (251 - Suc i) \<le> hi (Suc i) ?r" if V: "2 ^ 256 - 2 ^ 251 \<le> V"
    proof -
      have i: "i \<le> 251" "31 * 2 ^ (251 - i) \<le> hi i r"
        using v(2) V by simp_all
      have z: "hi (Suc i) ?r = 2 ^ 4 * hi (Suc i + 4) ?r"
        using 1(2,3) by (intro hi_zeros) (auto simp: win_def)
      have "bits_from (Suc i + 4) ?r"
        using d(3) by (rule bits_from_mono) simp
      then have "hi (Suc i + 4) ?r < 2 ^ (251 - i)"
        using hi_less [of "Suc i + 4" ?r] d(1) i(1) by simp
      moreover have "?r ! i + 32 * hi (Suc i + 4) ?r = hi i r"
        using d(4) z by simp
      moreover have "?r ! i \<le> 15"
        using 1(3) unfolding win_def by linarith
      ultimately have "i \<le> 246" "31 * 2 ^ (246 - i) \<le> hi (Suc i + 4) ?r"
        using high_bits [OF _ _ i(2,1)] by blast+
      moreover from this have "251 - Suc i = 4 + (246 - i)"
        by linarith
      then have "(2 :: int) ^ (251 - Suc i) = 2 ^ 4 * 2 ^ (246 - i)"
        by (simp only: power_add)
      ultimately show ?thesis
        using z by simp
    qed
    then show ?thesis
      by (intro any_inv_Suc [OF assms(1,2) d(1,2,3) v(1) d(4)])
  next
    case 2
    then have z: "length ?r = 256" "take i ?r = take i r" "\<forall>j. Suc i \<le> j \<longrightarrow> j < 256 \<longrightarrow> ?r ! j = 0" "?r ! i = hi i r - 2 ^ (256 - i)"
      using l(1) by (auto simp: lost_def intro: nth_equalityI)
    have "2 ^ i * (hi i r - 2 ^ (256 - i)) = 2 ^ i * hi i r - 2 ^ 256"
      using assms(2) by (simp add: right_diff_distrib flip: power_add)
    then have "digit_sum 1 (take (Suc i) ?r) = V - 2 ^ 256"
      using z v(1) assms(2) l(1) by (simp add: take_Suc_conv_app_nth digit_sum_snoc)
    then show ?thesis
      using z by (auto simp: any_inv_def bits_from_def)
  qed
qed

lemma slide_any:
  assumes "length a = 32"
  shows "any_inv (le a) 256 (slide a)"
proof -
  have "any_inv (le a) n (foldl (\<lambda>r i. if r ! i \<noteq> 0 then slide_window i 1 r else r) (slide_bits a) [0..<n])" if "n \<le> 256" for n
    using that
  proof (induction n)
    case 0
    have "(2 :: int) ^ 256 - 2 ^ 251 = 31 * 2 ^ (251 - 0)"
      by simp
    then show ?case
      using slide_bits_facts [OF assms] by (simp add: any_inv_def hi_def)
  next
    case (Suc n)
    then show ?case
      using any_step_zero any_step_window by (simp only: upt_Suc_append le0 foldl_append foldl.simps Suc_le_eq if_splits) auto
  qed
  then show ?thesis
    unfolding slide_def by blast
qed

section \<open>Byte tests\<close>

lemma drop_bit_word_small:
  fixes w :: "'a :: len word"
  assumes "uint w < 2 ^ n"
  shows "drop_bit n w = 0"
proof (rule word_uint_eqI)
  have "take_bit LENGTH('a) (uint w) = uint w"
    by (rule take_bit_int_eq_self) simp_all
  then have "uint (drop_bit n w) = drop_bit n (uint w)"
    by (simp only: unsigned_drop_bit_eq)
  also have "\<dots> = 0"
    unfolding drop_bit_eq_div using assms by (intro div_pos_pos_trivial) simp_all
  finally show "uint (drop_bit n w) = uint (0 :: 'a word)"
    by simp
qed

lemma negative_c_sound:
  assumes "- 128 \<le> b" "b < 128"
  shows "negative_c b = of_bool (b < 0)"
proof (cases "b < 0")
  case True
  have "uint (word_of_int b :: u64) = b mod 2 ^ 64"
    by (simp add: uint_word_of_int)
  also have "b mod 2 ^ 64 = (b + 2 ^ 64) mod 2 ^ 64"
    by simp
  also have "\<dots> = b + 2 ^ 64"
    using True assms by (intro mod_pos_pos_trivial) simp_all
  finally have u: "uint (word_of_int b :: u64) = b + 2 ^ 64" .
  have "uint (drop_bit 63 (word_of_int b :: u64)) = drop_bit 63 (b + 2 ^ 64)"
    using True assms by (simp add: unsigned_drop_bit_eq u take_bit_int_eq_self)
  also have "\<dots> = (b + 2 ^ 64) div 2 ^ 63"
    by (simp add: drop_bit_eq_div)
  also have "\<dots> = 1"
    using True assms by simp
  finally have "drop_bit 63 (word_of_int b :: u64) = 1"
    by (simp add: word_uint_eqI)
  then show ?thesis
    using True by (simp add: negative_c_def)
next
  case False
  have "uint (word_of_int b :: u64) = b"
    using False assms by (simp add: uint_word_of_int)
  then have "drop_bit 63 (word_of_int b :: u64) = 0"
    using False assms by (intro drop_bit_word_small) simp
  then show ?thesis
    using False by (simp add: negative_c_def)
qed

lemma babs_sound:
  assumes "- 128 \<le> b" "b < 128"
  shows "uint (babs b) = \<bar>b\<bar>"
proof -
  have "babs b = word_of_int \<bar>b\<bar>"
    using assms by (simp add: babs_def negative_c_sound push_bit_eq_mult)
  then show ?thesis
    using assms by (simp add: uint_word_of_int)
qed

lemma equal_c_sound:
  assumes "- 128 \<le> b" "b < 256" "- 128 \<le> c" "c < 128" "b < 128"
  shows "equal_c b c = of_bool (b = c)"
proof -
  have eq: "(word_of_int b :: byte) = word_of_int c \<longleftrightarrow> b = c"
  proof
    assume "(word_of_int b :: byte) = word_of_int c"
    then have "256 dvd b - c"
      by (simp add: word_of_int_eq_iff take_bit_eq_mod mod_eq_dvd_iff)
    then obtain k where k: "b - c = 256 * k" ..
    with assms have "- 1 < k" "k < 1"
      by linarith+
    with k show "b = c"
      by simp
  qed simp
  show ?thesis
  proof (cases "b = c")
    case True
    then show ?thesis
      by (simp add: equal_c_def)
  next
    case False
    define x where "x = (word_of_int b :: byte) XOR word_of_int c"
    have "(word_of_int b :: byte) XOR x = word_of_int c"
      by (simp add: x_def xor.assoc [symmetric])
    then have "x \<noteq> 0"
      using False eq by auto
    then have x: "0 < uint x" "uint x < 256"
      using uint_bounded [of x] by (simp_all add: less_le uint_0_iff)
    have "(ucast x - 1 :: u32) = word_of_int (uint x - 1)"
      by simp
    then have "uint (ucast x - 1 :: u32) = (uint x - 1) mod 4294967296"
      by (simp only: uint_word_of_int) simp
    also have "\<dots> = uint x - 1"
      using x by (intro mod_pos_pos_trivial) linarith+
    finally have "uint (ucast x - 1 :: u32) < 2147483648"
      using x by linarith
    then have "drop_bit 31 (ucast x - 1 :: u32) = 0"
      by (intro drop_bit_word_small) (simp only: power_numeral_even power_numeral_odd, simp)
    then show ?thesis
      using False by (simp add: equal_c_def x_def [symmetric])
  qed
qed

section \<open>What the recodings compute\<close>

lemma le_last_bound:
  assumes "length a = 32" "le a < 2 ^ 255"
  shows "uint (last a) < 128"
proof -
  have ne: "a \<noteq> []"
    using assms(1) by auto
  have "le a = le (butlast a @ [last a])"
    using ne by simp
  also have "\<dots> = le (butlast a) + 2 ^ 248 * uint (last a)"
    unfolding le_append by (simp add: assms(1))
  finally have sum: "le a = le (butlast a) + 2 ^ 248 * uint (last a)" .
  have pow: "(2 :: int) ^ 255 = 2 ^ 248 * 128"
    by simp
  have "2 ^ 248 * uint (last a) < 2 ^ 248 * (128 :: int)"
    using assms(2) le_nonneg [of "butlast a"] unfolding sum pow by linarith
  then show ?thesis
    by (simp only: mult_less_cancel_left) simp
qed

lemma recode_facts:
  assumes "length a = 32" "le a < 2 ^ 255"
  shows "length (recode a) = 64" "digit_sum 4 (recode a) = le a"
    "\<forall>d \<in> set (recode a). - 8 \<le> d \<and> d \<le> 8"
proof -
  have ne: "a \<noteq> []"
    using assms(1) by auto
  have "uint (last a) < 128"
    using le_last_bound [OF assms] .
  then have "uint (last a) div 16 \<le> 7"
    by simp
  then have "last (nibbles a) \<le> 7"
    using last_nibbles [OF ne] by simp
  moreover have "nibbles a \<noteq> []"
    using length_nibbles [of a] ne by auto
  ultimately show "length (recode a) = 64" "digit_sum 4 (recode a) = le a"
    "\<forall>d \<in> set (recode a). - 8 \<le> d \<and> d \<le> 8"
    using nibble_carry_sound [of 0 "nibbles a"] nibbles_range assms(1)
    by (simp_all add: recode_def byte_carry_nibble digit_sum_nibbles length_nibbles)
qed

text \<open>
  Claim C22.  For a scalar up to \<open>2 ^ 255\<close>, the 256 digits of \<^verbatim>\<open>slide\<close> sum to the scalar, and each
  is 0 or odd and at most 15 in absolute value, which is what the tables of odd multiples cover.
\<close>

theorem slide_correct:
  assumes "length a = 32" "le a \<le> 2 ^ 255"
  shows "length (slide a) = 256 \<and> digit_sum 1 (slide a) = le a
    \<and> (\<forall>d \<in> set (slide a). d = 0 \<or> odd d \<and> - 15 \<le> d \<and> d \<le> 15)"
proof (intro conjI ballI)
  note s = slide_facts [OF assms]
  show "length (slide a) = 256" "digit_sum 1 (slide a) = le a"
    using s by (simp_all add: hi_def)
  show "d = 0 \<or> odd d \<and> - 15 \<le> d \<and> d \<le> 15" if d: "d \<in> set (slide a)" for d
  proof -
    obtain j where "j < 256" "d = slide a ! j"
      using d s(1) by (auto simp: in_set_conv_nth)
    then have "slide_digit d"
      using s(2) by simp
    then show ?thesis
      by (auto simp: slide_digit_def)
  qed
qed

theorem slide_correct_witness:
  "digit_sum 1 (slide (231 # replicate 31 0)) = 231 \<and> length (slide (231 # replicate 31 0)) = 256"
  using slide_correct [of "231 # replicate 31 0"] by simp

text \<open>
  Claim C40.  For a scalar below \<open>2 ^ 255\<close> the 64 digits of \<^verbatim>\<open>ge_scalarmult\<close> and of
  \<^verbatim>\<open>ge_scalarmult_base\<close> sum to the scalar in radix 16, and each is between \<open>-8\<close> and \<open>8\<close>.
\<close>

theorem recode_correct:
  assumes "length a = 32" "le a < 2 ^ 255"
  shows "length (recode a) = 64 \<and> digit_sum 4 (recode a) = le a
    \<and> (\<forall>d \<in> set (recode a). - 8 \<le> d \<and> d \<le> 8)"
  using recode_facts [OF assms] by blast

theorem recode_correct_witness:
  "digit_sum 4 (recode (248 # replicate 31 0)) = 248 \<and> length (recode (248 # replicate 31 0)) = 64"
  using recode_correct [of "248 # replicate 31 0"] by simp

text \<open>
  Claim Lemma.  The byte-wise recoding of \<^verbatim>\<open>ge_scalarmult\<close> and the nibble-wise recoding of
  \<^verbatim>\<open>ge_scalarmult_base\<close> give the same digits for every input.
\<close>

theorem recode_equiv: "recode a = recode_base a"
  by (rule recode_same)

text \<open>
  Claim C39.  For every scalar the digits of \<^verbatim>\<open>slide\<close> sum to the scalar, or the carry out of position 255 is lost and they sum to the
  scalar less \<open>2 ^ 256\<close>; the carry is lost for every scalar whose five highest bits are set.
\<close>

theorem slide_overflow:
  assumes "length a = 32"
  shows "(digit_sum 1 (slide a) = le a \<or> digit_sum 1 (slide a) = le a - 2 ^ 256)
    \<and> (2 ^ 256 - 2 ^ 251 \<le> le a \<longrightarrow> digit_sum 1 (slide a) = le a - 2 ^ 256)"
  using slide_any [OF assms] by (auto simp: any_inv_def hi_end)

theorem slide_overflow_witness:
  "digit_sum 1 (slide (replicate 32 255)) = - 1"
  using slide_overflow [of "replicate 32 255"] by (simp add: le_replicate_255)

text \<open>
  Claim Lemma.  For a digit \<open>b\<close> in the range of \<^verbatim>\<open>signed char\<close> except \<open>-128\<close>, the branch-free tests
  give: \<^verbatim>\<open>negative\<close> the sign of \<open>b\<close>, \<^verbatim>\<open>babs\<close> its absolute value, and \<^verbatim>\<open>equal\<close> equality.
\<close>

theorem select_tests_correct:
  assumes "- 128 < b" "b < 128" "- 128 \<le> c" "c < 128"
  shows "negative_c b = of_bool (b < 0) \<and> uint (babs b) = \<bar>b\<bar> \<and> equal_c b c = of_bool (b = c)"
  using negative_c_sound [of b] babs_sound [of b] equal_c_sound [of b c] assms by simp

end
