(* ===== verification/ScalarMult.thy ===== *)
theory ScalarMult
  imports Tables Recode
begin

text \<open>
  The scalar multiplications of \<^verbatim>\<open>crypto-ops.c\<close>: fixed windows with constant-time table lookups
  (\<^verbatim>\<open>ge_scalarmult\<close>, \<^verbatim>\<open>ge_scalarmult_base\<close>) and sliding windows for two scalars at a time
  (\<^verbatim>\<open>ge_double_scalarmult_*\<close>).
\<close>

section \<open>The loops\<close>

text \<open>
  The downward loops over digits.  The body computes \<^verbatim>\<open>t\<close> from \<^verbatim>\<open>r\<close>; the plain loop converts it to
  \<^verbatim>\<open>r\<close>, the \<^verbatim>\<open>_p3\<close> loop writes \<^verbatim>\<open>r3\<close> in the last iteration only, so that its result is the value that
  \<^verbatim>\<open>r3\<close> had before when there is no iteration.
\<close>

primrec digit_loop :: "(nat \<Rightarrow> ge_p2 \<Rightarrow> ge_p1p1) \<Rightarrow> nat \<Rightarrow> ge_p2 \<Rightarrow> ge_p2" where
  "digit_loop body 0 r = r"
| "digit_loop body (Suc i) r = (let t = body i r in digit_loop body i (ge_p1p1_to_p2 t))"

primrec digit_loop_p3 :: "(nat \<Rightarrow> ge_p2 \<Rightarrow> ge_p1p1) \<Rightarrow> nat \<Rightarrow> ge_p2 \<Rightarrow> ge_p3 \<Rightarrow> ge_p3" where
  "digit_loop_p3 body 0 r r3 = r3"
| "digit_loop_p3 body (Suc i) r r3 =
     (let t = body i r
      in if i = 0 then digit_loop_p3 body i r (ge_p1p1_to_p3 t)
         else digit_loop_p3 body i (ge_p1p1_to_p2 t) r3)"

section \<open>Two scalars, sliding windows\<close>

definition ge_dsm_precomp :: "ge_p3 \<Rightarrow> ge_cached list" where
  "ge_dsm_precomp s =
     (let r0 = ge_p3_to_cached s;
          t = ge_p3_dbl s; s2 = ge_p1p1_to_p3 t;
          t = ge_add s2 r0; u = ge_p1p1_to_p3 t; r1 = ge_p3_to_cached u;
          t = ge_add s2 r1; u = ge_p1p1_to_p3 t; r2 = ge_p3_to_cached u;
          t = ge_add s2 r2; u = ge_p1p1_to_p3 t; r3 = ge_p3_to_cached u;
          t = ge_add s2 r3; u = ge_p1p1_to_p3 t; r4 = ge_p3_to_cached u;
          t = ge_add s2 r4; u = ge_p1p1_to_p3 t; r5 = ge_p3_to_cached u;
          t = ge_add s2 r5; u = ge_p1p1_to_p3 t; r6 = ge_p3_to_cached u;
          t = ge_add s2 r6; u = ge_p1p1_to_p3 t; r7 = ge_p3_to_cached u
      in [r0, r1, r2, r3, r4, r5, r6, r7])"

text \<open>A digit of the first scalar, and of the second when it has a table of \<^verbatim>\<open>ge_precomp\<close>.\<close>

definition dsm_add :: "ge_cached list \<Rightarrow> int \<Rightarrow> ge_p1p1 \<Rightarrow> ge_p1p1" where
  "dsm_add Ai d t =
     (if d > 0 then let u = ge_p1p1_to_p3 t in ge_add u (Ai ! nat (d div 2))
      else if d < 0 then let u = ge_p1p1_to_p3 t in ge_sub u (Ai ! nat ((- d) div 2))
      else t)"

definition dsm_madd :: "ge_precomp list \<Rightarrow> int \<Rightarrow> ge_p1p1 \<Rightarrow> ge_p1p1" where
  "dsm_madd Bi d t =
     (if d > 0 then let u = ge_p1p1_to_p3 t in ge_madd u (Bi ! nat (d div 2))
      else if d < 0 then let u = ge_p1p1_to_p3 t in ge_msub u (Bi ! nat ((- d) div 2))
      else t)"

text \<open>The loop that skips leading zeros, from \<open>i\<close> down; its result is one more than the \<^verbatim>\<open>i\<close> at which
  it stops.\<close>

primrec dsm_top :: "int list \<Rightarrow> int list \<Rightarrow> nat \<Rightarrow> nat" where
  "dsm_top aslide bslide 0 = 0"
| "dsm_top aslide bslide (Suc i) =
     (if aslide ! i \<noteq> 0 \<or> bslide ! i \<noteq> 0 then Suc i else dsm_top aslide bslide i)"

definition dsm_body :: "ge_cached list \<Rightarrow> (int \<Rightarrow> ge_p1p1 \<Rightarrow> ge_p1p1) \<Rightarrow> int list \<Rightarrow> int list \<Rightarrow> nat \<Rightarrow> ge_p2 \<Rightarrow> ge_p1p1" where
  "dsm_body Ai badd aslide bslide i r =
     (let t = ge_p2_dbl r;
          t = dsm_add Ai (aslide ! i) t
      in badd (bslide ! i) t)"

text \<open>The table of the base point is an argument here; the code's functions use \<^term>\<open>ge_Bi\<close>.\<close>

definition base_vartime_from :: "ge_precomp list \<Rightarrow> byte list \<Rightarrow> ge_p3 \<Rightarrow> byte list \<Rightarrow> ge_p2" where
  "base_vartime_from Bi a A b =
     (let aslide = slide a; bslide = slide b; Ai = ge_dsm_precomp A
      in digit_loop (dsm_body Ai (dsm_madd Bi) aslide bslide) (dsm_top aslide bslide 256) ge_p2_0)"

definition base_vartime_p3_from :: "ge_precomp list \<Rightarrow> ge_p3 \<Rightarrow> byte list \<Rightarrow> ge_p3 \<Rightarrow> byte list \<Rightarrow> ge_p3" where
  "base_vartime_p3_from Bi r3 a A b =
     (let aslide = slide a; bslide = slide b; Ai = ge_dsm_precomp A
      in digit_loop_p3 (dsm_body Ai (dsm_madd Bi) aslide bslide) (dsm_top aslide bslide 256) ge_p2_0 r3)"

definition ge_double_scalarmult_base_vartime :: "byte list \<Rightarrow> ge_p3 \<Rightarrow> byte list \<Rightarrow> ge_p2" where
  "ge_double_scalarmult_base_vartime = base_vartime_from ge_Bi"

definition ge_double_scalarmult_base_vartime_p3 :: "ge_p3 \<Rightarrow> byte list \<Rightarrow> ge_p3 \<Rightarrow> byte list \<Rightarrow> ge_p3" where
  "ge_double_scalarmult_base_vartime_p3 = base_vartime_p3_from ge_Bi"

definition ge_double_scalarmult_precomp_vartime2 ::
  "byte list \<Rightarrow> ge_cached list \<Rightarrow> byte list \<Rightarrow> ge_cached list \<Rightarrow> ge_p2" where
  "ge_double_scalarmult_precomp_vartime2 a Ai b Bi =
     (let aslide = slide a; bslide = slide b
      in digit_loop (dsm_body Ai (dsm_add Bi) aslide bslide) (dsm_top aslide bslide 256) ge_p2_0)"

definition ge_double_scalarmult_precomp_vartime2_p3 ::
  "ge_p3 \<Rightarrow> byte list \<Rightarrow> ge_cached list \<Rightarrow> byte list \<Rightarrow> ge_cached list \<Rightarrow> ge_p3" where
  "ge_double_scalarmult_precomp_vartime2_p3 r3 a Ai b Bi =
     (let aslide = slide a; bslide = slide b
      in digit_loop_p3 (dsm_body Ai (dsm_add Bi) aslide bslide) (dsm_top aslide bslide 256) ge_p2_0 r3)"

definition ge_double_scalarmult_precomp_vartime ::
  "byte list \<Rightarrow> ge_p3 \<Rightarrow> byte list \<Rightarrow> ge_cached list \<Rightarrow> ge_p2" where
  "ge_double_scalarmult_precomp_vartime a A b Bi =
     (let Ai = ge_dsm_precomp A in ge_double_scalarmult_precomp_vartime2 a Ai b Bi)"

section \<open>One scalar, fixed windows\<close>

text \<open>\<^verbatim>\<open>Ai\<close> is \<open>A, 2 A, \<dots>, 8 A\<close>.\<close>

definition scalarmult_table :: "ge_p3 \<Rightarrow> ge_cached list" where
  "scalarmult_table A =
     foldl (\<lambda>Ai i. let t = ge_add A (Ai ! i); u = ge_p1p1_to_p3 t in Ai @ [ge_p3_to_cached u])
       [ge_p3_to_cached A] [0, 1, 2, 3, 4, 5, 6]"

definition cached_select :: "ge_cached list \<Rightarrow> int \<Rightarrow> ge_cached" where
  "cached_select Ai b =
     (let bnegative = negative_c b;
          babs = sint (babs b);
          cur = ge_cached_0;
          cur = ge_cached_cmov cur (Ai ! 0) (equal_c babs 1);
          cur = ge_cached_cmov cur (Ai ! 1) (equal_c babs 2);
          cur = ge_cached_cmov cur (Ai ! 2) (equal_c babs 3);
          cur = ge_cached_cmov cur (Ai ! 3) (equal_c babs 4);
          cur = ge_cached_cmov cur (Ai ! 4) (equal_c babs 5);
          cur = ge_cached_cmov cur (Ai ! 5) (equal_c babs 6);
          cur = ge_cached_cmov cur (Ai ! 6) (equal_c babs 7);
          cur = ge_cached_cmov cur (Ai ! 7) (equal_c babs 8);
          minuscur = \<lparr>YplusX = fe_copy (YminusX cur), YminusX = fe_copy (YplusX cur),
            c_Z = fe_copy (c_Z cur), T2d = fe_neg (T2d cur)\<rparr>
      in ge_cached_cmov cur minuscur bnegative)"

definition scalarmult_body :: "ge_cached list \<Rightarrow> int list \<Rightarrow> nat \<Rightarrow> ge_p2 \<Rightarrow> ge_p1p1" where
  "scalarmult_body Ai e i r =
     (let b = e ! i;
          t = ge_p2_dbl r; r = ge_p1p1_to_p2 t;
          t = ge_p2_dbl r; r = ge_p1p1_to_p2 t;
          t = ge_p2_dbl r; r = ge_p1p1_to_p2 t;
          t = ge_p2_dbl r; u = ge_p1p1_to_p3 t;
          cur = cached_select Ai b
      in ge_add u cur)"

definition ge_scalarmult :: "byte list \<Rightarrow> ge_p3 \<Rightarrow> ge_p2" where
  "ge_scalarmult a A =
     (let e = recode a; Ai = scalarmult_table A
      in digit_loop (scalarmult_body Ai e) 64 ge_p2_0)"

definition ge_scalarmult_p3 :: "ge_p3 \<Rightarrow> byte list \<Rightarrow> ge_p3 \<Rightarrow> ge_p3" where
  "ge_scalarmult_p3 r3 a A =
     (let e = recode a; Ai = scalarmult_table A
      in digit_loop_p3 (scalarmult_body Ai e) 64 ge_p2_0 r3)"

text \<open>Multiples of the base point; again the table is an argument, for which the code uses \<^term>\<open>ge_base\<close>.\<close>

definition select_from :: "ge_precomp list list \<Rightarrow> nat \<Rightarrow> int \<Rightarrow> ge_precomp" where
  "select_from tab pos b =
     (let bnegative = negative_c b;
          babs = sint (babs b);
          t = ge_precomp_0;
          t = ge_precomp_cmov t (tab ! pos ! 0) (equal_c babs 1);
          t = ge_precomp_cmov t (tab ! pos ! 1) (equal_c babs 2);
          t = ge_precomp_cmov t (tab ! pos ! 2) (equal_c babs 3);
          t = ge_precomp_cmov t (tab ! pos ! 3) (equal_c babs 4);
          t = ge_precomp_cmov t (tab ! pos ! 4) (equal_c babs 5);
          t = ge_precomp_cmov t (tab ! pos ! 5) (equal_c babs 6);
          t = ge_precomp_cmov t (tab ! pos ! 6) (equal_c babs 7);
          t = ge_precomp_cmov t (tab ! pos ! 7) (equal_c babs 8);
          minust = \<lparr>yplusx = fe_copy (yminusx t), yminusx = fe_copy (yplusx t), xy2d = fe_neg (xy2d t)\<rparr>
      in ge_precomp_cmov t minust bnegative)"

definition base_adds :: "ge_precomp list list \<Rightarrow> int list \<Rightarrow> nat list \<Rightarrow> ge_p3 \<Rightarrow> ge_p3" where
  "base_adds tab e is h =
     foldl (\<lambda>h i. let t = select_from tab (i div 2) (e ! i); r = ge_madd h t in ge_p1p1_to_p3 r) h is"

definition scalarmult_base_from :: "ge_precomp list list \<Rightarrow> byte list \<Rightarrow> ge_p3" where
  "scalarmult_base_from tab a =
     (let e = recode_base a;
          h = ge_p3_0;
          h = base_adds tab e (map (\<lambda>k. 2 * k + 1) [0..<32]) h;
          r = ge_p3_dbl h; s = ge_p1p1_to_p2 r;
          r = ge_p2_dbl s; s = ge_p1p1_to_p2 r;
          r = ge_p2_dbl s; s = ge_p1p1_to_p2 r;
          r = ge_p2_dbl s; h = ge_p1p1_to_p3 r
      in base_adds tab e (map (\<lambda>k. 2 * k) [0..<32]) h)"

definition select :: "nat \<Rightarrow> int \<Rightarrow> ge_precomp" where
  "select = select_from ge_base"

definition ge_scalarmult_base :: "byte list \<Rightarrow> ge_p3" where
  "ge_scalarmult_base = scalarmult_base_from ge_base"

section \<open>Multiples of points\<close>

text \<open>
  \<open>M a b\<close> is \<open>a A + b B\<close>: all integer combinations of two points of the curve, closed under the addition
  law.  For one point \<open>M\<close> has one argument.
\<close>

definition ed_mults2 :: "(int \<Rightarrow> int \<Rightarrow> point) \<Rightarrow> bool" where
  "ed_mults2 M \<longleftrightarrow> M 0 0 = ed_zero \<and> (\<forall>a b. ed_curve (M a b)) \<and> (\<forall>a b. M (- a) (- b) = ed_neg (M a b))
     \<and> (\<forall>a b c d. ed_sum (M a b) (M c d) (M (a + c) (b + d)))"

definition ed_mults :: "(int \<Rightarrow> point) \<Rightarrow> bool" where
  "ed_mults M \<longleftrightarrow> M 0 = ed_zero \<and> (\<forall>a. ed_curve (M a)) \<and> (\<forall>a. M (- a) = ed_neg (M a))
     \<and> (\<forall>a b. ed_sum (M a) (M b) (M (a + b)))"

lemma ed_mults2_left: "ed_mults2 M \<Longrightarrow> ed_mults (\<lambda>a. M a 0)"
  unfolding ed_mults_def ed_mults2_def by (metis add_0 minus_zero)

lemma ed_mults2_right: "ed_mults2 M \<Longrightarrow> ed_mults (\<lambda>b. M 0 b)"
  unfolding ed_mults_def ed_mults2_def by (metis add_0 minus_zero)

lemma ed_mults_sum: "ed_mults M \<Longrightarrow> c = a + b \<Longrightarrow> ed_sum (M a) (M b) (M c)"
  by (simp add: ed_mults_def)

lemma ed_mults_curve: "ed_mults M \<Longrightarrow> ed_curve (M a)"
  by (simp add: ed_mults_def)

lemma ed_mults2_sum: "ed_mults2 M \<Longrightarrow> e = a + c \<Longrightarrow> f = b + d \<Longrightarrow> ed_sum (M a b) (M c d) (M e f)"
  by (simp add: ed_mults2_def)

text \<open>The additions with their conversions, for multiples.\<close>

lemma mults_dbl:
  assumes "ed_mults M"
  shows "p2_rep r (M a) \<Longrightarrow> p1p1_rep (ge_p2_dbl r) (M (2 * a))"
    "p3_rep p (M a) \<Longrightarrow> p1p1_rep (ge_p3_dbl p) (M (2 * a))"
  using ge_p2_dbl_rep [OF _ ed_mults_curve [OF assms] ed_mults_sum [OF assms]]
    ge_p3_dbl_rep [OF _ ed_mults_curve [OF assms] ed_mults_sum [OF assms]] by auto

lemma mults_add:
  assumes "ed_mults M" "p3_rep p (M a)" "cached_rep q (M b)" "c = a + b"
  shows "p1p1_rep (ge_add p q) (M c)"
  using assms by (auto intro: ge_add_rep ed_mults_sum)

lemma mults_dbl4:
  assumes M: "ed_mults M" and r: "p2_rep r (M a)"
  shows "p1p1_rep (ge_p2_dbl (ge_p1p1_to_p2 (ge_p2_dbl (ge_p1p1_to_p2 (ge_p2_dbl
    (ge_p1p1_to_p2 (ge_p2_dbl r))))))) (M (16 * a))"
  using mults_dbl(1) [OF M ge_p1p1_to_p2_rep [OF mults_dbl(1) [OF M ge_p1p1_to_p2_rep [OF mults_dbl(1)
    [OF M ge_p1p1_to_p2_rep [OF mults_dbl(1) [OF M r]]]]]]] by simp

section \<open>The loops over digits\<close>

text \<open>The value after the digits from \<open>i\<close> on is \<open>V i\<close>; each iteration goes from \<open>V (i + 1)\<close> to \<open>V i\<close>.\<close>

lemma digit_loop_rep:
  assumes "\<And>i r. i < n \<Longrightarrow> p2_rep r (V (Suc i)) \<Longrightarrow> p1p1_rep (body i r) (V i)" "p2_rep r (V n)"
  shows "p2_rep (digit_loop body n r) (V 0)"
  using assms by (induction n arbitrary: r) (simp_all add: Let_def ge_p1p1_to_p2_rep)

lemma digit_loop_p3_rep:
  assumes "\<And>i r. i < n \<Longrightarrow> p2_rep r (V (Suc i)) \<Longrightarrow> p1p1_rep (body i r) (V i)" "p2_rep r (V n)" "0 < n"
  shows "p3_rep (digit_loop_p3 body n r r3) (V 0)"
  using assms
proof (induction n arbitrary: r)
  case (Suc n)
  then show ?case
    by (cases "n = 0") (simp_all add: Let_def ge_p1p1_to_p3_rep ge_p1p1_to_p2_rep)
qed simp

section \<open>Table entries\<close>

text \<open>
  What the loops need of a kind of table entry: entries represent points, and can be added to and
  subtracted from a point in extended coordinates.
\<close>

locale table_entry =
  fixes add :: "ge_p3 \<Rightarrow> 'e \<Rightarrow> ge_p1p1"
    and sub :: "ge_p3 \<Rightarrow> 'e \<Rightarrow> ge_p1p1"
    and rep :: "'e \<Rightarrow> point \<Rightarrow> bool"
  assumes add: "p3_rep p P \<Longrightarrow> rep q Q \<Longrightarrow> ed_sum P Q R \<Longrightarrow> p1p1_rep (add p q) R"
    and sub: "p3_rep p P \<Longrightarrow> rep q Q \<Longrightarrow> ed_sum P (ed_neg Q) R \<Longrightarrow> p1p1_rep (sub p q) R"
begin

lemma signed_digit:
  assumes N: "ed_mults N" and T: "\<And>k. k < 8 \<Longrightarrow> rep (T ! k) (N (2 * int k + 1))"
    and t: "p1p1_rep t P" and d: "slide_digit d" and s: "ed_sum P (N d) R"
  shows "p1p1_rep (if d > 0 then add (ge_p1p1_to_p3 t) (T ! nat (d div 2))
    else if d < 0 then sub (ge_p1p1_to_p3 t) (T ! nat ((- d) div 2)) else t) R"
proof -
  have neg: "N d = ed_neg (N (- d))"
    using N by (metis ed_mults_def minus_minus)
  consider "d > 0" "odd d" "d \<le> 15" | "d < 0" "odd d" "- d \<le> 15" | "d = 0"
    using d by (cases d "0 :: int" rule: linorder_cases) (auto simp: slide_digit_def)
  then show ?thesis
  proof cases
    case 1
    then have "nat (d div 2) < 8" "2 * int (nat (d div 2)) + 1 = d"
      by auto
    then have "rep (T ! nat (d div 2)) (N d)"
      using T by metis
    then show ?thesis
      using 1 add [OF ge_p1p1_to_p3_rep [OF t] _ s] by simp
  next
    case 2
    then have "odd (- d)"
      by simp
    with 2 have "nat ((- d) div 2) < 8" "2 * int (nat ((- d) div 2)) + 1 = - d"
      by auto
    then have "rep (T ! nat ((- d) div 2)) (N (- d))"
      using T by metis
    then show ?thesis
      using 2 sub [OF ge_p1p1_to_p3_rep [OF t] _ s [unfolded neg]] by simp
  next
    case 3
    then have "ed_sum P ed_zero R"
      using s N by (simp add: ed_mults_def)
    then have "R = P"
      using ed_sum_unique ed_sum_zero(1) by blast
    then show ?thesis
      using 3 t by simp
  qed
qed

end

interpretation cached: table_entry ge_add ge_sub cached_rep
  by unfold_locales (auto intro: ge_add_rep ge_sub_rep)

interpretation precomp: table_entry ge_madd ge_msub precomp_rep
  by unfold_locales (auto intro: ge_madd_rep ge_msub_rep)

lemmas dsm_add_rep = cached.signed_digit [folded dsm_add_def [unfolded Let_def]]
lemmas dsm_madd_rep = precomp.signed_digit [folded dsm_madd_def [unfolded Let_def]]

section \<open>Two scalars\<close>

lemma ge_dsm_precomp_rep:
  assumes M: "ed_mults M" and s: "p3_rep s (M 1)" and k: "k < 8"
  shows "cached_rep (ge_dsm_precomp s ! k) (M (2 * int k + 1))"
proof -
  let ?s2 = "ge_p1p1_to_p3 (ge_p3_dbl s)"
  let ?next = "\<lambda>r. ge_p3_to_cached (ge_p1p1_to_p3 (ge_add ?s2 r))"
  have s2: "p3_rep ?s2 (M 2)"
    using mults_dbl(2) [OF M s] by (simp add: ge_p1p1_to_p3_rep)
  have nxt: "cached_rep (?next r) (M (a + 2))" if "cached_rep r (M a)" for r a
    by (intro ge_p3_to_cached_rep ge_p1p1_to_p3_rep mults_add [OF M s2 that]) simp
  have "cached_rep ((?next ^^ k) (ge_p3_to_cached s)) (M (2 * int k + 1))" for k
  proof (induction k)
    case (Suc k)
    then show ?case
      using nxt [of _ "2 * int k + 1"] by (simp add: algebra_simps)
  qed (simp add: s ge_p3_to_cached_rep)
  moreover have "ge_dsm_precomp s ! k = (?next ^^ k) (ge_p3_to_cached s)"
  proof -
    have "k = 0 \<or> k = 1 \<or> k = 2 \<or> k = 3 \<or> k = 4 \<or> k = 5 \<or> k = 6 \<or> k = 7"
      using k by linarith
    then show ?thesis
      by (elim disjE) (simp_all add: ge_dsm_precomp_def Let_def numeral_nat)
  qed
  ultimately show ?thesis
    by simp
qed

lemma dsm_body_rep:
  assumes M: "ed_mults2 M" and r: "p2_rep r (M a b)"
    and A: "\<And>k. k < 8 \<Longrightarrow> cached_rep (Ai ! k) (M (2 * int k + 1) 0)"
    and B: "\<And>t P d R. p1p1_rep t P \<Longrightarrow> slide_digit d \<Longrightarrow> ed_sum P (M 0 d) R \<Longrightarrow> p1p1_rep (badd d t) R"
    and d: "slide_digit (as ! i)" "slide_digit (bs ! i)"
  shows "p1p1_rep (dsm_body Ai badd as bs i r) (M (as ! i + 2 * a) (bs ! i + 2 * b))"
proof -
  have "p1p1_rep (ge_p2_dbl r) (M (2 * a) (2 * b))"
    using M by (intro ge_p2_dbl_rep [OF r] ed_mults2_sum) (simp_all add: ed_mults2_def)
  moreover have "ed_sum (M (2 * a) (2 * b)) (M (as ! i) 0) (M (as ! i + 2 * a) (2 * b))"
    by (rule ed_mults2_sum [OF M]) simp_all
  ultimately have "p1p1_rep (dsm_add Ai (as ! i) (ge_p2_dbl r)) (M (as ! i + 2 * a) (2 * b))"
    using dsm_add_rep [OF ed_mults2_left [OF M] A _ d(1)] by blast
  moreover have "ed_sum (M (as ! i + 2 * a) (2 * b)) (M 0 (bs ! i)) (M (as ! i + 2 * a) (bs ! i + 2 * b))"
    by (rule ed_mults2_sum [OF M]) simp_all
  ultimately show ?thesis
    unfolding dsm_body_def Let_def using B [OF _ d(2)] by blast
qed

lemma dsm_top_bound: "dsm_top as bs n \<le> n"
  by (induction n) simp_all

lemma dsm_top_zeros: "dsm_top as bs n \<le> j \<Longrightarrow> j < n \<Longrightarrow> as ! j = 0 \<and> bs ! j = 0"
proof (induction n)
  case (Suc n)
  then show ?case
    by (cases "j = n") (auto split: if_splits)
qed simp

lemma dsm_top_pos: "j < n \<Longrightarrow> as ! j \<noteq> 0 \<or> bs ! j \<noteq> 0 \<Longrightarrow> 0 < dsm_top as bs n"
  using dsm_top_zeros [of as bs n j] by (cases "dsm_top as bs n") auto

lemma dsm_top_replicate: "n \<le> m \<Longrightarrow> dsm_top (replicate m 0) (replicate m 0) n = 0"
  by (induction n) simp_all

lemma hi_top_zero:
  assumes "length as = 256" "length bs = 256"
  shows "hi (dsm_top as bs 256) as = 0" "hi (dsm_top as bs 256) bs = 0"
proof -
  let ?n = "dsm_top as bs 256"
  have n: "?n + (256 - ?n) = 256"
    using dsm_top_bound [of as bs 256] by simp
  have "hi ?n as = 2 ^ (256 - ?n) * hi (?n + (256 - ?n)) as" "hi ?n bs = 2 ^ (256 - ?n) * hi (?n + (256 - ?n)) bs"
    using dsm_top_zeros [of as bs 256] assms by (auto intro!: hi_zeros)
  then show "hi ?n as = 0" "hi ?n bs = 0"
    unfolding n using assms by (simp_all add: hi_end)
qed

text \<open>The common part of the four routines.\<close>

lemma dsm_loops:
  assumes M: "ed_mults2 M"
    and A: "\<And>k. k < 8 \<Longrightarrow> cached_rep (Ai ! k) (M (2 * int k + 1) 0)"
    and B: "\<And>t P d R. p1p1_rep t P \<Longrightarrow> slide_digit d \<Longrightarrow> ed_sum P (M 0 d) R \<Longrightarrow> p1p1_rep (badd d t) R"
    and a: "length a = 32" "le a \<le> 2 ^ 255" and b: "length b = 32" "le b \<le> 2 ^ 255"
  defines "body \<equiv> dsm_body Ai badd (slide a) (slide b)" and "n \<equiv> dsm_top (slide a) (slide b) 256"
  shows "p2_rep (digit_loop body n ge_p2_0) (M (le a) (le b))"
    "le a \<noteq> 0 \<or> le b \<noteq> 0 \<Longrightarrow> p3_rep (digit_loop_p3 body n ge_p2_0 r3) (M (le a) (le b))"
    "le a = 0 \<Longrightarrow> le b = 0 \<Longrightarrow> n = 0"
proof -
  let ?V = "\<lambda>i. M (hi i (slide a)) (hi i (slide b))"
  have sa: "length (slide a) = 256" "\<And>j. j < 256 \<Longrightarrow> slide_digit (slide a ! j)" "hi 0 (slide a) = le a"
    and sb: "length (slide b) = 256" "\<And>j. j < 256 \<Longrightarrow> slide_digit (slide b ! j)" "hi 0 (slide b) = le b"
    using slide_facts [OF a] slide_facts [OF b] by blast+
  have n: "n \<le> 256"
    unfolding n_def by (rule dsm_top_bound)
  have step: "p1p1_rep (body i r) (?V i)" if "i < n" "p2_rep r (?V (Suc i))" for i r
  proof -
    have i: "i < 256"
      using that(1) n by simp
    show ?thesis
      using dsm_body_rep [OF M that(2) A B sa(2) [OF i] sb(2) [OF i]] i sa(1) sb(1)
      unfolding body_def by (simp add: hi_step)
  qed
  have "ed_zero = M 0 0"
    using M by (simp add: ed_mults2_def)
  then have start: "p2_rep ge_p2_0 (?V n)"
    using ge_zero_rep(1) hi_top_zero [OF sa(1) sb(1)] by (simp add: n_def)
  show "p2_rep (digit_loop body n ge_p2_0) (M (le a) (le b))"
    using digit_loop_rep [of n ?V body, OF step start] sa(3) sb(3) by simp
  have n0: "hi 0 (slide a) = 0 \<and> hi 0 (slide b) = 0" if "n = 0"
    using hi_top_zero [OF sa(1) sb(1)] that by (simp add: n_def)
  show "p3_rep (digit_loop_p3 body n ge_p2_0 r3) (M (le a) (le b))" if "le a \<noteq> 0 \<or> le b \<noteq> 0"
    using digit_loop_p3_rep [of n ?V body, OF step start] sa(3) sb(3) n0 that by auto
  show "n = 0" if z: "le a = 0" "le b = 0"
    using slide_zero [OF a(1) z(1)] slide_zero [OF b(1) z(2)] unfolding n_def by (simp add: dsm_top_replicate)
qed

section \<open>One scalar\<close>

lemma scalarmult_table_rep:
  assumes M: "ed_mults M" and A: "p3_rep A (M 1)" and k: "k < 8"
  shows "cached_rep (scalarmult_table A ! k) (M (int k + 1))"
proof -
  let ?next = "\<lambda>r. ge_p3_to_cached (ge_p1p1_to_p3 (ge_add A r))"
  have nxt: "cached_rep (?next r) (M (1 + a))" if "cached_rep r (M a)" for r a
    by (intro ge_p3_to_cached_rep ge_p1p1_to_p3_rep mults_add [OF M A that]) simp
  have "cached_rep ((?next ^^ k) (ge_p3_to_cached A)) (M (int k + 1))" for k
  proof (induction k)
    case (Suc k)
    then show ?case
      using nxt [of _ "int k + 1"] by (simp add: algebra_simps)
  qed (simp add: A ge_p3_to_cached_rep)
  moreover have "scalarmult_table A ! k = (?next ^^ k) (ge_p3_to_cached A)"
  proof -
    have "k = 0 \<or> k = 1 \<or> k = 2 \<or> k = 3 \<or> k = 4 \<or> k = 5 \<or> k = 6 \<or> k = 7"
      using k by linarith
    then show ?thesis
      by (elim disjE) (simp_all add: scalarmult_table_def Let_def numeral_nat)
  qed
  ultimately show ?thesis
    by simp
qed

text \<open>The conditional moves select by equality, the last one by sign.\<close>

lemma cached_cmov_rep:
  assumes "cached_rep t P" "cached_rep u Q"
  shows "cached_rep (ge_cached_cmov t u (of_bool c)) (if c then Q else P)"
proof -
  have "fe_bnd 220 (c_Z t)" "fe_bnd 220 (c_Z u)" "fe_bnd 220 (T2d t)" "fe_bnd 220 (T2d u)"
    "fe_bnd 220 (YplusX t)" "fe_bnd 220 (YplusX u)" "fe_bnd 220 (YminusX t)" "fe_bnd 220 (YminusX u)"
    using assms by (auto simp: cached_rep_def split: prod.splits intro: fe_bnd_weaken)
  then have "ge_cached_cmov t u (of_bool c) = (if c then u else t)"
    by (cases c) (simp_all add: ge_cached_cmov_def fe_cmov_sound [where c = 220 and d = 220])
  then show ?thesis
    using assms by simp
qed

lemma precomp_cmov_rep:
  assumes "precomp_rep t P" "precomp_rep u Q"
  shows "precomp_rep (ge_precomp_cmov t u (of_bool c)) (if c then Q else P)"
proof -
  have "fe_bnd 110 (xy2d t)" "fe_bnd 110 (xy2d u)" "fe_bnd 110 (yplusx t)" "fe_bnd 110 (yplusx u)"
    "fe_bnd 110 (yminusx t)" "fe_bnd 110 (yminusx u)"
    using assms by (auto simp: precomp_rep_def split: prod.splits)
  then have "ge_precomp_cmov t u (of_bool c) = (if c then u else t)"
    by (cases c) (simp_all add: ge_precomp_cmov_def fe_cmov_sound [where c = 110 and d = 110])
  then show ?thesis
    using assms by simp
qed

lemma cached_neg_rep:
  "cached_rep q P \<Longrightarrow> cached_rep \<lparr>YplusX = fe_copy (YminusX q), YminusX = fe_copy (YplusX q), c_Z = fe_copy (c_Z q),
    T2d = fe_neg (T2d q)\<rparr> (ed_neg P)"
  by (cases P) (auto simp: cached_rep_def ed_neg_def fe_copy_id fe_bnd_length fe_simps)

lemma precomp_neg_rep:
  "precomp_rep q P \<Longrightarrow> precomp_rep \<lparr>yplusx = fe_copy (yminusx q), yminusx = fe_copy (yplusx q),
    xy2d = fe_neg (xy2d q)\<rparr> (ed_neg P)"
  by (cases P) (auto simp: precomp_rep_def ed_neg_def fe_copy_id fe_bnd_length fe_simps)

text \<open>The chain of eight conditional moves, on the represented points.\<close>

lemma select_chain:
  fixes b c :: int
  assumes M: "ed_mults M" and b: "- 8 \<le> b" "b \<le> 8"
  defines "sel \<equiv> \<lambda>j P. if \<bar>b\<bar> = j then M (c * j) else P"
  shows "(if b < 0 then ed_neg (sel 8 (sel 7 (sel 6 (sel 5 (sel 4 (sel 3 (sel 2 (sel 1 ed_zero))))))))
     else sel 8 (sel 7 (sel 6 (sel 5 (sel 4 (sel 3 (sel 2 (sel 1 ed_zero)))))))) = M (c * b)"
proof -
  have z: "ed_zero = M 0"
    using M by (simp add: ed_mults_def)
  have "\<bar>b\<bar> = 0 \<or> \<bar>b\<bar> = 1 \<or> \<bar>b\<bar> = 2 \<or> \<bar>b\<bar> = 3 \<or> \<bar>b\<bar> = 4 \<or> \<bar>b\<bar> = 5 \<or> \<bar>b\<bar> = 6 \<or> \<bar>b\<bar> = 7 \<or> \<bar>b\<bar> = 8"
    using b by linarith
  then have "sel 8 (sel 7 (sel 6 (sel 5 (sel 4 (sel 3 (sel 2 (sel 1 ed_zero))))))) = M (c * \<bar>b\<bar>)"
    unfolding sel_def by (elim disjE) (simp_all add: z)
  moreover have "ed_neg (M (c * \<bar>b\<bar>)) = M (c * b)" if "b < 0"
    using M that unfolding ed_mults_def by (metis abs_of_neg minus_minus mult_minus_right)
  ultimately show ?thesis
    by simp
qed

lemma digit_tests:
  assumes "- 8 \<le> b" "b \<le> 8" "0 \<le> j" "j < 128"
  shows "negative_c b = of_bool (b < 0)" "equal_c (sint (babs b)) j = of_bool (\<bar>b\<bar> = j)"
proof -
  have u: "uint (babs b) = \<bar>b\<bar>"
    using babs_sound [of b] assms by simp
  then have "sint (babs b) = \<bar>b\<bar>"
    using assms by (simp add: sint_uint signed_take_bit_eq_if_positive bit_iff_odd take_bit_int_eq_self)
  then show "negative_c b = of_bool (b < 0)" "equal_c (sint (babs b)) j = of_bool (\<bar>b\<bar> = j)"
    using negative_c_sound [of b] equal_c_sound [of "\<bar>b\<bar>" j] assms by simp_all
qed

lemmas digit_tests8 = digit_tests(1) [of b 0, simplified] digit_tests(2) [of b 1, simplified]
  digit_tests(2) [of b 2, simplified] digit_tests(2) [of b 3, simplified] digit_tests(2) [of b 4, simplified]
  digit_tests(2) [of b 5, simplified] digit_tests(2) [of b 6, simplified] digit_tests(2) [of b 7, simplified]
  digit_tests(2) [of b 8, simplified] for b

lemma cached_select_rep:
  assumes M: "ed_mults M" and A: "\<And>k. k < 8 \<Longrightarrow> cached_rep (Ai ! k) (M (int k + 1))" and b: "- 8 \<le> b" "b \<le> 8"
  shows "cached_rep (cached_select Ai b) (M b)"
proof -
  have A': "cached_rep (Ai ! 0) (M 1)" "cached_rep (Ai ! 1) (M 2)" "cached_rep (Ai ! 2) (M 3)"
    "cached_rep (Ai ! 3) (M 4)" "cached_rep (Ai ! 4) (M 5)" "cached_rep (Ai ! 5) (M 6)"
    "cached_rep (Ai ! 6) (M 7)" "cached_rep (Ai ! 7) (M 8)"
    using A [of 0] A [of 1] A [of 2] A [of 3] A [of 4] A [of 5] A [of 6] A [of 7] by simp_all
  have "cached_rep (cached_select Ai b) (M (1 * b))"
    unfolding select_chain [OF M b, of 1, symmetric] unfolding cached_select_def Let_def digit_tests8 [OF b] mult_1
    by (intro cached_cmov_rep cached_neg_rep A' ge_zero_rep(3))
  then show ?thesis
    by simp
qed


lemma scalarmult_body_rep:
  assumes M: "ed_mults M" and A: "\<And>k. k < 8 \<Longrightarrow> cached_rep (Ai ! k) (M (int k + 1))"
    and b: "- 8 \<le> e ! i" "e ! i \<le> 8" and r: "p2_rep r (M a)"
  shows "p1p1_rep (scalarmult_body Ai e i r) (M (e ! i + 16 * a))"
  unfolding scalarmult_body_def Let_def
  by (intro mults_add [OF M ge_p1p1_to_p3_rep [OF mults_dbl4 [OF M r]] cached_select_rep [OF M A b]]) simp_all

lemma digit_sum_drop: "i < length e \<Longrightarrow> digit_sum w (drop i e) = e ! i + 2 ^ w * digit_sum w (drop (Suc i) e)"
  by (subst Cons_nth_drop_Suc [symmetric]) simp_all

lemma scalarmult_loops:
  assumes M: "ed_mults M" and A: "p3_rep A (M 1)" and a: "length a = 32" "le a < 2 ^ 255"
  shows "p2_rep (ge_scalarmult a A) (M (le a))" "p3_rep (ge_scalarmult_p3 r3 a A) (M (le a))"
proof -
  let ?V = "\<lambda>i. M (digit_sum 4 (drop i (recode a)))"
  have e: "length (recode a) = 64" "digit_sum 4 (recode a) = le a" "\<And>i. i < 64 \<Longrightarrow> - 8 \<le> recode a ! i \<and> recode a ! i \<le> 8"
    using recode_facts [OF a] by auto
  have step: "p1p1_rep (scalarmult_body (scalarmult_table A) (recode a) i r) (?V i)"
    if "i < 64" "p2_rep r (?V (Suc i))" for i r
    using scalarmult_body_rep [OF M scalarmult_table_rep [OF M A] _ _ that(2)] e(3) [OF that(1)] that(1) e(1)
    by (simp add: digit_sum_drop)
  have start: "p2_rep ge_p2_0 (?V 64)"
    using ge_zero_rep(1) M e(1) by (simp add: ed_mults_def)
  show "p2_rep (ge_scalarmult a A) (M (le a))"
    using digit_loop_rep [of 64 ?V, OF step start] e(2) by (simp add: ge_scalarmult_def Let_def)
  show "p3_rep (ge_scalarmult_p3 r3 a A) (M (le a))"
    using digit_loop_p3_rep [of 64 ?V, OF step start] e(2) by (simp add: ge_scalarmult_p3_def Let_def)
qed

section \<open>Multiples of the base point\<close>

text \<open>What the comment of \<^verbatim>\<open>ge_base\<close> says of the table.\<close>

definition base_table :: "(int \<Rightarrow> point) \<Rightarrow> ge_precomp list list \<Rightarrow> bool" where
  "base_table M tab \<longleftrightarrow> (\<forall>pos<32. \<forall>j<8. precomp_rep (tab ! pos ! j) (M (256 ^ pos * (int j + 1))))"

lemma select_rep:
  assumes M: "ed_mults M" and T: "base_table M tab" "pos < 32" and b: "- 8 \<le> b" "b \<le> 8"
  shows "precomp_rep (select_from tab pos b) (M (256 ^ pos * b))"
proof -
  have "\<And>j. j < 8 \<Longrightarrow> precomp_rep (tab ! pos ! j) (M (256 ^ pos * (int j + 1)))"
    using T by (simp add: base_table_def)
  from this [of 0] this [of 1] this [of 2] this [of 3] this [of 4] this [of 5] this [of 6] this [of 7]
  have T': "precomp_rep (tab ! pos ! 0) (M (256 ^ pos * 1))" "precomp_rep (tab ! pos ! 1) (M (256 ^ pos * 2))"
    "precomp_rep (tab ! pos ! 2) (M (256 ^ pos * 3))" "precomp_rep (tab ! pos ! 3) (M (256 ^ pos * 4))"
    "precomp_rep (tab ! pos ! 4) (M (256 ^ pos * 5))" "precomp_rep (tab ! pos ! 5) (M (256 ^ pos * 6))"
    "precomp_rep (tab ! pos ! 6) (M (256 ^ pos * 7))" "precomp_rep (tab ! pos ! 7) (M (256 ^ pos * 8))"
    by simp_all
  show ?thesis
    unfolding select_chain [OF M b, symmetric] select_from_def Let_def digit_tests8 [OF b]
    by (intro precomp_cmov_rep precomp_neg_rep T' ge_zero_rep(4))
qed

lemma base_adds_rep:
  assumes M: "ed_mults M" and T: "base_table M tab" and h: "p3_rep h (M v)"
    and e: "\<And>i. i \<in> set is \<Longrightarrow> i < 64 \<and> - 8 \<le> e ! i \<and> e ! i \<le> 8"
  shows "p3_rep (base_adds tab e is h) (M (v + (\<Sum>i\<leftarrow>is. 256 ^ (i div 2) * e ! i)))"
  using h e
proof (induction "is" arbitrary: h v)
  case (Cons i "is")
  let ?h = "ge_p1p1_to_p3 (ge_madd h (select_from tab (i div 2) (e ! i)))"
  have "p3_rep ?h (M (v + 256 ^ (i div 2) * e ! i))"
    by (intro ge_p1p1_to_p3_rep ge_madd_rep [OF Cons.prems(1) select_rep [OF M T] ed_mults_sum [OF M]])
      (use Cons.prems(2) [of i] in \<open>simp_all add: less_mult_imp_div_less\<close>)
  from Cons.IH [OF this] Cons.prems(2) show ?case
    by (simp add: base_adds_def Let_def add.assoc)
qed (simp add: base_adds_def)

lemma digit_sum_pairs:
  assumes "length e = 2 * n"
  shows "digit_sum 4 e = (\<Sum>k<n. 256 ^ k * e ! (2 * k)) + 16 * (\<Sum>k<n. 256 ^ k * e ! (2 * k + 1))"
  using assms
proof (induction n arbitrary: e)
  case (Suc n)
  then obtain x y e' where e: "e = x # y # e'" "length e' = 2 * n"
    by (cases e; cases "tl e") auto
  have *: "(\<Sum>k<Suc n. 256 ^ k * f k) = f 0 + 256 * (\<Sum>k<n. 256 ^ k * f (Suc k))" for f :: "nat \<Rightarrow> int"
    by (simp only: sum.lessThan_Suc_shift sum_distrib_left) (simp add: mult.assoc)
  show ?case
    unfolding * using Suc.IH [OF e(2)] by (simp add: e(1) algebra_simps)
qed simp

lemma scalarmult_base_rep:
  assumes M: "ed_mults M" and T: "base_table M tab" and a: "length a = 32" "le a < 2 ^ 255"
  shows "p3_rep (scalarmult_base_from tab a) (M (le a))"
proof -
  let ?e = "recode_base a" and ?is = "map (\<lambda>k. 2 * k + 1) [0..<32]" and ?is' = "map (\<lambda>k. 2 * k) [0..<32]"
  have e: "length ?e = 64" "digit_sum 4 ?e = le a" "\<And>i. i < 64 \<Longrightarrow> - 8 \<le> ?e ! i \<and> ?e ! i \<le> 8"
    using recode_facts [OF a] by (auto simp: recode_same)
  have digits: "\<And>i. i \<in> set ?is \<Longrightarrow> i < 64 \<and> - 8 \<le> ?e ! i \<and> ?e ! i \<le> 8"
    "\<And>i. i \<in> set ?is' \<Longrightarrow> i < 64 \<and> - 8 \<le> ?e ! i \<and> ?e ! i \<le> 8"
    using e(3) by fastforce+
  define s s' where "s = (\<Sum>k<32. 256 ^ k * ?e ! (2 * k + 1))" and "s' = (\<Sum>k<32. 256 ^ k * ?e ! (2 * k))"
  have s: "(\<Sum>i\<leftarrow>?is. 256 ^ (i div 2) * ?e ! i) = s" "(\<Sum>i\<leftarrow>?is'. 256 ^ (i div 2) * ?e ! i) = s'"
    by (simp_all add: s_def s'_def sum_list_sum_nth atLeast0LessThan del: upt_rec_numeral)
  let ?h = "base_adds tab ?e ?is ge_p3_0"
  have "p3_rep ge_p3_0 (M 0)"
    using ge_zero_rep(2) M by (simp add: ed_mults_def)
  from base_adds_rep [OF M T this, of ?is ?e] have h: "p3_rep ?h (M s)"
    using digits(1) unfolding s by simp
  have "p3_rep (ge_p1p1_to_p3 (ge_p2_dbl (ge_p1p1_to_p2 (ge_p2_dbl (ge_p1p1_to_p2 (ge_p2_dbl
      (ge_p1p1_to_p2 (ge_p3_dbl ?h)))))))) (M (16 * s))"
    using mults_dbl4 [OF M ge_p3_to_p2_rep [OF h]] by (simp add: ge_p3_dbl_def ge_p1p1_to_p3_rep)
  from base_adds_rep [OF M T this, of ?is' ?e]
  have "p3_rep (scalarmult_base_from tab a) (M (16 * s + s'))"
    using digits(2) unfolding s by (simp add: scalarmult_base_from_def Let_def)
  moreover have "16 * s + s' = le a"
    using digit_sum_pairs [of ?e 32] e by (simp add: s_def s'_def)
  ultimately show ?thesis by simp
qed

section \<open>A group of order four\<close>

text \<open>The multiples of the point \<open>(\<surd>-1, 0)\<close>, for the examples.\<close>

definition order4_mults :: "int \<Rightarrow> point" where
  "order4_mults a =
     (if a mod 4 = 0 then ed_zero else if a mod 4 = 1 then (fe_abs fe_sqrtm1, 0)
      else if a mod 4 = 2 then (0, - 1) else (- fe_abs fe_sqrtm1, 0))"

lemma mod4_cases:
  fixes a :: int
  obtains "a mod 4 = 0" | "a mod 4 = 1" | "a mod 4 = 2" | "a mod 4 = 3"
proof -
  have "0 \<le> a mod 4" "a mod 4 < 4"
    by simp_all
  then show ?thesis
    using that by linarith
qed

lemma order4_sum: "ed_sum (order4_mults a) (order4_mults b) (order4_mults (a + b))"
proof -
  have "order4_mults (a + b) = order4_mults (a mod 4 + b mod 4)"
    unfolding order4_mults_def by (simp only: mod_add_eq)
  moreover have "order4_mults a = order4_mults (a mod 4)" "order4_mults b = order4_mults (b mod 4)"
    unfolding order4_mults_def by (simp_all only: mod_mod_trivial)
  moreover have "ed_sum (order4_mults (a mod 4)) (order4_mults (b mod 4)) (order4_mults (a mod 4 + b mod 4))"
    by (cases a rule: mod4_cases; cases b rule: mod4_cases)
      (simp_all add: order4_mults_def ed_zero_def ed_sum_def power2_eq_square [symmetric] fe_sqrtm1_sq)
  ultimately show ?thesis
    by simp
qed

lemma order4_neg: "order4_mults (- a) = ed_neg (order4_mults a)"
proof -
  have "(- a) mod 4 = (- (a mod 4)) mod 4"
    by (simp only: mod_minus_eq)
  then show ?thesis
    by (cases a rule: mod4_cases) (simp_all add: order4_mults_def ed_zero_def ed_neg_def)
qed

lemma order4_ed_mults: "ed_mults order4_mults"
proof -
  have "ed_curve (order4_mults a)" for a
    using order4(2,3) ed_curve_neg [of "(fe_abs fe_sqrtm1, 0)"] ed_curve_zero
    by (simp add: order4_mults_def ed_neg_def)
  then show ?thesis
    using order4_sum order4_neg by (simp add: ed_mults_def order4_mults_def)
qed

lemma order4_ed_mults2: "ed_mults2 (\<lambda>a b. order4_mults (a + 2 * b))"
proof -
  have n: "order4_mults (- a + 2 * - b) = ed_neg (order4_mults (a + 2 * b))" for a b
    using order4_neg [of "a + 2 * b"] by simp
  have s: "ed_sum (order4_mults (a + 2 * b)) (order4_mults (c + 2 * d)) (order4_mults (a + c + 2 * (b + d)))"
    for a b c d
    using order4_sum [of "a + 2 * b" "c + 2 * d"] by (simp add: algebra_simps)
  show ?thesis
    unfolding ed_mults2_def
    by (intro conjI allI n s) (use order4_ed_mults in \<open>simp_all add: ed_mults_def\<close>)
qed

lemma order4_rep: "p3_rep ge_order4 (order4_mults 1)" "p3_rep (ge_p1p1_to_p3 (ge_p3_dbl ge_order4)) (order4_mults 2)"
proof -
  show "p3_rep ge_order4 (order4_mults 1)"
    using order4(1) by (simp add: order4_mults_def)
  then show "p3_rep (ge_p1p1_to_p3 (ge_p3_dbl ge_order4)) (order4_mults 2)"
    using mults_dbl(2) [OF order4_ed_mults, of ge_order4 1] by (simp add: ge_p1p1_to_p3_rep)
qed

text \<open>A table of precomputed multiples of the point of order four.\<close>

definition order4_precomp :: "nat \<Rightarrow> ge_precomp" where
  "order4_precomp j =
     (if j mod 4 = 0 then ge_precomp_0
      else if j mod 4 = 1 then \<lparr>yplusx = fe_sqrtm1, yminusx = fe_neg fe_sqrtm1, xy2d = fe_0\<rparr>
      else if j mod 4 = 2 then \<lparr>yplusx = fe_neg fe_1, yminusx = fe_neg fe_1, xy2d = fe_0\<rparr>
      else \<lparr>yplusx = fe_neg fe_sqrtm1, yminusx = fe_sqrtm1, xy2d = fe_0\<rparr>)"

lemma order4_precomp_rep: "precomp_rep (order4_precomp j) (order4_mults (int j))"
proof -
  have "int j mod 4 = int (j mod 4)"
    by (simp add: zmod_int)
  moreover have "j mod 4 = 0 \<or> j mod 4 = 1 \<or> j mod 4 = 2 \<or> j mod 4 = 3"
    by linarith
  ultimately show ?thesis
    using ge_zero_rep(4)
    by (elim disjE) (simp_all add: order4_precomp_def order4_mults_def precomp_rep_def fe_simps)
qed

lemma order4_base_table:
  "base_table order4_mults (map (\<lambda>pos. map (\<lambda>j. order4_precomp (256 ^ pos * (j + 1))) [0..<8]) [0..<32])"
  unfolding base_table_def
proof (intro allI impI)
  fix pos j :: nat
  assume "pos < 32" "j < 8"
  then show "precomp_rep (map (\<lambda>pos. map (\<lambda>j. order4_precomp (256 ^ pos * (j + 1))) [0..<8]) [0..<32] ! pos ! j)
      (order4_mults (256 ^ pos * (int j + 1)))"
    using order4_precomp_rep [of "256 ^ pos * (j + 1)"] by (simp add: algebra_simps del: upt_rec_numeral)
qed

section \<open>Correctness of the scalar multiplications\<close>

text \<open>
  C1. For a scalar below \<open>2 ^ 255\<close> and a point \<open>A\<close> with multiples \<open>M\<close>, \<^verbatim>\<open>ge_scalarmult\<close> and
  \<^verbatim>\<open>ge_scalarmult_p3\<close> compute \<open>a A\<close>, in projective and in extended coordinates.
\<close>

theorem ge_scalarmult_correct:
  assumes "ed_mults M" "p3_rep A (M 1)" "length a = 32" "le a < 2 ^ 255"
  shows "p2_rep (ge_scalarmult a A) (M (le a)) \<and> p3_rep (ge_scalarmult_p3 r3 a A) (M (le a))"
  using scalarmult_loops [OF assms] by blast

theorem ge_scalarmult_witness:
  "p2_rep (ge_scalarmult (7 # replicate 31 0) ge_order4) (- fe_abs fe_sqrtm1, 0)
   \<and> p3_rep (ge_scalarmult_p3 ge_p3_0 (7 # replicate 31 0) ge_order4) (- fe_abs fe_sqrtm1, 0)"
proof -
  have "order4_mults 7 = (- fe_abs fe_sqrtm1, 0)"
    by (simp add: order4_mults_def)
  then show ?thesis
    using ge_scalarmult_correct [OF order4_ed_mults order4_rep(1), of "7 # replicate 31 0" ge_p3_0] by simp
qed

text \<open>
  C15. For a scalar below \<open>2 ^ 255\<close> and a table of the multiples \<open>(j + 1) 256 ^ i B\<close>,
  \<^verbatim>\<open>ge_scalarmult_base\<close> computes \<open>a B\<close>.
\<close>

theorem ge_scalarmult_base_correct:
  assumes "ed_mults M" "base_table M tab" "length a = 32" "le a < 2 ^ 255"
  shows "p3_rep (scalarmult_base_from tab a) (M (le a))"
  using assms by (rule scalarmult_base_rep)

theorem ge_scalarmult_base_witness:
  "p3_rep (scalarmult_base_from (map (\<lambda>pos. map (\<lambda>j. order4_precomp (256 ^ pos * (j + 1))) [0..<8]) [0..<32])
     (6 # replicate 31 0)) (0, - 1)"
proof -
  have "order4_mults 6 = (0, - 1)"
    by (simp add: order4_mults_def)
  then show ?thesis
    using ge_scalarmult_base_correct [OF order4_ed_mults order4_base_table, of "6 # replicate 31 0"]
    by (simp del: upt_rec_numeral)
qed

text \<open>
  C2. For two scalars up to \<open>2 ^ 255\<close> and two points with combinations \<open>M\<close>, the sliding-window
  routines with tables from \<^verbatim>\<open>ge_dsm_precomp\<close> compute \<open>a A + b B\<close>; the \<^verbatim>\<open>_p3\<close> routine when one scalar is not zero.
\<close>

theorem ge_double_scalarmult_correct:
  assumes "ed_mults2 M" "p3_rep A (M 1 0)" "p3_rep B (M 0 1)"
    and "length a = 32" "le a \<le> 2 ^ 255" "length b = 32" "le b \<le> 2 ^ 255"
  shows "p2_rep (ge_double_scalarmult_precomp_vartime a A b (ge_dsm_precomp B)) (M (le a) (le b))
    \<and> p2_rep (ge_double_scalarmult_precomp_vartime2 a (ge_dsm_precomp A) b (ge_dsm_precomp B)) (M (le a) (le b))
    \<and> (le a \<noteq> 0 \<or> le b \<noteq> 0 \<longrightarrow>
         p3_rep (ge_double_scalarmult_precomp_vartime2_p3 r3 a (ge_dsm_precomp A) b (ge_dsm_precomp B)) (M (le a) (le b)))"
proof -
  note A = ge_dsm_precomp_rep [OF ed_mults2_left [OF assms(1)] assms(2)]
  note B = ge_dsm_precomp_rep [OF ed_mults2_right [OF assms(1)] assms(3)]
  note badd = dsm_add_rep [OF ed_mults2_right [OF assms(1)] B]
  show ?thesis
    using dsm_loops(1,2) [OF assms(1) A, of "dsm_add (ge_dsm_precomp B)", OF _ badd assms(4-7)]
    by (simp add: ge_double_scalarmult_precomp_vartime_def ge_double_scalarmult_precomp_vartime2_def
        ge_double_scalarmult_precomp_vartime2_p3_def Let_def)
qed

theorem ge_double_scalarmult_witness:
  "p2_rep (ge_double_scalarmult_precomp_vartime (5 # replicate 31 0) ge_order4 (3 # replicate 31 0)
     (ge_dsm_precomp (ge_p1p1_to_p3 (ge_p3_dbl ge_order4)))) (- fe_abs fe_sqrtm1, 0)"
proof -
  have "order4_mults 11 = (- fe_abs fe_sqrtm1, 0)"
    by (simp add: order4_mults_def)
  then show ?thesis
    using ge_double_scalarmult_correct [OF order4_ed_mults2, of ge_order4 "ge_p1p1_to_p3 (ge_p3_dbl ge_order4)"
        "5 # replicate 31 0" "3 # replicate 31 0"] order4_rep by simp
qed

lemma base_vartime_rep:
  assumes "ed_mults2 M" "p3_rep A (M 1 0)" "\<And>k. k < 8 \<Longrightarrow> precomp_rep (Bi ! k) (M 0 (2 * int k + 1))"
    and "length a = 32" "le a \<le> 2 ^ 255" "length b = 32" "le b \<le> 2 ^ 255"
  shows "p2_rep (base_vartime_from Bi a A b) (M (le a) (le b))"
    "le a \<noteq> 0 \<or> le b \<noteq> 0 \<Longrightarrow> p3_rep (base_vartime_p3_from Bi r3 a A b) (M (le a) (le b))"
proof -
  note A = ge_dsm_precomp_rep [OF ed_mults2_left [OF assms(1)] assms(2)]
  note badd = dsm_madd_rep [OF ed_mults2_right [OF assms(1)] assms(3)]
  show "p2_rep (base_vartime_from Bi a A b) (M (le a) (le b))"
    "le a \<noteq> 0 \<or> le b \<noteq> 0 \<Longrightarrow> p3_rep (base_vartime_p3_from Bi r3 a A b) (M (le a) (le b))"
    using dsm_loops(1,2) [OF assms(1) A, of "dsm_madd Bi", OF _ badd assms(4-7)]
    by (simp_all add: base_vartime_from_def base_vartime_p3_from_def Let_def)
qed

text \<open>
  C16. The same for the routines that take the second point from a table of its odd
  multiples, as \<^verbatim>\<open>ge_double_scalarmult_base_vartime\<close> does with \<^verbatim>\<open>ge_Bi\<close>: for scalars of at most \<open>2 ^ 255\<close> the result is \<open>a A + b B\<close>, for the variant with
  extended coordinates when the scalars are not both zero.
\<close>

theorem ge_double_scalarmult_base_correct:
  assumes "ed_mults2 M" "p3_rep A (M 1 0)" "\<And>k. k < 8 \<Longrightarrow> precomp_rep (Bi ! k) (M 0 (2 * int k + 1))"
    and "length a = 32" "le a \<le> 2 ^ 255" "length b = 32" "le b \<le> 2 ^ 255"
  shows "p2_rep (base_vartime_from Bi a A b) (M (le a) (le b))
    \<and> (le a \<noteq> 0 \<or> le b \<noteq> 0 \<longrightarrow> p3_rep (base_vartime_p3_from Bi r3 a A b) (M (le a) (le b)))"
  using base_vartime_rep [OF assms] by blast

theorem ge_double_scalarmult_base_witness:
  "p2_rep (base_vartime_from (map (\<lambda>k. order4_precomp (2 * (2 * k + 1))) [0..<8]) (5 # replicate 31 0) ge_order4
     (3 # replicate 31 0)) (- fe_abs fe_sqrtm1, 0)"
proof -
  have o: "order4_mults 11 = (- fe_abs fe_sqrtm1, 0)"
    by (simp add: order4_mults_def)
  have "precomp_rep (map (\<lambda>k. order4_precomp (2 * (2 * k + 1))) [0..<8] ! k) (order4_mults (0 + 2 * (2 * int k + 1)))"
    if "k < 8" for k
    using order4_precomp_rep [of "2 * (2 * k + 1)"] that by (simp add: algebra_simps del: upt_rec_numeral)
  from ge_double_scalarmult_base_correct [OF order4_ed_mults2, of ge_order4, OF _ this,
      of "5 # replicate 31 0" "3 # replicate 31 0"]
  show ?thesis
    using o order4_rep by (simp del: upt_rec_numeral)
qed

text \<open>
  C38. When both scalars are zero the \<^verbatim>\<open>_p3\<close> routines return without writing their result: \<^verbatim>\<open>r3\<close>
  keeps the value it had before.
\<close>

theorem double_scalarmult_p3_zero:
  assumes "length a = 32" "length b = 32" "le a = 0" "le b = 0"
  shows "ge_double_scalarmult_base_vartime_p3 r3 a A b = r3
    \<and> ge_double_scalarmult_precomp_vartime2_p3 r3 a Ai b Bi = r3"
proof -
  have "dsm_top (slide a) (slide b) 256 = 0"
    using slide_zero [OF assms(1,3)] slide_zero [OF assms(2,4)] by (simp add: dsm_top_replicate)
  then show ?thesis
    by (simp add: ge_double_scalarmult_base_vartime_p3_def base_vartime_p3_from_def
        ge_double_scalarmult_precomp_vartime2_p3_def Let_def)
qed

theorem double_scalarmult_p3_zero_witness:
  "ge_double_scalarmult_base_vartime_p3 ge_order4 (replicate 32 0) ge_p3_0 (replicate 32 0) = ge_order4"
  using double_scalarmult_p3_zero [of "replicate 32 0" "replicate 32 0"] by simp

end
