(* ===== verification/BasePoint.thy ===== *)
theory BasePoint
  imports Tables
begin

text \<open>
  The tables of \<^verbatim>\<open>crypto-ops-data.c\<close> are checked: the bounds on all limbs, and that \<^verbatim>\<open>ge_Bi\<close> holds the odd multiples
  of the base point.
\<close>

section \<open>Bounds\<close>

definition precomp_bnd :: "ge_precomp \<Rightarrow> bool" where
  "precomp_bnd e \<longleftrightarrow> fe_bnd 101 (yplusx e) \<and> fe_bnd 101 (yminusx e) \<and> fe_bnd 101 (xy2d e)"

lemma row_bnd_0: "length ge_base_0 = 8 \<and> list_all precomp_bnd ge_base_0"
  by (simp add: ge_base_0_def precomp_bnd_def fe_bnd_list)

lemma row_bnd_1: "length ge_base_1 = 8 \<and> list_all precomp_bnd ge_base_1"
  by (simp add: ge_base_1_def precomp_bnd_def fe_bnd_list)

lemma row_bnd_2: "length ge_base_2 = 8 \<and> list_all precomp_bnd ge_base_2"
  by (simp add: ge_base_2_def precomp_bnd_def fe_bnd_list)

lemma row_bnd_3: "length ge_base_3 = 8 \<and> list_all precomp_bnd ge_base_3"
  by (simp add: ge_base_3_def precomp_bnd_def fe_bnd_list)

lemma row_bnd_4: "length ge_base_4 = 8 \<and> list_all precomp_bnd ge_base_4"
  by (simp add: ge_base_4_def precomp_bnd_def fe_bnd_list)

lemma row_bnd_5: "length ge_base_5 = 8 \<and> list_all precomp_bnd ge_base_5"
  by (simp add: ge_base_5_def precomp_bnd_def fe_bnd_list)

lemma row_bnd_6: "length ge_base_6 = 8 \<and> list_all precomp_bnd ge_base_6"
  by (simp add: ge_base_6_def precomp_bnd_def fe_bnd_list)

lemma row_bnd_7: "length ge_base_7 = 8 \<and> list_all precomp_bnd ge_base_7"
  by (simp add: ge_base_7_def precomp_bnd_def fe_bnd_list)

lemma row_bnd_8: "length ge_base_8 = 8 \<and> list_all precomp_bnd ge_base_8"
  by (simp add: ge_base_8_def precomp_bnd_def fe_bnd_list)

lemma row_bnd_9: "length ge_base_9 = 8 \<and> list_all precomp_bnd ge_base_9"
  by (simp add: ge_base_9_def precomp_bnd_def fe_bnd_list)

lemma row_bnd_10: "length ge_base_10 = 8 \<and> list_all precomp_bnd ge_base_10"
  by (simp add: ge_base_10_def precomp_bnd_def fe_bnd_list)

lemma row_bnd_11: "length ge_base_11 = 8 \<and> list_all precomp_bnd ge_base_11"
  by (simp add: ge_base_11_def precomp_bnd_def fe_bnd_list)

lemma row_bnd_12: "length ge_base_12 = 8 \<and> list_all precomp_bnd ge_base_12"
  by (simp add: ge_base_12_def precomp_bnd_def fe_bnd_list)

lemma row_bnd_13: "length ge_base_13 = 8 \<and> list_all precomp_bnd ge_base_13"
  by (simp add: ge_base_13_def precomp_bnd_def fe_bnd_list)

lemma row_bnd_14: "length ge_base_14 = 8 \<and> list_all precomp_bnd ge_base_14"
  by (simp add: ge_base_14_def precomp_bnd_def fe_bnd_list)

lemma row_bnd_15: "length ge_base_15 = 8 \<and> list_all precomp_bnd ge_base_15"
  by (simp add: ge_base_15_def precomp_bnd_def fe_bnd_list)

lemma row_bnd_16: "length ge_base_16 = 8 \<and> list_all precomp_bnd ge_base_16"
  by (simp add: ge_base_16_def precomp_bnd_def fe_bnd_list)

lemma row_bnd_17: "length ge_base_17 = 8 \<and> list_all precomp_bnd ge_base_17"
  by (simp add: ge_base_17_def precomp_bnd_def fe_bnd_list)

lemma row_bnd_18: "length ge_base_18 = 8 \<and> list_all precomp_bnd ge_base_18"
  by (simp add: ge_base_18_def precomp_bnd_def fe_bnd_list)

lemma row_bnd_19: "length ge_base_19 = 8 \<and> list_all precomp_bnd ge_base_19"
  by (simp add: ge_base_19_def precomp_bnd_def fe_bnd_list)

lemma row_bnd_20: "length ge_base_20 = 8 \<and> list_all precomp_bnd ge_base_20"
  by (simp add: ge_base_20_def precomp_bnd_def fe_bnd_list)

lemma row_bnd_21: "length ge_base_21 = 8 \<and> list_all precomp_bnd ge_base_21"
  by (simp add: ge_base_21_def precomp_bnd_def fe_bnd_list)

lemma row_bnd_22: "length ge_base_22 = 8 \<and> list_all precomp_bnd ge_base_22"
  by (simp add: ge_base_22_def precomp_bnd_def fe_bnd_list)

lemma row_bnd_23: "length ge_base_23 = 8 \<and> list_all precomp_bnd ge_base_23"
  by (simp add: ge_base_23_def precomp_bnd_def fe_bnd_list)

lemma row_bnd_24: "length ge_base_24 = 8 \<and> list_all precomp_bnd ge_base_24"
  by (simp add: ge_base_24_def precomp_bnd_def fe_bnd_list)

lemma row_bnd_25: "length ge_base_25 = 8 \<and> list_all precomp_bnd ge_base_25"
  by (simp add: ge_base_25_def precomp_bnd_def fe_bnd_list)

lemma row_bnd_26: "length ge_base_26 = 8 \<and> list_all precomp_bnd ge_base_26"
  by (simp add: ge_base_26_def precomp_bnd_def fe_bnd_list)

lemma row_bnd_27: "length ge_base_27 = 8 \<and> list_all precomp_bnd ge_base_27"
  by (simp add: ge_base_27_def precomp_bnd_def fe_bnd_list)

lemma row_bnd_28: "length ge_base_28 = 8 \<and> list_all precomp_bnd ge_base_28"
  by (simp add: ge_base_28_def precomp_bnd_def fe_bnd_list)

lemma row_bnd_29: "length ge_base_29 = 8 \<and> list_all precomp_bnd ge_base_29"
  by (simp add: ge_base_29_def precomp_bnd_def fe_bnd_list)

lemma row_bnd_30: "length ge_base_30 = 8 \<and> list_all precomp_bnd ge_base_30"
  by (simp add: ge_base_30_def precomp_bnd_def fe_bnd_list)

lemma row_bnd_31: "length ge_base_31 = 8 \<and> list_all precomp_bnd ge_base_31"
  by (simp add: ge_base_31_def precomp_bnd_def fe_bnd_list)

lemmas row_bnds =
  row_bnd_0 row_bnd_1 row_bnd_2 row_bnd_3 row_bnd_4 row_bnd_5 row_bnd_6 row_bnd_7
  row_bnd_8 row_bnd_9 row_bnd_10 row_bnd_11 row_bnd_12 row_bnd_13 row_bnd_14 row_bnd_15
  row_bnd_16 row_bnd_17 row_bnd_18 row_bnd_19 row_bnd_20 row_bnd_21 row_bnd_22 row_bnd_23
  row_bnd_24 row_bnd_25 row_bnd_26 row_bnd_27 row_bnd_28 row_bnd_29 row_bnd_30 row_bnd_31

section \<open>Checking the odd multiples\<close>

text \<open>Congruence modulo \<open>2 ^ 255 - 19\<close> with a quotient as certificate.\<close>

definition cong_cert :: "int \<Rightarrow> int \<Rightarrow> int \<Rightarrow> bool" where
  "cong_cert a b k \<longleftrightarrow> a + 19 * k = b + k * 57896044618658097711785492504343953926634992332820282019728792003956564819968"

lemma cong_cert_gf: "cong_cert a b k \<Longrightarrow> (of_int a :: gf) = of_int b"
  by (rule gf_eq_cert [of a b k]) (simp add: cong_cert_def fe_p_def algebra_simps)

definition d_int :: int where
  "d_int = - 20800338683988658368647408995589388737092878452977063003340006470870624536394"

lemma ed_d_int: "ed_d = of_int d_int"
  by (simp only: ed_d_def fe_abs_def fe_const_defs fe_val_list d_int_def) simp

text \<open>A certificate for one addition: products and quotients, and the inverses of the denominators.\<close>

definition sum_cert :: "int \<times> int \<Rightarrow> int \<times> int \<Rightarrow> int \<times> int \<Rightarrow> int list \<Rightarrow> int list \<Rightarrow> bool" where
  "sum_cert P Q R v k =
     (case (P, Q, R) of ((x1, y1), (x2, y2), (x3, y3)) \<Rightarrow>
        cong_cert (x1 * x2) (v ! 0) (k ! 0) \<and> cong_cert (y1 * y2) (v ! 1) (k ! 1)
        \<and> cong_cert (v ! 0 * v ! 1) (v ! 2) (k ! 2) \<and> cong_cert (d_int * v ! 2) (v ! 3) (k ! 3)
        \<and> cong_cert (x3 * (1 + v ! 3)) (x1 * y2 + y1 * x2) (k ! 4)
        \<and> cong_cert (y3 * (1 - v ! 3)) (v ! 1 + v ! 0) (k ! 5)
        \<and> cong_cert ((1 + v ! 3) * v ! 4) 1 (k ! 6) \<and> cong_cert ((1 - v ! 3) * v ! 5) 1 (k ! 7))"

definition gf_point :: "int \<times> int \<Rightarrow> point" where
  "gf_point P = (of_int (fst P), of_int (snd P))"

lemma dvd_1I: "a * b = 1 \<Longrightarrow> a dvd (1 :: 'a :: comm_ring_1)"
  by (metis dvd_triv_left)

lemma sum_cert_sound:
  assumes "sum_cert P Q R v k"
  shows "ed_sum (gf_point P) (gf_point Q) (gf_point R)"
proof -
  obtain x1 y1 x2 y2 x3 y3 where PQR: "P = (x1, y1)" "Q = (x2, y2)" "R = (x3, y3)"
    by (cases P, cases Q, cases R) auto
  note c = assms [unfolded sum_cert_def PQR prod.case]
  have e: "(of_int x1 * of_int x2 :: gf) = of_int (v ! 0)" "(of_int y1 * of_int y2 :: gf) = of_int (v ! 1)"
    "(of_int (v ! 0) * of_int (v ! 1) :: gf) = of_int (v ! 2)" "(ed_d * of_int (v ! 2) :: gf) = of_int (v ! 3)"
    "(of_int x3 * (1 + of_int (v ! 3)) :: gf) = of_int x1 * of_int y2 + of_int y1 * of_int x2"
    "(of_int y3 * (1 - of_int (v ! 3)) :: gf) = of_int (v ! 1) + of_int (v ! 0)"
    "((1 + of_int (v ! 3)) * of_int (v ! 4) :: gf) = 1" "((1 - of_int (v ! 3)) * of_int (v ! 5) :: gf) = 1"
    unfolding ed_d_int of_int_mult [symmetric] of_int_add [symmetric] of_int_diff [symmetric] of_int_1 [symmetric, where 'a = gf]
    using c cong_cert_gf by blast+
  have "ed_d * of_int x1 * of_int x2 * of_int y1 * of_int y2
      = ed_d * ((of_int x1 * of_int x2) * (of_int y1 * of_int y2))"
    by (simp only: mult_ac)
  then have m: "ed_d * of_int x1 * of_int x2 * of_int y1 * of_int y2 = of_int (v ! 3)"
    by (simp only: e(1-4))
  show ?thesis
    using e dvd_1I [OF e(7)] dvd_1I [OF e(8)]
    by (simp add: PQR gf_point_def ed_sum_def Let_def m)
qed

definition curve_cert :: "int \<times> int \<Rightarrow> int list \<Rightarrow> int list \<Rightarrow> bool" where
  "curve_cert P v k =
     (case P of (x, y) \<Rightarrow> cong_cert (x * x) (v ! 0) (k ! 0) \<and> cong_cert (y * y) (v ! 1) (k ! 1)
        \<and> cong_cert (v ! 1 - v ! 0) (1 + d_int * v ! 0 * v ! 1) (k ! 2))"

lemma curve_cert_sound:
  assumes "curve_cert P v k"
  shows "ed_curve (gf_point P)"
proof -
  obtain x y where P: "P = (x, y)"
    by (cases P)
  note c = assms(1) [unfolded curve_cert_def P prod.case]
  have "(of_int x * of_int x :: gf) = of_int (v ! 0)" "(of_int y * of_int y :: gf) = of_int (v ! 1)"
    "(of_int (v ! 1) - of_int (v ! 0) :: gf) = 1 + ed_d * of_int (v ! 0) * of_int (v ! 1)"
    unfolding ed_d_int of_int_mult [symmetric] of_int_add [symmetric] of_int_diff [symmetric] of_int_1 [symmetric, where 'a = gf]
    using c cong_cert_gf by blast+
  then show ?thesis
    by (simp only: P gf_point_def ed_curve_def fst_conv snd_conv prod.case power2_eq_square)
qed

definition precomp_cert :: "int \<times> int \<times> int \<Rightarrow> int \<times> int \<Rightarrow> int \<Rightarrow> int list \<Rightarrow> bool" where
  "precomp_cert E P v k =
     (case (E, P) of ((s, t, w), x, y) \<Rightarrow> cong_cert s (y + x) (k ! 0) \<and> cong_cert t (y - x) (k ! 1)
        \<and> cong_cert (2 * x * y) v (k ! 2) \<and> cong_cert (d_int * v) w (k ! 3)
)"

lemma precomp_cert_sound:
  assumes "precomp_cert (s, t, w) P v k"
    and e: "fe_val (yplusx e) = s" "fe_val (yminusx e) = t" "fe_val (xy2d e) = w" "precomp_bnd e"
  shows "precomp_rep e (gf_point P)"
proof -
  obtain x y where P: "P = (x, y)"
    by (cases P)
  note c = assms(1) [unfolded precomp_cert_def P prod.case]
  have "fe_abs (yplusx e) = of_int y + of_int x" "fe_abs (yminusx e) = of_int y - of_int x"
    "(2 * of_int x * of_int y :: gf) = of_int v" "ed_d * of_int v = fe_abs (xy2d e)"
    unfolding fe_abs_def e(1-3) ed_d_int of_int_mult [symmetric] of_int_add [symmetric] of_int_diff [symmetric]
      of_int_numeral [symmetric, where 'a = gf]
    using c cong_cert_gf by blast+
  moreover from this(3,4) have "fe_abs (xy2d e) = 2 * ed_d * of_int x * of_int y"
    by (metis mult.assoc mult.left_commute)
  moreover have "fe_bnd 110 (yplusx e)" "fe_bnd 110 (yminusx e)" "fe_bnd 110 (xy2d e)"
    using e(4) by (auto simp: precomp_bnd_def intro: fe_bnd_mono)
  ultimately show ?thesis
    by (simp add: P gf_point_def precomp_rep_def)
qed

text \<open>The points \<open>B, 3 B, \<dots>, 15 B\<close> and \<open>2 B\<close> in affine coordinates.\<close>

definition Bi_points :: "(int \<times> int) list" where
  "Bi_points = [(15112221349535400772501151409588531511454012693041857206046113283949847762202,
     46316835694926478169428394003475163141307993866256225615783033603165251855960),
    (46896733464454938657123544595386787789046198280132665686241321779790909858396,
     8324843778533443976490377120369201138301417226297555316741202210403726505172),
    (33467004535436536005251147249499675200073690106659565782908757308821616914995,
     43097193783671926753355113395909008640284023746042808659097434958891230611693),
    (9199134265559022971505535402808359556995554859516252602543778295037484220679,
     22512087849695599276028560866629687720820254811233262850576678203618951717560),
    (24193060302538010417230488029838514081720802923509845138863968807030823940444,
     57551756252899625001155759838357770487605224608455116862194664796369308545472),
    (9451145793506787353375160377761530931587019091193333050860601958827395183563,
     20609402718286069808115703540855311742885093522056241285814584245966805874451),
    (7442235066513780790779899786332475485840754593728627195931759107337804079085,
     8529785864514984411577036536286432879603480171865651918962709025066066124672),
    (35771902585589234259498423420223840099331465042459337605611172842168536632769,
     8502034780705657720897159939055122322178084209392286764802307224484658961631)]"

definition B2_point :: "int \<times> int" where
  "B2_point = (24727413235106541002554574571675588834622768167397638456726423682521233608206,
     15549675580280190176352668710449542251549572066445060580507079593062643049417)"

lemma Bi_double: "ed_sum (gf_point (Bi_points ! 0)) (gf_point (Bi_points ! 0)) (gf_point B2_point)"
  by (rule sum_cert_sound [where v = "[26187595835145689230469591415084376402084551887632582719101735842039498021991, 37053468555941182535542715202780130513046395093004980492626426882532201484768, 30655112042971184558329056706696549839726511367961720624960021019854854290862, 10865872720795493305073123787695754110961843205372397773524691040492703462776, 209325846291170943509691191589112255490563248687624486049616149279891676193, 23433485286344922975343343183309822149119477277686524097973672123823657291327]" and k = "[3944643120641682540557488748386534817562863454810087094083181913524639656337, 37053468555941182535542715202780130513046395093004980492626426882532201484768, 16760061334493241107500538505654000897334113208084852940225110938905278734074, - 11013476258858789211687089225473122236650218946994022736324260506623670835796, - 19538737559488566712434576529864368081508620530610009823116553446752326234122, - 2918347821822279244224534467951863095252877302676643115518800860268071522766, 39286068987166379365534598460247025388597226932259233411430977511593730040, - 4397973474754440286967242851607998898452437350460971718965314058899781133874]"]) code_simp

lemma Bi_sum_0: "ed_sum (gf_point B2_point) (gf_point (Bi_points ! 0)) (gf_point (Bi_points ! 1))"
  by (rule sum_cert_sound [where v = "[25225440941862457257645256542063839045928653454434489306237645082571845078638, 47177367235419010768153430470966006157220653052848217676242938876824053331503, 3364236006921377708987850388260268045919210514534713198477653094347271829663, 12965896712281167460188844285041720407456251414812089957574419241826119111093, 29600802672229291977551086989035457193912897394190512490856270676290202971450, 12427363435476498764622292639380187905816969151665599103759243972126144747838]" and k = "[6454433021663346227697405437452792583555821297117287786816762890575823932726, 12439740464224152141082134968359633801239657653156048464405663674450114439533, 20555288341858445091655881398897118214263259624518105402237652989900493436799, - 1208670623662653009366363062163994678506522864241668573131825607869195986935, - 13338173239580380408313927725926866846066085994001770406007520559772431264730, - 1864359910755556230756376877239954303300786756820140253993326411207065582785, 6629139392452627800747756727327378811291480314330367441404854080411285246151, - 2783124680998330539791939497196969452204043389894178261245581432649349228253]"]) code_simp

lemma Bi_sum_1: "ed_sum (gf_point B2_point) (gf_point (Bi_points ! 1)) (gf_point (Bi_points ! 2))"
  by (rule sum_cert_sound [where v = "[48340943397957672063845076961079850094226192239642303261637243939815458376085, 44797614286132229630946778029717472893086876719631224265665813444759707094146, 42371533499781928103430765740550095599405096895089063229563725931958961537065, 38992872074211770242716245714054993943552099849601362769832305884147734512537, 29660477934786797460256459814545889426269004665773291847071182618599551217061, 51178657838794802314375452211932977104438832034001385903422592450851300501002]" and k = "[20029605051439257545288017948402983388317488377638599063002798194777807630559, 2235880203308253119519222121890932670933772483120078552391370436872692883322, 37404263984409838010198068788034133636932658738789404062886173428130962818405, - 15222840405774561992085399382614577850390381786047359515620304967795918068703, 6388930118060097858772505679422395283986685946884229133210481911734603991554, - 29025875170454503863744136436304667593184035664383105375875854408921235177771, 19976273498283218670778393546530773510718789899430402843185046916617678922533, - 34468725302088431669577571281883006482376796678739445245080631375030175325077]"]) code_simp

lemma Bi_sum_2: "ed_sum (gf_point B2_point) (gf_point (Bi_points ! 2)) (gf_point (Bi_points ! 3))"
  by (rule sum_cert_sound [where v = "[6340004638261182900895289219772987200849098283612958019611071795932256623560, 27213516076568098771156700155333099061231010900289323149495096076870574395288, 15346874318147105863293115084415884734066589450846357509903977324495490947132, 26708851835273599236554348871529033123123434212128029177396509941486770170587, 53375505135313229606775476404274437850839292217484306675712255771034529699596, 16756154419809903178550114253542695530956127259463057353725220520958859291308]" and k = "[14293764908116530862448180713109370502117189820835074215820232183375730470090, 11575011491209865433133808471897716672703133499734705597028430690659308629457, 2980062269974738850882056107034744850476570958375963751354989650526159839252, - 5513678622791315111784766109306648838712415066542379408507000746560439274655, - 23151579315118802227230733919369733522595987891412439605898128917065251202129, - 10385373005022375857829404006604739990702519416690008831408371873121523661392, 24623417155384394775307477940976477232497684838837466212941596724761177407403, - 7730021086508560468605800768396437960331211876181387581463366112763583430461]"]) code_simp

lemma Bi_sum_3: "ed_sum (gf_point B2_point) (gf_point (Bi_points ! 3)) (gf_point (Bi_points ! 4))"
  by (rule sum_cert_sound [where v = "[9325763809085646680044095575923854707602173682939668350085181842640224927057, 30902426918875499502853874846454069254968873582337309167482348478985076034870, 56168597102055912493228154247220266103922034630928085176911135512893652829234, 7248842797640218075432952744241253730385792372876792704258571421819384289417, 4406926543836820313545746557770880485436638040494012428395420780827493486658, 43690871305248575831008865333100546015381653378596230937114109121175043822736]" and k = "[3928952243421470271284563548988221211934248508304978769883102841983841268533, 6046279413442381593574959747587532512666219343760505271703330394674977379850, 4977692974902968079557050512975271774708224397294629905061717369126201459444, - 20179717817039813842745679567835262535700491967784734693077463255174777331537, - 9056535122909245252281559573547143896570698876078158041140165869889363153139, - 7205736359940062271378719512897081319050319411114903533222979770658030175171, 551766842578501710646152169040584530131979788187684025548934567783135924607, - 5470291794020270150602713311654600750495217919122745675092215910350471939173]"]) code_simp

lemma Bi_sum_4: "ed_sum (gf_point B2_point) (gf_point (Bi_points ! 4)) (gf_point (Bi_points ! 5))"
  by (rule sum_cert_sound [where v = "[39471529557189836860058826487841429781340761288845943468618747970698615279953, 30669764113903190525019673621186452561310012811730212691302466949682132105660, 30794055059241951527746855506676385403749644531741541474523954922722731491442, 7877478122048862755598430610344988161480765250477852441251648244542214503244, 19306539377775585111071352746688655305426338197572552479892446140559228803844, 50784778608605979794450485591035042501968224899941735380563705507248104184244]" and k = "[10332861311391167468301009556494463863360341253977303113715794824777279599539, 15457206873153973002413809275534372347319238052505611109330133136220891334036, 20909589052372617446660529477932335918240843957685947339957346590156249029362, - 11063394380472152805462025553994801196581630957925423038424182545880799206208, - 29792175189420246073887453124117017975406859130233070450672557122315309882305, - 2804165985623696191138716239871310793058600792671999609849798677377275595094, 2626895197463786121589071024703830290331417473294526327972862130148722112671, - 6909901791347298156748880540788138338324843367535162127022501052735551043857]"]) code_simp

lemma Bi_sum_5: "ed_sum (gf_point B2_point) (gf_point (Bi_points ! 5)) (gf_point (Bi_points ! 6))"
  by (rule sum_cert_sound [where v = "[14980201344168139239096952090747236809489943918441111821135166819811770972053, 40530214640583553323417811076674281727125935410020683054938954657707605882204, 12403671989286842433575992357264831529847132505728420164571586863353642167606, 39401460070013387312891163651564801670953213707982218393283189671500785029234, 20131218813956695663299769617495535820299723826781792366788265790679555306929, 36223956451863132738033407112531849025059007152367525016837815189647188801471]" and k = "[4036586421759911061921598706944881940732696592131598501888848002958458712825, 5535257689597256053294773264299714481693146139969948684309505484495364087787, 10486912876991722794409515624992879084109920141191277036591926642391086298094, - 4456272963060486657028588117702587830627685704781080776992657220456422112902, - 6275809393941865127723051294503320934247199797635102576107542432979295312398, - 5804990986174238405323029107441839482691466531557658185355143233028219383317, 13700407678682654957254777992909019945124321567650551401746943782308858381386, - 24652405585165347390300451979664716634986510489413541688979273706133127245456]"]) code_simp

lemma Bi_sum_6: "ed_sum (gf_point B2_point) (gf_point (Bi_points ! 6)) (gf_point (Bi_points ! 7))"
  by (rule sum_cert_sound [where v = "[38919509364173204966524514906699328588686310710353568878912568345721734308542, 19825164067779614078206114249232182759535213208898892830988794012221484831435, 34319297624379560845894772703016622542474881780285926576103609213095591097140, 45816845794232749498991608072953932466942116014606495453164585144074912777403, 33105960062627449769010434009774447103463185824684675009288372152149118322876, 1677192478102012764114690149702135592329374575953018343606435677942794128014]" and k = "[3178580213805842815851282036490783082207594897576336962237670237303692305432, 2290923392713489987586226983216406500706998834692637638154562739667878077161, 13327087604419192653222692458902383321686738656975717041161420743210304585870, - 12329909904650888367620423204687912711473374299295432878273838724981682495087, 22666692904821231702825624362366182215531685145824747481403869298261393687651, - 6728204302220312255003807672134891790266411611788884637598582490664149176811, 26198865173780953903129777095461425910030558138136151206569398227082841008747, - 1327269758108530223958794253733143899250719950208308373231235471510829664321]"]) code_simp

lemma Bi_entry_0: "precomp_rep (ge_Bi ! 0) (gf_point (Bi_points ! 0))"
proof (rule precomp_cert_sound)
  show "precomp_cert (3533012425803781230144052908719740726127014226477800802100354883158534798213, - 26691430273267020314858249910457322296781011159605913609991871684741160726191, - 7658430290429433199253656808231786248588514975978872815715289361970058581381) (Bi_points ! 0) 35758763082988260778358940756210441203653418775431027933619539655111069383513 [- 1, - 1, 24179554159256641236001842255341650418326420308866971529673781254319756419523, - 12847067324646983272918051545992426770444451104604948481962452105473673448809]"
    by code_simp
qed (simp_all add: ge_Bi_def fe_val_list precomp_bnd_def fe_bnd_list)

lemma Bi_entry_1: "precomp_rep (ge_Bi ! 1) (gf_point (Bi_points ! 1))"
proof (rule precomp_cert_sound)
  show "precomp_cert (- 2674467375669715078171570788587964999287376826390061016746268013761928456381, 19324154932736603031152325029326367275890211278985171650228672434569381466725, - 17116947377249126259557375896760539191404829378624049010295706104213611161444) (Bi_points ! 1) 38266406334048680312315802611419310808998689601935956610129978306818713536564 [- 1, 1, 13486516475748759151907664655590975586289500050193527997733625879644608021340, - 13747989473374663958144724474773145289334257074204975912624656697593023419828]"
    by code_simp
qed (simp_all add: ge_Bi_def fe_val_list precomp_bnd_def fe_bnd_list)

lemma Bi_entry_2: "precomp_rep (ge_Bi ! 2) (gf_point (Bi_points ! 2))"
proof (rule precomp_cert_sound)
  show "precomp_cert (18668153700450365046820768141064729913722721519882092422277400263756282706739, 9630189248235390748103966146409333440210333639383242876188677650069613696698, - 27289405588673654262236781204217667191986561123886393674357247068389210684776) (Bi_points ! 2) 47366825618356738750069797692377614405941675150723564636327015043451881259955 [- 1, 0, 49824957449957339438872576935339510742185532362767436504878460549972369880135, - 17017501311820816066150781047552462506354417524314744742314945461873696692206]"
    by code_simp
qed (simp_all add: ge_Bi_def fe_val_list precomp_bnd_def fe_bnd_list)

lemma Bi_entry_3: "precomp_rep (ge_Bi ! 3) (gf_point (Bi_points ! 3))"
proof (rule precomp_cert_sound)
  show "precomp_cert (- 26184822503403475464251396234905906648819182662070766566608335505300128881710, 13312953584136576304523025463821328163824699951717010248032899908581467496881, - 2431657015584972697853056118816474425792590835962464619820990274753041747019) (Bi_points ! 3) 15938612689879198896217559240498285996318489121957671518375232277223578786358 [- 1, 0, 7153915957176476953622629588849859030308412814649980058166381360474916350978, - 5726272740842221022739021024455645613277969835532455901728500797837685568117]"
    by code_simp
qed (simp_all add: ge_Bi_def fe_val_list precomp_bnd_def fe_bnd_list)

lemma Bi_entry_4: "precomp_rep (ge_Bi ! 4) (gf_point (Bi_points ! 4))"
proof (rule precomp_cert_sound)
  show "precomp_cert (23848771936779537706600755363852330642691035199144679981329841599443567665967, - 24537348668296483127860220695824697520750570647875010296398096014618080214921, - 5538278692233152133376739725259355329941280220717145056557503951635050287314) (Bi_points ! 4) 25728775674962257964679744190031762189009426614252282219752584487860133292253 [- 1, - 1, 48098384568905678052737963936216853129228723235198834081323233124971004754767, - 9243589117159068744711885804501490614007126450574371707030766364874774270032]"
    by code_simp
qed (simp_all add: ge_Bi_def fe_val_list precomp_bnd_def fe_bnd_list)

lemma Bi_entry_5: "precomp_rep (ge_Bi ! 5) (gf_point (Bi_points ! 5))"
proof (rule precomp_cert_sound)
  show "precomp_cert (- 27835496106865240550294628585727111252162879719570707683053605799162363761935, 11158256924779282454740543163093780811298074430862908234953982287139410690888, 27941507066570052986778351271715755022397500567158991111890716087464763623913) (Bi_points ! 5) 24335300825303995180489409149921051214098763397054797264801298974077741424059 [- 1, 0, 6728696963344690900980143900376403883795344815934334069324025770199923682083, - 8742954764477034942665761702958912675845931047693375661579484650238457378291]"
    by code_simp
qed (simp_all add: ge_Bi_def fe_val_list precomp_bnd_def fe_bnd_list)

lemma Bi_entry_6: "precomp_rep (ge_Bi ! 6) (gf_point (Bi_points ! 6))"
proof (rule precomp_cert_sound)
  show "precomp_cert (15972020931028765202356936322618908365444234765594279114894468132403870203757, 1087550798001203620797136749953957393762725578137024723030949917728262045587, - 24658731954444850638391282627992509015936355844633454421460281249029118057589) (Bi_points ! 6) 1046066263486242807824812959020961362259957388289965491640358282300151848633 [0, 0, 2192919115247784392986599334891232328366075358816004392114107933054886426243, - 375820709510028762126069725739033436668789944598677375808292381418160681337]"
    by code_simp
qed (simp_all add: ge_Bi_def fe_val_list precomp_bnd_def fe_bnd_list)

lemma Bi_entry_7: "precomp_rep (ge_Bi ! 7) (gf_point (Bi_points ! 7))"
proof (rule precomp_cert_sound)
  show "precomp_cert (- 13622107252363205731389909145064991505125443080968657649315311937303369225549, - 27269867804883576538601263481168717777153380833067050840808865617683877671138, - 21206794958313804217892670850113670548490237750447414108551674528239769832151) (Bi_points ! 7) 27322302920253010460430568000848674580724115831299128994917048774879099584101 [- 1, 0, 10506208565988336367843035807803079518657249126302918541208797442296456722973, - 9816096386395372086169353458526592594463792901072741994450537693346870300007]"
    by code_simp
qed (simp_all add: ge_Bi_def fe_val_list precomp_bnd_def fe_bnd_list)

lemma Bi_curve: "ed_curve (gf_point (Bi_points ! 0))"
  by (rule curve_cert_sound [where v = "[26187595835145689230469591415084376402084551887632582719101735842039498021991, 37053468555941182535542715202780130513046395093004980492626426882532201484768]" and k = "[3944643120641682540557488748386534817562863454810087094083181913524639656337, 37053468555941182535542715202780130513046395093004980492626426882532201484768, 348614952121882340107779816857438743479892274913296379331472630814205254430727595828430002868070545530161900711183952284254099378878520075019147131724952]"]) code_simp

text \<open>
  C36. The table \<^verbatim>\<open>ge_Bi\<close> holds \<open>B, 3 B, \<dots>, 15 B\<close>: its first entry is a point of the curve with \<open>y = 4/5\<close>,
  and each entry is the one before plus \<open>2 B\<close>.
\<close>

theorem ge_Bi_correct:
  "\<exists>P B2. length ge_Bi = 8 \<and> ed_curve (P 0) \<and> 5 * snd (P 0) = 4 \<and> ed_sum (P 0) (P 0) B2
     \<and> list_all (\<lambda>k. precomp_rep (ge_Bi ! k) (P k)) [0, 1, 2, 3, 4, 5, 6, 7]
     \<and> list_all (\<lambda>k. ed_sum B2 (P k) (P (Suc k))) [0, 1, 2, 3, 4, 5, 6]"
proof (intro exI conjI)
  let ?P = "\<lambda>k. gf_point (Bi_points ! k)"
  show "length ge_Bi = 8"
    by (simp add: ge_Bi_def)
  show "ed_curve (?P 0)" "ed_sum (?P 0) (?P 0) (gf_point B2_point)"
    by (rule Bi_curve Bi_double)+
  have "cong_cert (5 * snd (Bi_points ! 0)) 4 4"
    by code_simp
  from cong_cert_gf [OF this] show "5 * snd (?P 0) = 4"
    by (simp add: gf_point_def)
  show "list_all (\<lambda>k. precomp_rep (ge_Bi ! k) (?P k)) [0, 1, 2, 3, 4, 5, 6, 7]"
    by (simp only: list.pred_inject(2) list.pred_inject(1) Bi_entry_0 Bi_entry_1 Bi_entry_2 Bi_entry_3 Bi_entry_4
        Bi_entry_5 Bi_entry_6 Bi_entry_7 simp_thms)
  show "list_all (\<lambda>k. ed_sum (gf_point B2_point) (?P k) (?P (Suc k))) [0, 1, 2, 3, 4, 5, 6]"
    using Bi_sum_0 Bi_sum_1 Bi_sum_2 Bi_sum_3 Bi_sum_4 Bi_sum_5 Bi_sum_6
    by (simp only: list.pred_inject(2) list.pred_inject(1) simp_thms Suc_numeral One_nat_def [symmetric] Suc_1
        semiring_norm)
qed

text \<open>
  Lemma. The table \<^verbatim>\<open>ge_base\<close> has 32 rows of 8 entries, and every entry has ten limbs within the bounds that the
  additions of table entries need.
\<close>

theorem ge_base_bounds:
  "length ge_base = 32
   \<and> list_all (\<lambda>row. length row = 8
       \<and> list_all precomp_bnd row) ge_base"
  by (simp only: ge_base_def list.pred_inject list.size row_bnds simp_thms)

end
