(* ===== verification/BaseMult.thy ===== *)
theory BaseMult
  imports ScalarMult BasePoint
begin

text \<open>
  The two halves put together: the table \<^verbatim>\<open>ge_Bi\<close> of \<^verbatim>\<open>crypto-ops-data.c\<close> holds the odd multiples that the double scalar
  multiplications with the base point ask for.
\<close>

section \<open>The table of odd multiples\<close>

lemma ed_mults_odd_step:
  assumes "ed_mults N" "ed_sum (N 1) (N 1) D" "ed_sum D (N (2 * int k + 1)) Q"
  shows "Q = N (2 * int (Suc k) + 1)"
proof -
  have "D = N 2"
    using ed_sum_unique [OF assms(2) ed_mults_sum [OF assms(1)]] by simp
  then show ?thesis
    using ed_sum_unique [OF assms(3)] ed_mults_sum [OF assms(1), of "2 * int (Suc k) + 1" 2 "2 * int k + 1"] by simp
qed

lemma Bi_multiples:
  assumes "ed_mults N" "N 1 = gf_point (Bi_points ! 0)"
  shows "\<forall>k < 8. gf_point (Bi_points ! k) = N (2 * int k + 1)"
proof -
  have D: "ed_sum (N 1) (N 1) (gf_point B2_point)"
    using Bi_double by (simp only: assms(2))
  have step: "gf_point (Bi_points ! Suc k) = N (2 * int (Suc k) + 1)"
    if "gf_point (Bi_points ! k) = N (2 * int k + 1)" "ed_sum (gf_point B2_point) (gf_point (Bi_points ! k)) (gf_point (Bi_points ! Suc k))" for k
    using ed_mults_odd_step [OF assms(1) D] that by simp
  have 0: "gf_point (Bi_points ! 0) = N (2 * int 0 + 1)"
    by (simp add: assms(2))
  note s = Bi_sum_0 Bi_sum_1 Bi_sum_2 Bi_sum_3 Bi_sum_4 Bi_sum_5 Bi_sum_6
  have n: "(1 :: nat) = Suc 0" "2 = Suc 1" "3 = Suc 2" "4 = Suc 3" "5 = Suc 4" "6 = Suc 5" "7 = Suc 6"
    by simp_all
  have 1: "gf_point (Bi_points ! 1) = N (2 * int 1 + 1)"
    using step [OF 0] s(1) by (simp only: n(1))
  have 2: "gf_point (Bi_points ! 2) = N (2 * int 2 + 1)"
    using step [OF 1] s(2) by (simp only: n(2))
  have 3: "gf_point (Bi_points ! 3) = N (2 * int 3 + 1)"
    using step [OF 2] s(3) by (simp only: n(3))
  have 4: "gf_point (Bi_points ! 4) = N (2 * int 4 + 1)"
    using step [OF 3] s(4) by (simp only: n(4))
  have 5: "gf_point (Bi_points ! 5) = N (2 * int 5 + 1)"
    using step [OF 4] s(5) by (simp only: n(5))
  have 6: "gf_point (Bi_points ! 6) = N (2 * int 6 + 1)"
    using step [OF 5] s(6) by (simp only: n(6))
  have 7: "gf_point (Bi_points ! 7) = N (2 * int 7 + 1)"
    using step [OF 6] s(7) by (simp only: n(7))
  show ?thesis
    unfolding all_less_8 by (intro conjI 0 1 2 3 4 5 6 7)
qed

lemma ge_Bi_rep:
  assumes "ed_mults N" "N 1 = gf_point (Bi_points ! 0)" "k < 8"
  shows "precomp_rep (ge_Bi ! k) (N (2 * int k + 1))"
proof -
  have "\<forall>k < 8. precomp_rep (ge_Bi ! k) (gf_point (Bi_points ! k))"
    unfolding all_less_8
    by (intro conjI Bi_entry_0 Bi_entry_1 Bi_entry_2 Bi_entry_3 Bi_entry_4 Bi_entry_5 Bi_entry_6 Bi_entry_7)
  then show ?thesis
    using Bi_multiples [OF assms(1,2)] assms(3) by simp
qed

section \<open>Double scalar multiplication with the base point\<close>

text \<open>
  \<open>a A + b B\<close> for the base point \<open>B\<close>, the first point of \<^verbatim>\<open>ge_Bi\<close>, and any combinations \<open>M\<close> of \<open>A\<close> and \<open>B\<close> under the addition law; both
  scalars are at most \<open>2 ^ 255\<close>, and the variant with extended coordinates needs one that is not zero.
\<close>

lemma double_scalarmult_Bi:
  assumes "ed_mults2 M" "p3_rep A (M 1 0)" "M 0 1 = gf_point (Bi_points ! 0)"
    "length a = 32" "le a \<le> 2 ^ 255" "length b = 32" "le b \<le> 2 ^ 255"
  shows "p2_rep (ge_double_scalarmult_base_vartime a A b) (M (le a) (le b))"
    "le a \<noteq> 0 \<or> le b \<noteq> 0 \<Longrightarrow> p3_rep (ge_double_scalarmult_base_vartime_p3 r3 a A b) (M (le a) (le b))"
  using base_vartime_rep [OF assms(1,2) ge_Bi_rep [OF ed_mults2_right [OF assms(1)] assms(3)] assms(4-7)]
  by (simp_all add: ge_double_scalarmult_base_vartime_def ge_double_scalarmult_base_vartime_p3_def)

end
