(* ===== verification/Compress.thy ===== *)
theory Compress
  imports Group Loads
begin

text \<open>
  Encodings of points, from \<^verbatim>\<open>crypto-ops.c\<close>: compression (\<^verbatim>\<open>ge_tobytes\<close>, \<^verbatim>\<open>ge_p3_tobytes\<close>), decompression
  with its checks (\<^verbatim>\<open>ge_frombytes_vartime\<close>), and the map from field elements to points
  (\<^verbatim>\<open>ge_fromfe_frombytes_vartime\<close>).
\<close>

section \<open>The routines\<close>

subsection \<open>Compression\<close>

definition ge_tobytes :: "ge_p2 \<Rightarrow> byte list" where
  "ge_tobytes h =
     (let recip = fe_invert (p2_Z h);
          x = fe_mul (p2_X h) recip;
          y = fe_mul (p2_Y h) recip;
          s = fe_tobytes y
      in s[31 := s ! 31 XOR push_bit 7 (word_of_int (fe_isnegative x))])"

definition ge_p3_tobytes :: "ge_p3 \<Rightarrow> byte list" where
  "ge_p3_tobytes h =
     (let recip = fe_invert (p3_Z h);
          x = fe_mul (p3_X h) recip;
          y = fe_mul (p3_Y h) recip;
          s = fe_tobytes y
      in s[31 := s ! 31 XOR push_bit 7 (word_of_int (fe_isnegative x))])"

subsection \<open>Field elements from bytes\<close>

text \<open>The loads; the two callers differ in the last limb, which is the argument \<open>h9\<close>.\<close>

definition frombytes_limbs :: "byte list \<Rightarrow> int \<Rightarrow> int list" where
  "frombytes_limbs s h9 =
     (let h0 = sint (load_4 s 0);
          h1 = sint (push_bit 6 (load_3 s 4));
          h2 = sint (push_bit 5 (load_3 s 7));
          h3 = sint (push_bit 3 (load_3 s 10));
          h4 = sint (push_bit 2 (load_3 s 13));
          h5 = sint (load_4 s 16);
          h6 = sint (push_bit 7 (load_3 s 20));
          h7 = sint (push_bit 5 (load_3 s 23));
          h8 = sint (push_bit 4 (load_3 s 26))
      in [h0, h1, h2, h3, h4, h5, h6, h7, h8, h9])"

definition frombytes_carries :: "int list \<Rightarrow> fe" where
  "frombytes_carries h = map s32 (foldl (\<lambda>h i. fe_carry i h) h [9, 1, 3, 5, 7, 0, 2, 4, 6, 8])"

definition noncanonical :: "int list \<Rightarrow> bool" where
  "noncanonical h \<longleftrightarrow> h ! 9 = 33554428 \<and> h ! 8 = 268435440 \<and> h ! 7 = 536870880 \<and> h ! 6 = 2147483520
     \<and> h ! 5 = 4294967295 \<and> h ! 4 = 67108860 \<and> h ! 3 = 134217720 \<and> h ! 2 = 536870880
     \<and> h ! 1 = 1073741760 \<and> h ! 0 \<ge> 4294967277"

subsection \<open>Decompression\<close>

text \<open>The square root, with the two checks: \<^term>\<open>None\<close> is the first \<^verbatim>\<open>return -1\<close> after the carries.\<close>

definition frombytes_root :: "fe \<Rightarrow> fe option" where
  "frombytes_root Y =
     (let Z = fe_1;
          u = fe_sq Y;
          v = fe_mul u fe_d;
          u = fe_sub u Z;
          v = fe_add v Z;
          X = fe_divpowm1 u v;
          vxx = fe_sq X;
          vxx = fe_mul vxx v;
          check = fe_sub vxx u
      in if fe_isnonzero check \<noteq> 0 then
           let check = fe_add vxx u
           in if fe_isnonzero check \<noteq> 0 then None else Some (fe_mul X fe_sqrtm1)
         else Some X)"

text \<open>The sign.\<close>

definition frombytes_sign :: "fe \<Rightarrow> byte \<Rightarrow> fe option" where
  "frombytes_sign X b =
     (if fe_isnegative X \<noteq> uint (drop_bit 7 b) then
        if fe_isnonzero X = 0 then None else Some (fe_neg X)
      else Some X)"

definition ge_frombytes_vartime :: "byte list \<Rightarrow> ge_p3 option" where
  "ge_frombytes_vartime s =
     (let h = frombytes_limbs s (sint (push_bit 2 (load_3 s 29 AND 8388607)))
      in if noncanonical h then None
         else
           let Y = frombytes_carries h;
               Z = fe_1
           in case frombytes_root Y of
                None \<Rightarrow> None
              | Some X \<Rightarrow>
                  (case frombytes_sign X (s ! 31) of
                     None \<Rightarrow> None
                   | Some X \<Rightarrow> Some \<lparr>p3_X = X, p3_Y = Y, p3_Z = Z, p3_T = fe_mul X Y\<rparr>))"

subsection \<open>From field elements to points\<close>

text \<open>
  The argument \<open>ndebug\<close> tells whether the file is compiled with \<^verbatim>\<open>NDEBUG\<close>, which removes the assertions and the check at the end;
  \<^term>\<open>None\<close> stands for a failed \<^verbatim>\<open>assert\<close>.  The first part gives \<^verbatim>\<open>u\<close>, \<^verbatim>\<open>v\<close>, \<^verbatim>\<open>w\<close> and the first value of \<^verbatim>\<open>x\<close>, the second \<^verbatim>\<open>r->X\<close>, \<^verbatim>\<open>z\<close> and \<^verbatim>\<open>sign\<close> at the label
  \<^verbatim>\<open>setsign\<close>.
\<close>

definition fromfe_start :: "byte list \<Rightarrow> fe \<times> fe \<times> fe \<times> fe" where
  "fromfe_start s =
     (let u = frombytes_carries (frombytes_limbs s (sint (push_bit 2 (load_3 s 29))));
          v = fe_sq2 u;
          w = fe_1;
          w = fe_add v w;
          x = fe_sq w;
          y = fe_mul fe_ma2 v;
          x = fe_add x y
      in (u, v, w, x))"

definition fromfe_root :: "bool \<Rightarrow> fe \<Rightarrow> fe \<Rightarrow> fe \<Rightarrow> fe \<Rightarrow> (fe \<times> fe \<times> int) option" where
  "fromfe_root ndebug u v w x =
     (let rX = fe_divpowm1 w x;
          y = fe_sq rX;
          x = fe_mul y x;
          y = fe_sub w x;
          z = fe_copy fe_ma;
          yplus = fe_add w x
      in if fe_isnonzero y \<noteq> 0 \<and> fe_isnonzero yplus \<noteq> 0 then
           let x = fe_mul x fe_sqrtm1;
               y = fe_sub w x
           in if fe_isnonzero y \<noteq> 0 then
                if ndebug \<or> fe_isnonzero (fe_add w x) = 0 then Some (fe_mul rX fe_fffb3, z, 1) else None
              else Some (fe_mul rX fe_fffb4, z, 1)
         else
           let rX = (if fe_isnonzero y \<noteq> 0 then fe_mul rX fe_fffb1 else fe_mul rX fe_fffb2);
               rX = fe_mul rX u;
               z = fe_mul z v
           in Some (rX, z, 0))"

text \<open>The check at the end, in the block for builds with assertions.\<close>

definition fromfe_check :: "ge_p2 \<Rightarrow> bool" where
  "fromfe_check r =
     (let check_iz = fe_invert (p2_Z r);
          check_x = fe_mul (p2_X r) check_iz;
          check_y = fe_mul (p2_Y r) check_iz;
          check_x = fe_sq check_x;
          check_y = fe_sq check_y;
          check_v = fe_mul check_x check_y;
          check_v = fe_mul fe_d check_v;
          check_v = fe_add check_v check_x;
          check_v = fe_sub check_v check_y;
          check_x = fe_1;
          check_v = fe_add check_v check_x
      in fe_isnonzero check_v = 0)"

text \<open>The sign, the coordinates, and the check.\<close>

definition fromfe_point :: "bool \<Rightarrow> fe \<Rightarrow> fe \<Rightarrow> int \<Rightarrow> fe \<Rightarrow> ge_p2 option" where
  "fromfe_point ndebug rX z sign w =
     (if fe_isnegative rX \<noteq> sign \<and> \<not> ndebug \<and> fe_isnonzero rX = 0 then None
      else
        let rX = (if fe_isnegative rX \<noteq> sign then fe_neg rX else rX);
            rZ = fe_add z w;
            rY = fe_sub z w;
            rX = fe_mul rX rZ;
            r = \<lparr>p2_X = rX, p2_Y = rY, p2_Z = rZ\<rparr>
        in if ndebug \<or> fromfe_check r then Some r else None)"

definition ge_fromfe_frombytes_vartime :: "bool \<Rightarrow> byte list \<Rightarrow> ge_p2 option" where
  "ge_fromfe_frombytes_vartime ndebug s =
     (let (u, v, w, x) = fromfe_start s
      in case fromfe_root ndebug u v w x of
           None \<Rightarrow> None
         | Some (rX, z, sign) \<Rightarrow> fromfe_point ndebug rX z sign w)"

text \<open>The assertion in the last of the four cases of the square root holds.\<close>

definition fromfe_root_ok :: "byte list \<Rightarrow> bool" where
  "fromfe_root_ok s = (let (u, v, w, x) = fromfe_start s in fromfe_root False u v w x \<noteq> None)"

section \<open>Field elements from bytes\<close>

lemma sint_shifted:
  fixes w :: u64
  assumes "uint w < 2 ^ 32" "n \<le> 8"
  shows "sint (push_bit n w) = uint w * 2 ^ n"
proof -
  have "(2 :: int) ^ n \<le> 2 ^ 8"
    using assms(2) by (intro power_increasing) simp_all
  then have "uint w * 2 ^ n \<le> 2 ^ 32 * 2 ^ 8"
    using assms(1) by (intro mult_mono) simp_all
  then have b: "uint w * 2 ^ n < 2 ^ 63"
    by simp
  have "uint (push_bit n w) = take_bit 64 (push_bit n (uint w))"
    by (subst unsigned_push_bit_eq) simp
  also have "\<dots> = uint w * 2 ^ n"
    using b by (simp add: push_bit_eq_mult take_bit_int_eq_self)
  finally have "uint (push_bit n w) = uint w * 2 ^ n" .
  with b show ?thesis
    by (simp add: sint_eq_uint_small)
qed

lemma sint_shifted_load:
  assumes "k + 3 \<le> length s" "n \<le> 8"
  shows "sint (push_bit n (load_3 s k)) = take_bit 24 (drop_bit (8 * k) (le s)) * 2 ^ n"
proof -
  have "uint (load_3 s k) < 2 ^ 32"
    unfolding uint_load_3 [OF assms(1)] by (rule less_trans [OF take_bit_int_less_exp]) simp
  then show ?thesis
    by (simp only: sint_shifted [OF _ assms(2)] uint_load_3 [OF assms(1)])
qed

lemma sint_shifted_top:
  assumes "length s = 32"
  shows "sint (push_bit 2 (load_3 s 29 AND 8388607)) = take_bit 23 (drop_bit 232 (le s)) * 2 ^ 2"
proof -
  have u: "uint (load_3 s 29 AND 8388607) = take_bit 23 (drop_bit 232 (le s))"
    using uint_load_3 [of 29 s] uint_mask_and(2) [of "load_3 s 29"] assms by (simp add: and.commute)
  have "uint (load_3 s 29 AND 8388607) < 2 ^ 32"
    unfolding u by (rule less_trans [OF take_bit_int_less_exp]) simp
  then show ?thesis
    by (simp only: sint_shifted [of _ 2] u)
qed

text \<open>The limbs are pieces of the value of the string.\<close>

lemma frombytes_limbs_eq:
  fixes s :: "byte list"
  defines "f \<equiv> \<lambda>w k. take_bit w (drop_bit k (le s))"
  assumes "length s = 32"
  shows "frombytes_limbs s h9 = [f 32 0, f 24 32 * 2 ^ 6, f 24 56 * 2 ^ 5, f 24 80 * 2 ^ 3, f 24 104 * 2 ^ 2,
    f 32 128, f 24 160 * 2 ^ 7, f 24 184 * 2 ^ 5, f 24 208 * 2 ^ 4, h9]"
  using assms(2) unfolding frombytes_limbs_def Let_def f_def
  by (simp add: sint_shifted_load sint_load_4)

lemma split_bits: "take_bit (m + n) (V :: int) = take_bit m V + 2 ^ m * take_bit n (drop_bit m V)"
  by (simp add: take_bit_eq_mod drop_bit_eq_div power_add zmod_zmult2_eq)

lemma limbs_value:
  fixes V :: int
  defines "f \<equiv> \<lambda>w k. take_bit w (drop_bit k V)"
  shows "lval fe_pos [f 32 0, f 24 32 * 2 ^ 6, f 24 56 * 2 ^ 5, f 24 80 * 2 ^ 3, f 24 104 * 2 ^ 2,
    f 32 128, f 24 160 * 2 ^ 7, f 24 184 * 2 ^ 5, f 24 208 * 2 ^ 4, f n 232 * 2 ^ 2] = take_bit (232 + n) V"
proof -
  have st: "take_bit (k + w) V = take_bit k V + 2 ^ k * f w k" for k w
    unfolding f_def by (rule split_bits)
  note s = st [of 0 32] st [of 32 24] st [of 56 24] st [of 80 24] st [of 104 24] st [of 128 32] st [of 160 24]
    st [of 184 24] st [of 208 24]
  have "take_bit (232 + n) V = f 32 0 + 2 ^ 32 * f 24 32 + 2 ^ 56 * f 24 56 + 2 ^ 80 * f 24 80 + 2 ^ 104 * f 24 104
      + 2 ^ 128 * f 32 128 + 2 ^ 160 * f 24 160 + 2 ^ 184 * f 24 184 + 2 ^ 208 * f 24 208 + 2 ^ 232 * f n 232"
    unfolding st [of 232 n] using s by simp
  moreover have "lval fe_pos [f 32 0, f 24 32 * 2 ^ 6, f 24 56 * 2 ^ 5, f 24 80 * 2 ^ 3, f 24 104 * 2 ^ 2,
      f 32 128, f 24 160 * 2 ^ 7, f 24 184 * 2 ^ 5, f 24 208 * 2 ^ 4, f n 232 * 2 ^ 2]
    = f 32 0 + 2 ^ 32 * f 24 32 + 2 ^ 56 * f 24 56 + 2 ^ 80 * f 24 80 + 2 ^ 104 * f 24 104
      + 2 ^ 128 * f 32 128 + 2 ^ 160 * f 24 160 + 2 ^ 184 * f 24 184 + 2 ^ 208 * f 24 208 + 2 ^ 232 * f n 232"
    unfolding fe_val_def [symmetric] fe_val_list by simp
  ultimately show ?thesis
    by simp
qed

text \<open>The carries keep the residue and give small limbs.\<close>

definition frombytes_ivs :: "ival list" where
  "frombytes_ivs = [(0, 2 ^ 32), (0, 2 ^ 30), (0, 2 ^ 29), (0, 2 ^ 27), (0, 2 ^ 26), (0, 2 ^ 32), (0, 2 ^ 31), (0, 2 ^ 29),
     (0, 2 ^ 28), (0, 2 ^ 26)]"

lemma frombytes_carries_ok: "iv_within (iv_chain fe_carry_iv [9, 1, 3, 5, 7, 0, 2, 4, 6, 8] frombytes_ivs) (fe_ivs 101)"
  by code_simp

lemma frombytes_carries_sound:
  assumes b: "bounded frombytes_ivs h"
  shows "fe_bnd 101 (frombytes_carries h)" "fe_val (frombytes_carries h) mod fe_p = lval fe_pos h mod fe_p"
proof -
  let ?h = "foldl (\<lambda>h i. fe_carry i h) h [9, 1, 3, 5, 7, 0, 2, 4, 6, 8]"
  obtain B where B: "iv_chain fe_carry_iv [9, 1, 3, 5, 7, 0, 2, 4, 6, 8] frombytes_ivs = Some B"
    and "\<And>s. bounded B s \<Longrightarrow> bounded (fe_ivs 101) s"
    using frombytes_carries_ok by (elim iv_withinE) blast
  then have bnd: "fe_bnd 101 ?h"
    using fec.chain_bounded [OF b B] by (simp add: fe_bnd_bounded)
  then have eq: "frombytes_carries h = ?h"
    by (simp add: frombytes_carries_def fe_bnd_s32 del: foldl.simps)
  show "fe_bnd 101 (frombytes_carries h)"
    using bnd by (simp only: eq)
  show "fe_val (frombytes_carries h) mod fe_p = lval fe_pos h mod fe_p"
    unfolding eq fe_val_def by (rule fec.chain_val [OF b B])
qed

lemma take_bit_le: "take_bit n (V :: int) \<le> 2 ^ n"
  by (rule less_imp_le [OF take_bit_int_less_exp])

lemma frombytes_bounded:
  assumes "length s = 32" "0 \<le> h9" "h9 \<le> 2 ^ 26"
  shows "bounded frombytes_ivs (frombytes_limbs s h9)"
  using assms(2,3) take_bit_le [of 24] take_bit_le [of 32]
  by (simp add: frombytes_limbs_eq [OF assms(1)] frombytes_ivs_def bounded_def)

text \<open>The two uses: with the top bit masked, and without.\<close>

lemma frombytes_masked:
  assumes "length s = 32"
  defines "Y \<equiv> frombytes_carries (frombytes_limbs s (sint (push_bit 2 (load_3 s 29 AND 8388607))))"
  shows "fe_bnd 101 Y" "fe_abs Y = of_int (take_bit 255 (le s))"
proof -
  have "take_bit 23 (drop_bit 232 (le s)) * 2 ^ 2 \<le> 2 ^ 26"
    using take_bit_le [of 23 "drop_bit 232 (le s)"] by simp
  then have b: "bounded frombytes_ivs (frombytes_limbs s (sint (push_bit 2 (load_3 s 29 AND 8388607))))"
    unfolding sint_shifted_top [OF assms(1)] by (intro frombytes_bounded [OF assms(1)]) simp_all
  show "fe_bnd 101 Y"
    unfolding Y_def by (rule frombytes_carries_sound(1) [OF b])
  have "lval fe_pos (frombytes_limbs s (sint (push_bit 2 (load_3 s 29 AND 8388607)))) = take_bit 255 (le s)"
    using limbs_value [of "le s" 23] by (simp only: sint_shifted_top [OF assms(1)] frombytes_limbs_eq [OF assms(1)]) simp
  then show "fe_abs Y = of_int (take_bit 255 (le s))"
    using frombytes_carries_sound(2) [OF b] unfolding Y_def fe_abs_def of_int_gf_eq_iff by simp
qed

lemma frombytes_unmasked:
  assumes "length s = 32"
  defines "u \<equiv> frombytes_carries (frombytes_limbs s (sint (push_bit 2 (load_3 s 29))))"
  shows "fe_bnd 101 u" "fe_abs u = of_int (le s)"
proof -
  have h9: "sint (push_bit 2 (load_3 s 29)) = take_bit 24 (drop_bit 232 (le s)) * 2 ^ 2"
    using sint_shifted_load [of 29 s 2] assms by simp
  have "take_bit 24 (drop_bit 232 (le s)) * 2 ^ 2 \<le> 2 ^ 26"
    using take_bit_le [of 24 "drop_bit 232 (le s)"] by simp
  then have b: "bounded frombytes_ivs (frombytes_limbs s (sint (push_bit 2 (load_3 s 29))))"
    unfolding h9 by (intro frombytes_bounded [OF assms(1)]) simp_all
  show "fe_bnd 101 u"
    unfolding u_def by (rule frombytes_carries_sound(1) [OF b])
  have "take_bit 256 (le s) = le s"
    using le_less [of s] assms(1) by (intro take_bit_int_eq_self) simp_all
  then have "lval fe_pos (frombytes_limbs s (sint (push_bit 2 (load_3 s 29)))) = le s"
    using limbs_value [of "le s" 24] by (simp only: h9 frombytes_limbs_eq [OF assms(1)]) simp
  then show "fe_abs u = of_int (le s)"
    using frombytes_carries_sound(2) [OF b] unfolding u_def fe_abs_def of_int_gf_eq_iff by simp
qed

text \<open>The test for canonical strings.\<close>

lemma ones_above:
  fixes V :: int
  assumes "fe_p \<le> V" "V < 2 ^ 255" "5 \<le> k" "k \<le> 255"
  shows "drop_bit k V = 2 ^ (255 - k) - 1"
proof -
  have p: "(2 :: int) ^ 255 = 2 ^ (255 - k) * 2 ^ k"
    using assms(4) by (simp flip: power_add)
  have "(2 :: int) ^ 5 \<le> 2 ^ k"
    using assms(3) by (intro power_increasing) simp_all
  then have "(2 ^ (255 - k) - 1) * 2 ^ k \<le> V" "V < (2 ^ (255 - k) - 1) * 2 ^ k + 2 ^ k"
    using assms(1,2) unfolding fe_p_def p by (simp_all add: left_diff_distrib)
  then show ?thesis
    unfolding drop_bit_eq_div
    by (intro int_div_pos_eq [where r = "V - 2 ^ k * (2 ^ (255 - k) - 1)"]) (simp_all add: mult.commute)
qed

lemma noncanonical_large:
  assumes l: "length s = 32" and V: "fe_p \<le> take_bit 255 (le s)"
  shows "noncanonical (frombytes_limbs s (sint (push_bit 2 (load_3 s 29 AND 8388607))))"
proof -
  let ?V = "take_bit 255 (le s)"
  have V': "?V < 2 ^ 255"
    by (rule take_bit_int_less_exp)
  have f: "take_bit w (drop_bit k (le s)) = 2 ^ w - 1" if "5 \<le> k" "k + w \<le> 255" for k w
  proof -
    have "take_bit w (drop_bit k (le s)) = take_bit w (drop_bit k ?V)"
      using that by (simp add: drop_bit_take_bit)
    also have "drop_bit k ?V = 2 ^ (255 - k) - 1"
      using that by (intro ones_above [OF V V']) simp_all
    also have "take_bit w (2 ^ (255 - k) - 1) = (2 :: int) ^ w - 1"
      using that by (simp add: take_bit_minus_one_eq_mask take_bit_of_mask mask_eq_exp_minus_1 [symmetric] min_def)
    finally show ?thesis .
  qed
  have d: "drop_bit 32 ?V = take_bit 223 (drop_bit 32 (le s))"
    by (simp add: drop_bit_take_bit)
  have "take_bit 32 (le s) = ?V - 2 ^ 32 * drop_bit 32 ?V"
    unfolding d using split_bits [of 32 223 "le s"] by simp
  also have "drop_bit 32 ?V = 2 ^ 223 - 1"
    using ones_above [OF V V', of 32] by simp
  finally have "4294967277 \<le> take_bit 32 (le s)"
    using V by (simp add: fe_p_def)
  then show ?thesis
    unfolding noncanonical_def sint_shifted_top [OF l] frombytes_limbs_eq [OF l] by (simp add: f)
qed

section \<open>Decompression\<close>

lemma fe_1_bnd: "fe_bnd 1 fe_1"
  by (simp add: fe_1_def fe_bnd_list)

text \<open>The root satisfies the equation of the curve.\<close>

lemma frombytes_root_sound:
  assumes Y: "fe_bnd 101 Y" and r: "frombytes_root Y = Some X"
  shows "fe_bnd 101 X" "ed_curve (fe_abs X, fe_abs Y)"
proof -
  let ?y = "fe_abs Y"
  define u v where "u = fe_sub (fe_sq Y) fe_1" and "v = fe_add (fe_mul (fe_sq Y) fe_d) fe_1"
  define X0 where "X0 = fe_divpowm1 u v"
  define vxx where "vxx = fe_mul (fe_sq X0) v"
  have Y': "fe_bnd 330 Y"
    using Y by (rule fe_bnd_mono) simp
  have u: "fe_bnd 110 u" "fe_abs u = ?y\<^sup>2 - 1"
    using fe_bnd_sum(2) [where c = 101 and d = 1 and e = 110] fe_abs_lin(2) [where c = 101 and d = 1] fe_1_bnd Y'
    by (auto simp: u_def fe_simps fe_consts)
  have v: "fe_bnd 110 v" "fe_abs v = ?y\<^sup>2 * ed_d + 1"
    using fe_bnd_sum(1) [where c = 101 and d = 1 and e = 110] fe_abs_lin(1) [where c = 101 and d = 1] fe_1_bnd Y'
    by (auto simp: v_def fe_simps fe_consts ed_d_def)
  have X0: "fe_bnd 101 X0"
    unfolding X0_def by (rule fe_divpowm1_abs(2)) (use u(1) v(1) in \<open>simp_all add: fe_simps\<close>)
  then have X0': "fe_bnd 330 X0"
    by (rule fe_bnd_mono) simp
  have vxx: "fe_bnd 110 vxx" "fe_abs vxx = (fe_abs X0)\<^sup>2 * fe_abs v"
    using X0' v(1) by (auto simp: vxx_def fe_simps)
  have c: "fe_isnonzero (fe_sub vxx u) = 0 \<longleftrightarrow> fe_abs vxx = fe_abs u"
    "fe_isnonzero (fe_add vxx u) = 0 \<longleftrightarrow> fe_abs vxx = - fe_abs u"
    using u(1) vxx(1) by (simp_all add: fe_isnonzero_val fe_abs_0_iff [symmetric] fe_simps eq_neg_iff_add_eq_0)
  have r': "(if fe_isnonzero (fe_sub vxx u) \<noteq> 0 then if fe_isnonzero (fe_add vxx u) \<noteq> 0 then None
      else Some (fe_mul X0 fe_sqrtm1) else Some X0) = Some X"
    using r unfolding frombytes_root_def Let_def u_def v_def X0_def vxx_def .
  have X: "fe_bnd 101 X" "(fe_abs X)\<^sup>2 * fe_abs v = fe_abs u"
    using r' X0 X0' c vxx(2) fe_sqrtm1_sq by (auto simp: fe_simps power_mult_distrib split: if_splits)
  then show "fe_bnd 101 X"
    by blast
  show "ed_curve (fe_abs X, ?y)"
    using X(2) unfolding u(2) v(2) ed_curve_def by (simp add: algebra_simps)
qed

lemma fe_isnegative_abs: "fe_bnd 330 f \<Longrightarrow> fe_isnegative f = gf_rep (fe_abs f) mod 2"
  by (simp add: fe_isnegative_val fe_abs_def gf_rep_of_int)

lemma gf_rep_range: "0 \<le> gf_rep x" "gf_rep x < fe_p"
  using gf_rep [of x] by simp_all

lemma gf_rep_neg:
  assumes "x \<noteq> 0"
  shows "gf_rep (- x) = fe_p - gf_rep x"
proof -
  have "gf_rep x \<noteq> 0"
    using assms by (simp add: zero_gf.rep_eq flip: gf_rep_inject)
  then have x: "0 < gf_rep x" "gf_rep x < fe_p"
    using gf_rep_range [of x] by simp_all
  then have "(- gf_rep x) mod fe_p = (fe_p - gf_rep x) mod fe_p"
    by (simp add: mod_simps)
  also have "\<dots> = fe_p - gf_rep x"
    using x by (intro mod_pos_pos_trivial) simp_all
  finally show ?thesis
    by (simp add: uminus_gf.rep_eq)
qed

lemma uint_top_bit: "uint (drop_bit 7 (b :: byte)) = uint b div 128" "0 \<le> uint (drop_bit 7 b)" "uint (drop_bit 7 b) \<le> 1"
proof -
  have "uint (drop_bit 7 b) = drop_bit 7 (take_bit 8 (uint b))"
    by (subst unsigned_drop_bit_eq) simp
  then show "uint (drop_bit 7 b) = uint b div 128"
    by (simp add: drop_bit_eq_div take_bit_int_eq_self)
  then show "uint (drop_bit 7 b) \<le> 1"
    using uint_byte_less [of b] by linarith
  show "0 \<le> uint (drop_bit 7 b)"
    by (rule unsigned_greater_eq)
qed

lemma frombytes_sign_sound:
  assumes X: "fe_bnd 101 X" and r: "frombytes_sign X b = Some X'"
  shows "fe_bnd 101 X'" "fe_abs X' = fe_abs X \<or> fe_abs X' = - fe_abs X"
    "gf_rep (fe_abs X') mod 2 = uint (drop_bit 7 b)"
proof -
  have X330: "fe_bnd 330 X"
    using X by (rule fe_bnd_mono) simp
  show bnd: "fe_bnd 101 X'" and cases: "fe_abs X' = fe_abs X \<or> fe_abs X' = - fe_abs X"
    using r X X330 by (auto simp: frombytes_sign_def fe_simps split: if_splits)
  have "uint (drop_bit 7 b) = 0 \<or> uint (drop_bit 7 b) = 1"
    using uint_top_bit [of b] by linarith
  moreover have "gf_rep (- fe_abs X) mod 2 = 1 - gf_rep (fe_abs X) mod 2" if "fe_abs X \<noteq> 0"
    unfolding gf_rep_neg [OF that] by (simp add: fe_p_def) presburger
  moreover have "fe_isnegative X \<noteq> uint (drop_bit 7 b) \<Longrightarrow> fe_abs X \<noteq> 0 \<and> X' = fe_neg X"
    "fe_isnegative X = uint (drop_bit 7 b) \<Longrightarrow> X' = X"
    using r X330 by (auto simp: frombytes_sign_def fe_isnonzero_val fe_abs_0_iff split: if_splits)
  ultimately show "gf_rep (fe_abs X') mod 2 = uint (drop_bit 7 b)"
    using fe_isnegative_abs [OF X330] X330 by (cases "fe_isnegative X = uint (drop_bit 7 b)") (auto simp: fe_simps)
qed

lemma ed_curve_pm: "x' = x \<or> x' = - x \<Longrightarrow> ed_curve (x', y) \<longleftrightarrow> ed_curve (x, y)"
  by (auto simp: ed_curve_def)

lemma frombytes_sound:
  assumes l: "length s = 32" and r: "ge_frombytes_vartime s = Some h"
  shows "take_bit 255 (le s) < fe_p" "p3_Z h = fe_1" "p3_rep h (fe_abs (p3_X h), of_int (take_bit 255 (le s)))"
    "ed_curve (fe_abs (p3_X h), of_int (take_bit 255 (le s)))"
    "gf_rep (fe_abs (p3_X h)) mod 2 = uint (drop_bit 7 (s ! 31))"
proof -
  let ?h = "frombytes_limbs s (sint (push_bit 2 (load_3 s 29 AND 8388607)))"
  define Y where "Y = frombytes_carries ?h"
  note Y = frombytes_masked [OF l, folded Y_def]
  have c: "\<not> noncanonical ?h"
    using r by (auto simp: ge_frombytes_vartime_def Let_def)
  show "take_bit 255 (le s) < fe_p"
    using noncanonical_large [OF l] c by (simp add: not_le [symmetric]) blast
  obtain X0 X where X0: "frombytes_root Y = Some X0" and X: "frombytes_sign X0 (s ! 31) = Some X"
    and h: "h = \<lparr>p3_X = X, p3_Y = Y, p3_Z = fe_1, p3_T = fe_mul X Y\<rparr>"
    using r c by (auto simp: ge_frombytes_vartime_def Let_def Y_def split: option.splits)
  note root = frombytes_root_sound [OF Y(1) X0]
  note sign = frombytes_sign_sound [OF root(1) X]
  show "p3_Z h = fe_1"
    by (simp add: h)
  have "fe_bnd 110 X" "fe_bnd 110 Y" "fe_bnd 330 X" "fe_bnd 330 Y"
    using sign(1) Y(1) by (auto intro: fe_bnd_mono)
  then show "p3_rep h (fe_abs (p3_X h), of_int (take_bit 255 (le s)))"
    by (simp add: h p3_rep_def fe_simps Y(2) [symmetric])
  show "ed_curve (fe_abs (p3_X h), of_int (take_bit 255 (le s)))"
    using root(2) ed_curve_pm [OF sign(2)] by (simp add: h Y(2) [symmetric])
  show "gf_rep (fe_abs (p3_X h)) mod 2 = uint (drop_bit 7 (s ! 31))"
    using sign(3) by (simp add: h)
qed

section \<open>Compression\<close>

lemma uint_set_top:
  assumes "uint (b :: byte) < 128" "e = 0 \<or> e = 1"
  shows "uint (b XOR push_bit 7 (word_of_int e)) = uint b + 128 * e"
proof (cases "e = 0")
  case False
  then have e: "e = 1"
    using assms(2) by simp
  have "\<not> bit (uint b) 7"
    using assms(1) by (simp add: bit_iff_odd)
  then have "uint b AND 2 ^ 7 = 0"
    by (simp only: and_exp_eq_0_iff_not_bit simp_thms)
  then have "uint b XOR 2 ^ 7 = uint b + 2 ^ 7"
    by (rule disjunctive_add_eq_xor [symmetric])
  moreover have "uint (b XOR push_bit 7 1) = uint b XOR 2 ^ 7"
    by (simp add: unsigned_xor_eq)
  ultimately show ?thesis
    by (simp add: e)
qed simp

lemma le_update_last:
  assumes "length s = 32"
  shows "le (s[31 := c]) = le s + 2 ^ 248 * (uint c - uint (s ! 31))"
proof -
  have s: "s = take 31 s @ [s ! 31]"
    using take_Suc_conv_app_nth [of 31 s] assms by simp
  have "s[31 := c] = take 31 s @ [c]"
    using assms by (subst s) (simp add: list_update_append)
  then have "le (s[31 := c]) = le (take 31 s) + 2 ^ 248 * uint c"
    by (simp add: le_append assms)
  moreover have "le s = le (take 31 s) + 2 ^ 248 * uint (s ! 31)"
    by (subst s) (simp add: le_append assms)
  ultimately show ?thesis
    by (simp add: right_diff_distrib)
qed

lemma compress_bytes:
  assumes "fe_bnd 330 x" "fe_bnd 330 y"
  defines "s \<equiv> fe_tobytes y"
  shows "length (s[31 := s ! 31 XOR push_bit 7 (word_of_int (fe_isnegative x))]) = 32"
    "le (s[31 := s ! 31 XOR push_bit 7 (word_of_int (fe_isnegative x))]) = gf_rep (fe_abs y) + 2 ^ 255 * (gf_rep (fe_abs x) mod 2)"
proof -
  have s: "length s = 32" "le s = gf_rep (fe_abs y)"
    using fe_tobytes_digits [OF assms(2)] by (simp_all add: s_def fe_abs_def gf_rep_of_int)
  then show "length (s[31 := s ! 31 XOR push_bit 7 (word_of_int (fe_isnegative x))]) = 32"
    by simp
  have "uint (s ! 31) = take_bit 8 (drop_bit 248 (le s))"
    using le_nth [of 31 s] s(1) by simp
  moreover have "drop_bit 248 (le s) < 2 ^ 7"
    using gf_rep_range(2) [of "fe_abs y"] unfolding s(2) by (intro drop_bit_less_exp) (simp add: fe_p_def)
  moreover have "take_bit 8 (drop_bit 248 (le s)) \<le> drop_bit 248 (le s)"
    by (simp add: take_bit_int_less_eq_self_iff)
  ultimately have t: "uint (s ! 31) < 128"
    by simp
  have "fe_isnegative x = gf_rep (fe_abs x) mod 2"
    by (rule fe_isnegative_abs [OF assms(1)])
  moreover have "gf_rep (fe_abs x) mod 2 = 0 \<or> gf_rep (fe_abs x) mod 2 = 1"
    by linarith
  ultimately show "le (s[31 := s ! 31 XOR push_bit 7 (word_of_int (fe_isnegative x))])
      = gf_rep (fe_abs y) + 2 ^ 255 * (gf_rep (fe_abs x) mod 2)"
    using uint_set_top [OF t] s by (auto simp: le_update_last)
qed

text \<open>Decompression determines the string.\<close>

lemma compress_decompressed:
  assumes l: "length s = 32" and r: "ge_frombytes_vartime s = Some h"
  shows "ge_p3_tobytes h = s"
proof (rule le_inject)
  note f = frombytes_sound [OF assms]
  let ?V = "take_bit 255 (le s)"
  have recip: "fe_bnd 330 (fe_invert fe_1)" "fe_abs (fe_invert fe_1) = 1"
    using fe_invert_pw [of fe_1] fe_simps by (simp_all only: fe.pw_def fe_consts power_one fe_bnd_weaken)
  have X: "fe_bnd 330 (p3_X h)" "fe_bnd 330 (p3_Y h)" "fe_abs (p3_Y h) = of_int ?V"
    using f(2,3) by (auto simp: p3_rep_def fe_simps fe_consts)
  let ?x = "fe_mul (p3_X h) (fe_invert fe_1)" and ?y = "fe_mul (p3_Y h) (fe_invert fe_1)"
  have xy: "fe_bnd 330 ?x" "fe_bnd 330 ?y" "fe_abs ?x = fe_abs (p3_X h)" "fe_abs ?y = of_int ?V"
    using X recip by (simp_all add: fe_simps)
  note c = compress_bytes [OF xy(1,2)]
  have "?V mod fe_p = ?V"
    using f(1) by (intro mod_pos_pos_trivial) simp_all
  then have "le (ge_p3_tobytes h) = ?V + 2 ^ 255 * uint (drop_bit 7 (s ! 31))"
    using c(2) f(5) by (simp add: ge_p3_tobytes_def Let_def f(2) xy(3,4) gf_rep_of_int)
  also have "uint (drop_bit 7 (s ! 31)) = take_bit 1 (drop_bit 255 (le s))"
  proof -
    have "uint (s ! 31) = take_bit 8 (drop_bit 248 (le s))"
      using le_nth [of 31 s] l by simp
    then have "uint (drop_bit 7 (s ! 31)) = drop_bit 7 (take_bit 8 (drop_bit 248 (le s)))"
      unfolding uint_top_bit(1) by (simp add: drop_bit_eq_div)
    then show ?thesis
      by (simp add: drop_bit_take_bit)
  qed
  also have "?V + 2 ^ 255 * take_bit 1 (drop_bit 255 (le s)) = take_bit 256 (le s)"
    using split_bits [of 255 1 "le s"] by simp
  also have "\<dots> = le s"
    using le_less [of s] l by (intro take_bit_int_eq_self) simp_all
  finally show "le (ge_p3_tobytes h) = le s" .
  show "length (ge_p3_tobytes h) = length s"
    using c(1) by (simp add: ge_p3_tobytes_def Let_def f(2) l)
qed

section \<open>From field elements to points\<close>

text \<open>The algebra, with \<open>A = 486662\<close>: \<open>X\<close> is \<open>r->X\<close> before it is multiplied by \<open>r->Z\<close>.\<close>

lemma fromfe_curve:
  fixes A d X z w x :: "'a :: comm_ring_1"
  assumes d: "(A + 2) * d = - (A - 2)" and x: "x = z\<^sup>2 + A * z * w + w\<^sup>2"
    and X: "X\<^sup>2 * x = (A + 2) * t" "t = - (z * w)"
  shows "(A + 2) * ((z - w)\<^sup>2 - (z + w)\<^sup>2) = (A + 2) * (X\<^sup>2 * ((z + w)\<^sup>2 + d * (z - w)\<^sup>2))"
proof -
  have "(A + 2) * (X\<^sup>2 * ((z + w)\<^sup>2 + d * (z - w)\<^sup>2)) = X\<^sup>2 * ((A + 2) * (z + w)\<^sup>2 + ((A + 2) * d) * (z - w)\<^sup>2)"
    by (simp add: algebra_simps)
  also have "(A + 2) * (z + w)\<^sup>2 + ((A + 2) * d) * (z - w)\<^sup>2 = 4 * x"
    unfolding d x by (simp add: power2_eq_square algebra_simps)
  also have "X\<^sup>2 * (4 * x) = 4 * ((A + 2) * t)"
    unfolding X(1) [symmetric] by (simp add: mult_ac)
  also have "\<dots> = (A + 2) * ((z - w)\<^sup>2 - (z + w)\<^sup>2)"
    unfolding X(2) by (simp add: power2_eq_square algebra_simps)
  finally show ?thesis ..
qed

lemma A2_unit: "(486664 :: gf) dvd 1"
proof -
  have "(of_int (486664 * 9273926483667359835784520877188641297385528469960804754097196383271485070889) :: gf) = of_int 1"
    by (rule gf_eq_cert [where k = 77955]) (simp add: fe_p_def)
  then have "(486664 :: gf) * of_int 9273926483667359835784520877188641297385528469960804754097196383271485070889 = 1"
    by (simp only: of_int_mult of_int_numeral of_int_1)
  then show ?thesis
    by (metis dvd_triv_left)
qed

lemma A2_d: "486664 * ed_d = - 486660"
proof -
  have "486664 * ed_d = 4 * (121666 * ed_d)"
    by simp
  then show ?thesis
    unfolding ed_d_eq by simp
qed

lemma fe_isnonzero_abs: "fe_bnd 330 f \<Longrightarrow> fe_isnonzero f = 0 \<longleftrightarrow> fe_abs f = 0"
  by (simp add: fe_isnonzero_val fe_abs_0_iff)

lemma neg_algebra:
  fixes v w A :: "'a :: comm_ring_1"
  assumes "w = v + 1"
  shows "w\<^sup>2 - A\<^sup>2 * v = (- A * v)\<^sup>2 + A * (- A * v) * w + w\<^sup>2" "w\<^sup>2 - A\<^sup>2 * v = (- A)\<^sup>2 + A * (- A) * w + w\<^sup>2"
  unfolding assms by (simp_all add: power2_eq_square algebra_simps)

lemma fromfe_root_sound:
  assumes u: "fe_bnd 110 u" and v: "fe_bnd 110 v" "fe_abs v = 2 * (fe_abs u)\<^sup>2"
    and w: "fe_bnd 110 w" "fe_abs w = fe_abs v + 1"
    and x: "fe_bnd 220 x" "fe_abs x = (fe_abs w)\<^sup>2 - 486662\<^sup>2 * fe_abs v"
    and r: "fromfe_root False u v w x = Some (rX, z, sign)"
  shows "fe_bnd 101 rX" "fe_bnd 101 z" "sign = 0 \<or> sign = 1"
    "(fe_abs rX)\<^sup>2 * fe_abs x = 486664 * (- (fe_abs z * fe_abs w))"
    "fe_abs x = (fe_abs z)\<^sup>2 + 486662 * fe_abs z * fe_abs w + (fe_abs w)\<^sup>2"
proof -
  define X0 where "X0 = fe_divpowm1 w x"
  define q where "q = fe_mul (fe_sq X0) x"
  have X0: "fe_bnd 101 X0" "fe_bnd 330 X0"
    using fe_divpowm1_abs(2) [of w x] w(1) x(1) fe_bnd_mono [of 101 _ 330] unfolding X0_def by (auto simp: fe_simps)
  have x': "fe_bnd 330 x" and u': "fe_bnd 330 u" and v': "fe_bnd 330 v"
    using x u v by (auto simp: fe_simps)
  have q: "fe_bnd 110 q" "fe_abs q = (fe_abs X0)\<^sup>2 * fe_abs x"
    using X0 x' by (auto simp: q_def fe_simps)
  have iq: "fe_bnd 110 (fe_mul q fe_sqrtm1)" "fe_abs (fe_mul q fe_sqrtm1) = fe_abs q * fe_abs fe_sqrtm1"
    using q(1) by (auto simp: fe_simps)
  have z: "fe_copy fe_ma = fe_ma" "fe_bnd 101 fe_ma" "fe_bnd 330 fe_ma"
    using fe_const_bnd(4) fe_bnd_mono [of 101 fe_ma 330] by (auto simp: fe_copy_id fe_bnd_length)
  have b: "fe_bnd 330 fe_fffb1" "fe_bnd 330 fe_fffb2" "fe_bnd 330 fe_fffb3" "fe_bnd 330 fe_fffb4"
    using fe_const_bnd fe_bnd_mono [of 101 _ 330] by auto
  have c: "fe_isnonzero (fe_sub w q) = 0 \<longleftrightarrow> fe_abs w = fe_abs q"
    "fe_isnonzero (fe_add w q) = 0 \<longleftrightarrow> fe_abs w = - fe_abs q"
    "fe_isnonzero (fe_sub w (fe_mul q fe_sqrtm1)) = 0 \<longleftrightarrow> fe_abs w = fe_abs q * fe_abs fe_sqrtm1"
    "fe_isnonzero (fe_add w (fe_mul q fe_sqrtm1)) = 0 \<longleftrightarrow> fe_abs w = - (fe_abs q * fe_abs fe_sqrtm1)"
    using w(1) q(1) iq by (simp_all add: fe_isnonzero_abs fe_simps eq_neg_iff_add_eq_0)
  note r' = r [unfolded fromfe_root_def Let_def, folded X0_def, folded q_def, unfolded z(1)]
  have zv: "fe_abs (fe_mul fe_ma v) = - 486662 * fe_abs v"
    using z v' by (simp add: fe_simps fe_ma_abs)
  have zp: "fe_abs x = (fe_abs (fe_mul fe_ma v))\<^sup>2 + 486662 * fe_abs (fe_mul fe_ma v) * fe_abs w + (fe_abs w)\<^sup>2"
    "- (fe_abs (fe_mul fe_ma v) * fe_abs w) = 486662 * fe_abs v * fe_abs w"
    unfolding x(2) zv by (rule neg_algebra(1) [OF w(2)]) simp
  have zn: "fe_abs x = (fe_abs fe_ma)\<^sup>2 + 486662 * fe_abs fe_ma * fe_abs w + (fe_abs w)\<^sup>2"
    unfolding x(2) fe_ma_abs by (rule neg_algebra(2) [OF w(2)])
  consider (p1) "rX = fe_mul (fe_mul X0 fe_fffb1) u" "z = fe_mul fe_ma v" "sign = 0" "fe_isnonzero (fe_add w q) = 0"
    | (p2) "rX = fe_mul (fe_mul X0 fe_fffb2) u" "z = fe_mul fe_ma v" "sign = 0" "fe_isnonzero (fe_sub w q) = 0"
    | (n3) "rX = fe_mul X0 fe_fffb3" "z = fe_ma" "sign = 1" "fe_isnonzero (fe_add w (fe_mul q fe_sqrtm1)) = 0"
    | (n4) "rX = fe_mul X0 fe_fffb4" "z = fe_ma" "sign = 1" "fe_isnonzero (fe_sub w (fe_mul q fe_sqrtm1)) = 0"
    using r' by (auto split: if_splits)
  then have "fe_bnd 101 rX \<and> fe_bnd 101 z \<and> (sign = 0 \<or> sign = 1)
    \<and> (fe_abs rX)\<^sup>2 * fe_abs x = 486664 * (- (fe_abs z * fe_abs w))
    \<and> fe_abs x = (fe_abs z)\<^sup>2 + 486662 * fe_abs z * fe_abs w + (fe_abs w)\<^sup>2"
  proof cases
    case p1
    have "(fe_abs rX)\<^sup>2 * fe_abs x = (fe_abs fe_fffb1)\<^sup>2 * (fe_abs u)\<^sup>2 * fe_abs q"
      using X0 u' b by (simp add: p1(1) fe_simps q(2) power_mult_distrib mult_ac)
    also have "\<dots> = 486664 * (486662 * fe_abs v * fe_abs w)"
      using p1(4) by (simp add: c fe_fffb1_sq v(2))
    finally show ?thesis
      using p1 X0 u' v' z b zp by (simp add: fe_simps)
  next
    case p2
    have "(fe_abs rX)\<^sup>2 * fe_abs x = (fe_abs fe_fffb2)\<^sup>2 * (fe_abs u)\<^sup>2 * fe_abs q"
      using X0 u' b by (simp add: p2(1) fe_simps q(2) power_mult_distrib mult_ac)
    also have "\<dots> = 486664 * (486662 * fe_abs v * fe_abs w)"
      using p2(4) by (simp add: c(1) fe_fffb2_sq v(2))
    finally show ?thesis
      using p2 X0 u' v' z b zp by (simp add: fe_simps)
  next
    case n3
    have "(fe_abs rX)\<^sup>2 * fe_abs x = (fe_abs fe_fffb3)\<^sup>2 * fe_abs q"
      using X0 b by (simp add: n3(1) fe_simps q(2) power_mult_distrib mult_ac)
    also have "\<dots> = 486664 * (486662 * fe_abs w)"
      using n3(4) unfolding c(4) fe_fffb3_sq by (simp add: mult_ac)
    finally show ?thesis
      using n3 X0 z b zn by (simp add: fe_simps fe_ma_abs)
  next
    case n4
    have "(fe_abs rX)\<^sup>2 * fe_abs x = (fe_abs fe_fffb4)\<^sup>2 * fe_abs q"
      using X0 b by (simp add: n4(1) fe_simps q(2) power_mult_distrib mult_ac)
    also have "\<dots> = 486664 * (486662 * fe_abs w)"
      using n4(4) unfolding c(3) fe_fffb4_sq by (simp add: mult_ac)
    finally show ?thesis
      using n4 X0 z b zn by (simp add: fe_simps fe_ma_abs)
  qed
  then show "fe_bnd 101 rX" "fe_bnd 101 z" "sign = 0 \<or> sign = 1"
    "(fe_abs rX)\<^sup>2 * fe_abs x = 486664 * (- (fe_abs z * fe_abs w))"
    "fe_abs x = (fe_abs z)\<^sup>2 + 486662 * fe_abs z * fe_abs w + (fe_abs w)\<^sup>2"
    by blast+
qed

lemma fromfe_point_sound:
  assumes X: "fe_bnd 101 X" "(fe_abs X)\<^sup>2 * x = 486664 * (- (fe_abs z * fe_abs w))"
    and z: "fe_bnd 101 z" and w: "fe_bnd 110 w" and x: "x = (fe_abs z)\<^sup>2 + 486662 * fe_abs z * fe_abs w + (fe_abs w)\<^sup>2"
    and r: "fromfe_point ndebug X z sign w = Some r"
  shows "fe_bnd 110 (p2_X r)" "fe_bnd 220 (p2_Y r)" "fe_bnd 220 (p2_Z r)"
    "(fe_abs (p2_Y r))\<^sup>2 * (fe_abs (p2_Z r))\<^sup>2 - (fe_abs (p2_X r))\<^sup>2 * (fe_abs (p2_Z r))\<^sup>2
     = (fe_abs (p2_Z r)) ^ 4 + ed_d * (fe_abs (p2_X r))\<^sup>2 * (fe_abs (p2_Y r))\<^sup>2"
proof -
  define X1 where "X1 = (if fe_isnegative X \<noteq> sign then fe_neg X else X)"
  have X330: "fe_bnd 330 X"
    using X(1) by (rule fe_bnd_mono) simp
  have X1: "fe_bnd 330 X1" "(fe_abs X1)\<^sup>2 = (fe_abs X)\<^sup>2"
    using X330 by (auto simp: X1_def fe_simps)
  define R where "R = \<lparr>p2_X = fe_mul X1 (fe_add z w), p2_Y = fe_sub z w, p2_Z = fe_add z w\<rparr>"
  have "fromfe_point ndebug X z sign w = (if fe_isnegative X \<noteq> sign \<and> \<not> ndebug \<and> fe_isnonzero X = 0 then None
      else if ndebug \<or> fromfe_check R then Some R else None)"
    unfolding fromfe_point_def Let_def X1_def R_def ..
  then have "r = R"
    using r by (simp split: if_split_asm)
  then have r': "p2_X r = fe_mul X1 (fe_add z w)" "p2_Y r = fe_sub z w" "p2_Z r = fe_add z w"
    by (simp_all add: R_def)
  have zw: "fe_bnd 220 (fe_add z w)" "fe_bnd 220 (fe_sub z w)" "fe_abs (fe_add z w) = fe_abs z + fe_abs w"
    "fe_abs (fe_sub z w) = fe_abs z - fe_abs w"
    using z w fe_bnd_sum [where c = 101 and d = 110 and e = 220] fe_abs_lin(1,2) [where c = 101 and d = 110] by auto
  show "fe_bnd 110 (p2_X r)" "fe_bnd 220 (p2_Y r)" "fe_bnd 220 (p2_Z r)"
    using X1(1) zw(1,2) by (auto simp: r' fe_simps)
  let ?Y = "fe_abs z - fe_abs w" and ?Z = "fe_abs z + fe_abs w"
  have A: "(486662 :: gf) + 2 = 486664"
    by simp
  have "(486662 + 2) * (?Y\<^sup>2 - ?Z\<^sup>2) = (486662 + 2) * ((fe_abs X1)\<^sup>2 * (?Z\<^sup>2 + ed_d * ?Y\<^sup>2))"
    by (rule fromfe_curve [where t = "- (fe_abs z * fe_abs w)", OF _ x])
      (use A2_d X(2) in \<open>simp_all add: X1(2)\<close>)
  then have e: "?Y\<^sup>2 - ?Z\<^sup>2 = (fe_abs X1)\<^sup>2 * (?Z\<^sup>2 + ed_d * ?Y\<^sup>2)"
    by (rule unit_cancel [OF A2_unit [folded A]])
  have "fe_abs (p2_X r) = fe_abs X1 * ?Z"
    using X1(1) zw(1,3) by (simp add: r' fe_simps)
  moreover have "?Y\<^sup>2 * ?Z\<^sup>2 - (fe_abs X1 * ?Z)\<^sup>2 * ?Z\<^sup>2 - ?Z ^ 4 - ed_d * (fe_abs X1 * ?Z)\<^sup>2 * ?Y\<^sup>2
      = ((?Y\<^sup>2 - ?Z\<^sup>2) - (fe_abs X1)\<^sup>2 * (?Z\<^sup>2 + ed_d * ?Y\<^sup>2)) * ?Z\<^sup>2"
    by (simp add: power2_eq_square power4_eq_xxxx algebra_simps)
  then have "?Y\<^sup>2 * ?Z\<^sup>2 - (fe_abs X1 * ?Z)\<^sup>2 * ?Z\<^sup>2 - ?Z ^ 4 - ed_d * (fe_abs X1 * ?Z)\<^sup>2 * ?Y\<^sup>2 = 0"
    unfolding e by simp
  ultimately show "(fe_abs (p2_Y r))\<^sup>2 * (fe_abs (p2_Z r))\<^sup>2 - (fe_abs (p2_X r))\<^sup>2 * (fe_abs (p2_Z r))\<^sup>2
     = (fe_abs (p2_Z r)) ^ 4 + ed_d * (fe_abs (p2_X r))\<^sup>2 * (fe_abs (p2_Y r))\<^sup>2"
    by (simp add: r'(2,3) zw(3,4) algebra_simps)
qed

lemma fromfe_root_builds: "fromfe_root False u v w x = Some t \<Longrightarrow> fromfe_root ndebug u v w x = Some t"
  by (auto simp: fromfe_root_def Let_def split: if_splits)

lemma fromfe_point_builds: "fromfe_point False X z sign w = Some r \<Longrightarrow> fromfe_point True X z sign w = Some r"
  "\<exists>r. fromfe_point True X z sign w = Some r"
  by (auto simp: fromfe_point_def Let_def split: if_splits)

lemma fromfe_start_facts:
  assumes l: "length s = 32" and s: "fromfe_start s = (u, v, w, x)"
  shows "fe_bnd 110 u" "fe_bnd 110 v" "fe_abs v = 2 * (fe_abs u)\<^sup>2" "fe_bnd 110 w" "fe_abs w = fe_abs v + 1"
    "fe_bnd 220 x" "fe_abs x = (fe_abs w)\<^sup>2 - 486662\<^sup>2 * fe_abs v"
proof -
  have d: "u = frombytes_carries (frombytes_limbs s (sint (push_bit 2 (load_3 s 29))))" "v = fe_sq2 u" "w = fe_add v fe_1"
    "x = fe_add (fe_sq w) (fe_mul fe_ma2 v)"
    using s by (auto simp: fromfe_start_def Let_def)
  show "fe_bnd 110 u"
    using frombytes_unmasked(1) [OF l, folded d(1)] by (auto intro: fe_bnd_mono)
  then have v: "fe_bnd 101 v" "fe_bnd 110 v" "fe_abs v = 2 * (fe_abs u)\<^sup>2"
    by (auto simp: d(2) fe_simps)
  then show "fe_bnd 110 v" "fe_abs v = 2 * (fe_abs u)\<^sup>2"
    by simp_all
  show w: "fe_bnd 110 w" "fe_abs w = fe_abs v + 1"
    using v fe_1_bnd fe_bnd_sum(1) [where c = 101 and d = 1 and e = 110] fe_abs_lin(1) [where c = 101 and d = 1]
    by (auto simp: d(3) fe_consts)
  have ma2: "fe_bnd 330 fe_ma2"
    using fe_const_bnd(5) by (rule fe_bnd_mono) simp
  show "fe_bnd 220 x" "fe_abs x = (fe_abs w)\<^sup>2 - 486662\<^sup>2 * fe_abs v"
    using v w ma2 by (auto simp: d(4) fe_simps fe_ma_abs)
qed

definition fromfe_result :: "ge_p2 \<Rightarrow> bool" where
  "fromfe_result r \<longleftrightarrow> fe_bnd 110 (p2_X r) \<and> fe_bnd 220 (p2_Y r) \<and> fe_bnd 220 (p2_Z r)
    \<and> (fe_abs (p2_Y r))\<^sup>2 * (fe_abs (p2_Z r))\<^sup>2 - (fe_abs (p2_X r))\<^sup>2 * (fe_abs (p2_Z r))\<^sup>2
     = (fe_abs (p2_Z r)) ^ 4 + ed_d * (fe_abs (p2_X r))\<^sup>2 * (fe_abs (p2_Y r))\<^sup>2"

lemma fromfe_sound:
  assumes l: "length s = 32" and ok: "fromfe_root_ok s"
  shows "\<exists>r. ge_fromfe_frombytes_vartime True s = Some r \<and> fromfe_result r
    \<and> (\<forall>r'. ge_fromfe_frombytes_vartime False s = Some r' \<longrightarrow> r' = r)"
proof -
  obtain u v w x where st: "fromfe_start s = (u, v, w, x)"
    by (cases "fromfe_start s")
  obtain rX z sign where root: "fromfe_root False u v w x = Some (rX, z, sign)"
    using ok st by (auto simp: fromfe_root_ok_def)
  obtain r where r: "fromfe_point True rX z sign w = Some r"
    using fromfe_point_builds(2) by blast
  have e: "ge_fromfe_frombytes_vartime True s = Some r" "ge_fromfe_frombytes_vartime False s = fromfe_point False rX z sign w"
    using r st root fromfe_root_builds [OF root] by (simp_all add: ge_fromfe_frombytes_vartime_def)
  note f = fromfe_start_facts [OF l st]
  note rt = fromfe_root_sound [OF f root]
  have "fromfe_result r"
    unfolding fromfe_result_def using fromfe_point_sound [OF rt(1,4,2) f(4) rt(5) r] by blast
  then show ?thesis
    using e r fromfe_point_builds(1) by (metis option.inject)
qed

section \<open>Examples\<close>

text \<open>The string of the neutral point, and the image of zero.\<close>

lemma power_zero_gf: "0 < n \<Longrightarrow> (0 :: gf) ^ n = 0"
  by (cases n) simp_all

lemma frombytes_neutral: "\<exists>h. ge_frombytes_vartime (1 # replicate 31 0) = Some h"
proof -
  let ?s = "1 # replicate 31 0 :: byte list"
  have l: "length ?s = 32" and le: "le ?s = 1"
    by simp_all
  let ?h = "frombytes_limbs ?s (sint (push_bit 2 (load_3 ?s 29 AND 8388607)))"
  define Y where "Y = frombytes_carries ?h"
  have Y: "fe_bnd 101 Y" "fe_abs Y = 1"
    using frombytes_masked [OF l] by (simp_all add: le Y_def)
  have h: "\<not> noncanonical ?h"
    unfolding frombytes_limbs_eq [OF l] le by (simp add: noncanonical_def)
  define u v where "u = fe_sub (fe_sq Y) fe_1" and "v = fe_add (fe_mul (fe_sq Y) fe_d) fe_1"
  define X where "X = fe_divpowm1 u v"
  have Y': "fe_bnd 330 Y"
    using Y(1) by (rule fe_bnd_mono) simp
  have uv: "fe_bnd 220 u" "fe_bnd 220 v" "fe_abs u = 0"
    using Y Y' by (auto simp: u_def v_def fe_simps fe_consts)
  have X: "fe_bnd 101 X" "fe_abs X = 0"
    using fe_divpowm1_abs [of u v] uv by (simp_all add: X_def fe_simps)
  then have X': "fe_bnd 330 X"
    using fe_bnd_mono [of 101 X 330] by simp
  have "fe_bnd 110 (fe_mul (fe_sq X) v)" "fe_abs (fe_mul (fe_sq X) v) = 0"
    using X X' uv by (simp_all add: fe_simps)
  then have "fe_isnonzero (fe_sub (fe_mul (fe_sq X) v) u) = 0"
    using fe_bnd_sum(2) [where c = 110 and d = 220 and e = 330] fe_abs_lin(2) [where c = 110 and d = 220] uv
    by (simp add: fe_isnonzero_abs)
  then have root: "frombytes_root Y = Some X"
    unfolding frombytes_root_def Let_def by (simp only: u_def v_def X_def simp_thms if_False)
  have "fe_isnegative X = 0"
    using fe_isnegative_abs [OF X'] X(2) by (simp add: zero_gf.rep_eq)
  then have "frombytes_sign X (?s ! 31) = Some X"
    by (simp add: frombytes_sign_def)
  then show ?thesis
    using h root by (simp add: ge_frombytes_vartime_def Let_def Y_def)
qed

lemma fromfe_zero: "fromfe_root_ok (replicate 32 0)" "\<exists>r. ge_fromfe_frombytes_vartime False (replicate 32 0) = Some r"
proof -
  let ?s = "replicate 32 0 :: byte list"
  have l: "length ?s = 32"
    by simp
  define u where "u = frombytes_carries (frombytes_limbs ?s (sint (push_bit 2 (load_3 ?s 29))))"
  define v where "v = fe_sq2 u"
  define w where "w = fe_add v fe_1"
  define x where "x = fe_add (fe_sq w) (fe_mul fe_ma2 v)"
  have u: "fe_bnd 330 u" "fe_abs u = 0"
    using frombytes_unmasked [OF l, folded u_def] by (auto intro: fe_bnd_mono)
  have v: "fe_bnd 101 v" "fe_bnd 330 v" "fe_abs v = 0"
    using u by (simp_all add: v_def fe_simps)
  have w: "fe_bnd 110 w" "fe_bnd 330 w" "fe_abs w = 1"
    using v fe_1_bnd fe_bnd_sum(1) [where c = 101 and d = 1 and e = 110] fe_bnd_sum(1) [where c = 101 and d = 1 and e = 330]
      fe_abs_lin(1) [where c = 101 and d = 1]
    by (simp_all add: w_def fe_consts)
  have c: "fe_bnd 330 fe_ma2" "fe_bnd 330 fe_ma" "fe_bnd 330 fe_fffb2" "fe_copy fe_ma = fe_ma"
    using fe_const_bnd fe_bnd_mono [of 101 _ 330] by (auto simp: fe_copy_id fe_bnd_length)
  have x: "fe_bnd 220 x" "fe_bnd 330 x" "fe_abs x = 1"
    using v w c by (simp_all add: x_def fe_simps)
  define X where "X = fe_divpowm1 w x"
  have X: "fe_bnd 330 X" "fe_abs X = 1"
    using fe_divpowm1_abs [OF w(2) x(2)] fe_bnd_mono [of 101 _ 330] by (simp_all add: X_def w(3) x(3))
  define q where "q = fe_mul (fe_sq X) x"
  have q: "fe_bnd 110 q" "fe_abs q = 1"
    using X x by (simp_all add: q_def fe_simps)
  have y0: "fe_isnonzero (fe_sub w q) = 0"
    using w q by (simp add: fe_isnonzero_abs fe_simps)
  define rX z where "rX = fe_mul (fe_mul X fe_fffb2) u" and "z = fe_mul fe_ma v"
  have rX: "fe_bnd 330 rX" "fe_abs rX = 0" and z: "fe_bnd 110 z" "fe_bnd 330 z" "fe_abs z = 0"
    using X u v c by (simp_all add: rX_def z_def fe_simps)
  have root: "fromfe_root False u v w x = Some (rX, z, 0)"
    unfolding fromfe_root_def Let_def
    by (simp only: X_def [symmetric] q_def [symmetric] y0 c(4) rX_def z_def simp_thms if_False)
  let ?r = "\<lparr>p2_X = fe_mul rX (fe_add z w), p2_Y = fe_sub z w, p2_Z = fe_add z w\<rparr>"
  have Z: "fe_bnd 220 (fe_add z w)" "fe_abs (fe_add z w) = 1" and Y: "fe_bnd 220 (fe_sub z w)" "fe_abs (fe_sub z w) = - 1"
    using z w by (simp_all add: fe_simps)
  have i: "fe_bnd 330 (fe_invert (fe_add z w))" "fe_abs (fe_invert (fe_add z w)) = 1"
    using fe_invert_pw [of "fe_add z w"] Z by (simp_all add: fe.pw_def fe_simps)
  define cx cy where "cx = fe_sq (fe_mul (fe_mul rX (fe_add z w)) (fe_invert (fe_add z w)))"
    and "cy = fe_sq (fe_mul (fe_sub z w) (fe_invert (fe_add z w)))"
  have cxy: "fe_bnd 110 cx" "fe_abs cx = 0" "fe_bnd 101 cy" "fe_abs cy = 1" "fe_bnd 330 cx" "fe_bnd 330 cy"
    using i Z Y rX by (simp_all add: cx_def cy_def fe_simps)
  define t where "t = fe_add (fe_mul fe_d (fe_mul cx cy)) cx"
  have t: "fe_bnd 220 t" "fe_abs t = 0"
    using cxy by (simp_all add: t_def fe_simps)
  have t': "fe_bnd 321 (fe_sub t cy)" "fe_abs (fe_sub t cy) = - 1"
    using t cxy(3,4) fe_bnd_sum(2) [where c = 220 and d = 101 and e = 321] fe_abs_lin(2) [where c = 220 and d = 101]
    by simp_all
  have "fe_bnd 330 (fe_add (fe_sub t cy) fe_1)" "fe_abs (fe_add (fe_sub t cy) fe_1) = 0"
    using t' fe_1_bnd fe_bnd_sum(1) [where c = 321 and d = 1 and e = 330] fe_abs_lin(1) [where c = 321 and d = 1]
    by (simp_all add: fe_consts)
  then have "fe_isnonzero (fe_add (fe_sub t cy) fe_1) = 0"
    by (simp add: fe_isnonzero_abs)
  then have "fromfe_check ?r"
    by (simp add: fromfe_check_def t_def cx_def cy_def)
  moreover have "fe_isnegative rX = 0"
    using fe_isnegative_abs [OF rX(1)] rX(2) by (simp add: zero_gf.rep_eq)
  ultimately have "fromfe_point False rX z 0 w = Some ?r"
    by (simp add: fromfe_point_def Let_def)
  moreover have "fromfe_start ?s = (u, v, w, x)"
    by (simp add: fromfe_start_def Let_def u_def v_def w_def x_def)
  ultimately show "fromfe_root_ok ?s" "\<exists>r. ge_fromfe_frombytes_vartime False ?s = Some r"
    using root by (simp_all add: ge_fromfe_frombytes_vartime_def fromfe_root_ok_def)
qed

section \<open>Correctness of the encodings\<close>

text \<open>
  C6. When \<^verbatim>\<open>ge_frombytes_vartime\<close> accepts a string, the result is a point of the curve in extended coordinates
  whose second coordinate is the value of the lower 255 bits, and compressing it gives the string back.
\<close>

theorem ge_frombytes_sound:
  assumes "length s = 32" "ge_frombytes_vartime s = Some h"
  shows "(\<exists>x. p3_rep h (x, of_int (le s mod 2 ^ 255)) \<and> ed_curve (x, of_int (le s mod 2 ^ 255))) \<and> ge_p3_tobytes h = s"
  using frombytes_sound(3,4) [OF assms] compress_decompressed [OF assms] unfolding take_bit_eq_mod by blast

theorem ge_frombytes_witness:
  "\<exists>h. ge_frombytes_vartime (1 # replicate 31 0) = Some h \<and> ge_p3_tobytes h = 1 # replicate 31 0"
proof -
  obtain h where h: "ge_frombytes_vartime (1 # replicate 31 0) = Some h"
    using frombytes_neutral by blast
  then show ?thesis
    using ge_frombytes_sound [of "1 # replicate 31 0" h] by simp
qed

text \<open>
  C31. Strings whose lower 255 bits are not below \<open>2 ^ 255 - 19\<close> are rejected.
\<close>

theorem ge_frombytes_noncanonical:
  assumes "length s = 32" "fe_p \<le> le s mod 2 ^ 255"
  shows "ge_frombytes_vartime s = None"
  using noncanonical_large [OF assms(1)] assms(2) by (simp add: ge_frombytes_vartime_def take_bit_eq_mod)

theorem ge_frombytes_noncanonical_witness: "ge_frombytes_vartime (replicate 32 255) = None"
  by (rule ge_frombytes_noncanonical) (simp_all add: le_replicate_255 fe_p_def)

text \<open>
  Lemma. For a point with a denominator whose inverse \<^verbatim>\<open>fe_invert\<close> computes, \<^verbatim>\<open>ge_p3_tobytes\<close> and \<^verbatim>\<open>ge_tobytes\<close> write
  the canonical residue of the second coordinate, with the parity of the first in the top bit.
\<close>

theorem ge_tobytes_correct:
  assumes "p3_rep h (x, y)" "fe_abs (p3_Z h) * fe_abs (fe_invert (p3_Z h)) = 1"
  shows "length (ge_p3_tobytes h) = 32 \<and> le (ge_p3_tobytes h) = gf_rep y + 2 ^ 255 * (gf_rep x mod 2)
    \<and> ge_tobytes (ge_p3_to_p2 h) = ge_p3_tobytes h"
proof -
  have h: "fe_bnd 330 (p3_X h)" "fe_bnd 330 (p3_Y h)" "fe_bnd 330 (p3_Z h)" "fe_bnd 110 (p3_X h)" "fe_bnd 110 (p3_Y h)"
    "fe_bnd 110 (p3_Z h)" "fe_abs (p3_X h) = x * fe_abs (p3_Z h)" "fe_abs (p3_Y h) = y * fe_abs (p3_Z h)"
    using assms(1) by (auto simp: p3_rep_def fe_simps)
  have i: "fe_bnd 330 (fe_invert (p3_Z h))"
    using fe_invert_pw [OF h(3)] by (auto simp: fe.pw_def)
  let ?x = "fe_mul (p3_X h) (fe_invert (p3_Z h))" and ?y = "fe_mul (p3_Y h) (fe_invert (p3_Z h))"
  have xy: "fe_bnd 330 ?x" "fe_bnd 330 ?y" "fe_abs ?x = x" "fe_abs ?y = y"
    using h i assms(2) by (simp_all add: fe_simps mult.assoc)
  have "ge_tobytes (ge_p3_to_p2 h) = ge_p3_tobytes h"
    using h by (simp add: ge_tobytes_def ge_p3_tobytes_def ge_p3_to_p2_def fe_copy_id fe_bnd_length)
  then show ?thesis
    using compress_bytes [OF xy(1,2)] by (simp add: ge_p3_tobytes_def Let_def xy(3,4))
qed

theorem ge_tobytes_witness:
  "le (ge_p3_tobytes ge_order4) = 2 ^ 255 * (gf_rep (fe_abs fe_sqrtm1) mod 2) \<and> length (ge_p3_tobytes ge_order4) = 32"
proof -
  have "fe_bnd 330 fe_1"
    using fe_1_bnd by (rule fe_bnd_mono) simp
  then have "fe_abs (fe_invert fe_1) = 1"
    using fe_invert_pw by (simp add: fe.pw_def fe_consts)
  then show ?thesis
    using ge_tobytes_correct [OF order4(1)] by (simp add: ge_order4_def fe_consts zero_gf.rep_eq)
qed

text \<open>
  C23. For every string of 32 bytes for which the square root is found, as \<^verbatim>\<open>ge_fromfe_frombytes_vartime\<close> asserts in the last of its four
  cases, the build without assertions, which has no check at the end, returns a result that satisfies the homogeneous equation of
  the curve and whose limbs fit the following \<^verbatim>\<open>ge_mul8\<close>; the build with assertions returns the same result, or fails in one of its other
  assertions.
\<close>

theorem ge_fromfe_on_curve:
  assumes "length s = 32" "fromfe_root_ok s"
  shows "\<exists>r. ge_fromfe_frombytes_vartime True s = Some r
    \<and> fe_bnd 110 (p2_X r) \<and> fe_bnd 220 (p2_Y r) \<and> fe_bnd 220 (p2_Z r)
    \<and> (fe_abs (p2_Y r))\<^sup>2 * (fe_abs (p2_Z r))\<^sup>2 - (fe_abs (p2_X r))\<^sup>2 * (fe_abs (p2_Z r))\<^sup>2
     = (fe_abs (p2_Z r)) ^ 4 + ed_d * (fe_abs (p2_X r))\<^sup>2 * (fe_abs (p2_Y r))\<^sup>2
    \<and> (\<forall>r'. ge_fromfe_frombytes_vartime False s = Some r' \<longrightarrow> r' = r)"
  using fromfe_sound [OF assms] unfolding fromfe_result_def by blast

theorem ge_fromfe_witness:
  "\<exists>r. ge_fromfe_frombytes_vartime True (replicate 32 0) = Some r \<and> ge_fromfe_frombytes_vartime False (replicate 32 0) = Some r
    \<and> fe_bnd 110 (p2_X r)"
  using ge_fromfe_on_curve [of "replicate 32 0"] fromfe_zero by auto

end
