(* ===== verification/ByteWords.thy ===== *)
theory ByteWords
  imports Prelude
begin

text \<open>
  32-bit words in byte strings, in both byte orders, and the rotations of \<^verbatim>\<open>int-util.h\<close>.
\<close>

section \<open>Loads and stores\<close>

text \<open>On a little-endian machine \<^verbatim>\<open>SWAP32LE\<close> is the identity: the word at offset \<open>k\<close>.\<close>

definition load32_le :: "byte list \<Rightarrow> nat \<Rightarrow> u32" where
  "load32_le s k = word_of_int (le (take 4 (drop k s)))"

definition store32_le :: "u32 \<Rightarrow> byte list" where
  "store32_le v = map (\<lambda>k. ucast (drop_bit (8 * k) v)) [0, 1, 2, 3]"

text \<open>The rotation of \<^verbatim>\<open>int-util.h\<close>, whose shifts are reduced modulo the width.\<close>

definition rol32 :: "u32 \<Rightarrow> int \<Rightarrow> u32" where
  "rol32 x r = push_bit (nat (r mod 32)) x OR drop_bit (nat ((- r) mod 32)) x"

text \<open>\<^verbatim>\<open>memcpy(dst + off, src, n)\<close> with \<open>n = length src\<close>.\<close>

definition memcpy :: "byte list \<Rightarrow> nat \<Rightarrow> byte list \<Rightarrow> byte list" where
  "memcpy dst off src = take off dst @ src @ drop (off + length src) dst"

section \<open>Lemmas\<close>

lemma length_memcpy: "off + length src \<le> length dst \<Longrightarrow> length (memcpy dst off src) = length dst"
  by (simp add: memcpy_def)

lemma take_memcpy: "off \<le> length dst \<Longrightarrow> take (off + length src) (memcpy dst off src) = take off dst @ src"
  by (simp add: memcpy_def)

lemma length_store32_le [simp]: "length (store32_le v) = 4"
  by (simp add: store32_le_def)

lemma nth_store32_le: "k < 4 \<Longrightarrow> store32_le v ! k = ucast (drop_bit (8 * k) v)"
  unfolding store32_le_def by (simp add: less_Suc_eq numeral_eq_Suc) (elim disjE; simp)

lemma length_concat_store: "length (concat (map store32_le ws)) = 4 * length ws"
  by (simp add: length_concat_uniform)

lemma nth_concat_store:
  "i < 4 * length ws \<Longrightarrow> concat (map store32_le ws) ! i = store32_le (ws ! (i div 4)) ! (i mod 4)"
  by (simp add: nth_concat_uniform)

lemma bit_load32_le:
  assumes "k + 4 \<le> length s" "n < 32"
  shows "bit (load32_le s k) n = bit (s ! (k + n div 8)) (n mod 8)"
proof -
  have "n div 8 < 4"
    using assms(2) by simp
  then have "uint (s ! (k + n div 8)) = take_bit 8 (drop_bit (8 * (n div 8)) (le (take 4 (drop k s))))"
    using le_nth [of "n div 8" "take 4 (drop k s)"] assms(1) by simp
  then have "bit (uint (s ! (k + n div 8))) (n mod 8) = bit (le (take 4 (drop k s))) n"
    by (simp add: bit_simps)
  then show ?thesis
    using assms(2) by (simp add: load32_le_def bit_simps bit_uint_iff)
qed

text \<open>A word that is stored, as bytes, after it was combined with a word of the input.\<close>

lemma store32_le_xor:
  assumes "k + 4 \<le> length s" "i < 4"
  shows "store32_le (v XOR load32_le s k) ! i = s ! (k + i) XOR store32_le v ! i"
proof (rule bit_word_eqI)
  fix n
  assume "n < LENGTH(8)"
  then have "(8 * i + n) div 8 = i" "(8 * i + n) mod 8 = n" "8 * i + n < 32"
    using assms(2) by simp_all
  then show "bit (store32_le (v XOR load32_le s k) ! i) n = bit (s ! (k + i) XOR store32_le v ! i) n"
    using assms bit_load32_le [OF assms(1), of "8 * i + n"] \<open>n < LENGTH(8)\<close>
    by (auto simp: nth_store32_le bit_simps)
qed

lemma length_16:
  assumes "length x = 16"
  obtains a b c d e f g h i j k l m n u v where "x = [a, b, c, d, e, f, g, h, i, j, k, l, m, n, u, v]"
  using assms by (auto simp: numeral_eq_Suc length_Suc_conv)

lemma word_rotl_shifts:
  fixes x :: "'a::len word"
  assumes r: "0 < r" "r < LENGTH('a)"
  shows "push_bit r x OR drop_bit (LENGTH('a) - r) x = word_rotl r x"
proof (rule bit_word_eqI)
  fix n
  assume n: "n < LENGTH('a)"
  show "bit (push_bit r x OR drop_bit (LENGTH('a) - r) x) n = bit (word_rotl r x) n"
  proof (cases "r \<le> n")
    case True
    moreover have "\<not> bit x (LENGTH('a) - r + n)"
      using bit_imp_le_length [of x "LENGTH('a) - r + n"] True r by auto
    moreover have "(n + LENGTH('a) - r) mod LENGTH('a) = n - r"
      using n r True by (simp add: mod_if)
    ultimately show ?thesis
      using n r by (simp add: bit_simps)
  next
    case False
    then have "(n + LENGTH('a) - r) mod LENGTH('a) = LENGTH('a) + n - r"
      using n r by simp
    then show ?thesis
      using n r False by (simp add: bit_simps)
  qed
qed

lemma rol32_word_rotl: "0 < r \<Longrightarrow> r < 32 \<Longrightarrow> rol32 x (int r) = word_rotl r x"
proof -
  assume r: "0 < r" "r < 32"
  then have "nat (- int r mod 32) = 32 - r" "nat (int r mod 32) = r"
    by (simp_all add: zmod_zminus1_eq_if)
  then show ?thesis
    using word_rotl_shifts [of r x] r by (simp add: rol32_def)
qed

text \<open>A 64-bit counter in two halves: an addition that carries out of the lower half only when it leaves zero there.\<close>

lemma split_add:
  fixes n :: u64
  assumes "uint n mod 2 ^ 32 + x \<le> 2 ^ 32" "0 < x"
  shows "ucast (n + word_of_int x) = (ucast n + word_of_int x :: u32)"
    "(ucast (drop_bit 32 (n + word_of_int x)) :: u32)
      = (if (ucast n + word_of_int x :: u32) = 0 then ucast (drop_bit 32 n) + 1 else ucast (drop_bit 32 n))"
proof -
  define h where "h = uint n div 2 ^ 32"
  define l where "l = uint n mod 2 ^ 32"
  have n: "uint n = 2 ^ 32 * h + l" "0 \<le> l" "l < 2 ^ 32" "0 \<le> h" "h < 2 ^ 32" "l + x \<le> 2 ^ 32"
    using uint_lt2p [of n] assms(1) by (simp_all add: h_def l_def div_less_iff_less_mult pos_imp_zdiv_nonneg_iff)
  have low: "(ucast n :: u32) = word_of_int l"
    unfolding ucast_eq l_def word_of_int_eq_iff take_bit_eq_mod by simp
  have sum: "uint (n + word_of_int x) = (2 ^ 32 * h + l + x) mod 2 ^ 64"
    unfolding uint_word_ariths uint_word_of_int n(1) by (simp add: mod_simps)
  have "(2 ^ 32 * h + l + x) mod 2 ^ 64 mod 2 ^ 32 = (2 ^ 32 * h + (l + x)) mod 2 ^ 32"
    by (simp add: mod_mod_cancel add.assoc)
  also have "\<dots> = (l + x) mod 2 ^ 32"
    by (rule mod_mult_self4)
  finally have "(word_of_int (uint (n + word_of_int x)) :: u32) = word_of_int (l + x)"
    unfolding word_of_int_eq_iff take_bit_eq_mod sum by simp
  then show "ucast (n + word_of_int x) = (ucast n + word_of_int x :: u32)"
    unfolding ucast_eq [of "n + word_of_int x"] low by simp
  have high: "(ucast (drop_bit 32 m) :: u32) = word_of_int (uint m div 2 ^ 32)" for m :: u64
  proof -
    have "uint (drop_bit 32 m) = drop_bit 32 (uint m)"
      using uint_lt2p [of m] by (simp add: unsigned_drop_bit_eq take_bit_eq_mod)
    then show ?thesis
      unfolding ucast_eq by (simp only: drop_bit_eq_div [of 32 "uint m"])
  qed
  have sum32: "(ucast n + word_of_int x :: u32) = word_of_int (l + x)"
    by (simp add: low)
  show "(ucast (drop_bit 32 (n + word_of_int x)) :: u32)
      = (if (ucast n + word_of_int x :: u32) = 0 then ucast (drop_bit 32 n) + 1 else ucast (drop_bit 32 n))"
  proof (cases "l + x = 2 ^ 32")
    case True
    then have "2 ^ 32 * h + l + x = 2 ^ 32 * (h + 1)"
      by (simp add: add.assoc)
    moreover have "2 ^ 32 * (h + 1) mod 2 ^ 64 = 2 ^ 32 * ((h + 1) mod 2 ^ 32)"
      using mult_mod_right [of "2 ^ 32 :: int" "h + 1" "2 ^ 32"] by simp
    ultimately have "(2 ^ 32 * h + l + x) mod 2 ^ 64 div 2 ^ 32 = (h + 1) mod 2 ^ 32"
      by (simp only:) simp
    moreover have "(word_of_int ((h + 1) mod 2 ^ 32) :: u32) = word_of_int (h + 1)"
      unfolding word_of_int_eq_iff take_bit_eq_mod by simp
    ultimately show ?thesis
      unfolding high sum sum32 True by (simp add: h_def)
  next
    case False
    then have l: "l + x < 2 ^ 32"
      using n by linarith
    then have "2 ^ 32 * h + l + x < 2 ^ 64"
      using n by simp
    then have "(2 ^ 32 * h + l + x) mod 2 ^ 64 div 2 ^ 32 = h"
      using n l assms(2) by (simp add: add.assoc)
    moreover have "uint (word_of_int (l + x) :: u32) = l + x"
      unfolding uint_word_of_int using l n assms(2) by simp
    then have "(word_of_int (l + x) :: u32) \<noteq> 0"
      using n assms(2) by auto
    ultimately show ?thesis
      unfolding high sum sum32 by (simp add: h_def)
  qed
qed

end
