(* ===== verification/Keccak.thy ===== *)
theory Keccak
  imports ByteWords
begin

text \<open>
  The hash functions of \<^verbatim>\<open>keccak.c\<close> and \<^verbatim>\<open>hash.c\<close>: the permutation \<^verbatim>\<open>keccakf\<close>, the one-shot \<^verbatim>\<open>keccak\<close>, and the
  incremental \<^verbatim>\<open>keccak_init\<close>, \<^verbatim>\<open>keccak_update\<close>, \<^verbatim>\<open>keccak_finish\<close>, on a little-endian machine.
\<close>

section \<open>The permutation\<close>

definition ROTL64 :: "u64 \<Rightarrow> nat \<Rightarrow> u64" where
  "ROTL64 x y = push_bit y x OR drop_bit (64 - y) x"

definition keccakf_rndc :: "u64 list" where
  "keccakf_rndc =
     [0x0000000000000001, 0x0000000000008082, 0x800000000000808a,
      0x8000000080008000, 0x000000000000808b, 0x0000000080000001,
      0x8000000080008081, 0x8000000000008009, 0x000000000000008a,
      0x0000000000000088, 0x0000000080008009, 0x000000008000000a,
      0x000000008000808b, 0x800000000000008b, 0x8000000000008089,
      0x8000000000008003, 0x8000000000008002, 0x8000000000000080,
      0x000000000000800a, 0x800000008000000a, 0x8000000080008081,
      0x8000000000008080, 0x0000000080000001, 0x8000000080008008]"

definition keccakf_rotc :: "nat list" where
  "keccakf_rotc =
     [1, 3, 6, 10, 15, 21, 28, 36, 45, 55, 2, 14,
      27, 41, 56, 8, 25, 43, 62, 18, 39, 61, 20, 44]"

definition keccakf_piln :: "nat list" where
  "keccakf_piln =
     [10, 7, 11, 17, 18, 3, 5, 16, 8, 21, 24, 4,
      15, 23, 19, 13, 12, 2, 20, 14, 22, 9, 6, 1]"

definition theta :: "u64 list \<Rightarrow> u64 list" where
  "theta st =
     (let bc = map (\<lambda>i. st ! i XOR st ! (i + 5) XOR st ! (i + 10) XOR st ! (i + 15) XOR st ! (i + 20)) [0, 1, 2, 3, 4]
      in foldl (\<lambda>st i.
           let t = bc ! ((i + 4) mod 5) XOR ROTL64 (bc ! ((i + 1) mod 5)) 1
           in foldl (\<lambda>st j. st[j + i := st ! (j + i) XOR t]) st [0, 5, 10, 15, 20])
         st [0, 1, 2, 3, 4])"

definition rho_pi :: "u64 list \<Rightarrow> u64 list" where
  "rho_pi st =
     snd (foldl (\<lambda>(t, st) i.
       let j = keccakf_piln ! i;
           bc0 = st ! j
       in (bc0, st[j := ROTL64 t (keccakf_rotc ! i)]))
       (st ! 1, st) [0..<24])"

definition chi :: "u64 list \<Rightarrow> u64 list" where
  "chi st =
     foldl (\<lambda>st j.
       let bc = map (\<lambda>i. st ! (j + i)) [0, 1, 2, 3, 4]
       in foldl (\<lambda>st i. st[j + i := st ! (j + i) XOR (NOT (bc ! ((i + 1) mod 5)) AND bc ! ((i + 2) mod 5))])
            st [0, 1, 2, 3, 4])
       st [0, 5, 10, 15, 20]"

definition iota :: "nat \<Rightarrow> u64 list \<Rightarrow> u64 list" where
  "iota round st = st[0 := st ! 0 XOR keccakf_rndc ! round]"

definition keccakf :: "u64 list \<Rightarrow> nat \<Rightarrow> u64 list" where
  "keccakf st rounds = foldl (\<lambda>st round. iota round (chi (rho_pi (theta st)))) st [0..<rounds]"

section \<open>The one-shot hash\<close>

text \<open>A 64-bit word of a byte string and the bytes of a word, in little-endian order (\<^verbatim>\<open>swap64le\<close>).\<close>

definition load64 :: "byte list \<Rightarrow> nat \<Rightarrow> u64" where
  "load64 s i = word_of_int (le (take 8 (drop (8 * i) s)))"

definition store64 :: "u64 \<Rightarrow> byte list" where
  "store64 w = map (\<lambda>k. ucast (drop_bit (8 * k) w)) [0, 1, 2, 3, 4, 5, 6, 7]"

definition xor_block :: "nat \<Rightarrow> u64 list \<Rightarrow> byte list \<Rightarrow> u64 list" where
  "xor_block rsizw st block = foldl (\<lambda>st i. st[i := st ! i XOR load64 block i]) st [0..<rsizw]"

text \<open>\<^verbatim>\<open>local_abort\<close> ends the process: the only error value.\<close>

datatype abort = Bad_keccak_use

text \<open>The loop over full blocks.  It need not end: with a rate of 0 it never does.\<close>

partial_function (option) absorb :: "nat \<Rightarrow> byte list \<Rightarrow> u64 list \<Rightarrow> (byte list \<times> u64 list) option" where
  "absorb rsiz inp st =
     (if length inp \<ge> rsiz then absorb rsiz (drop rsiz inp) (keccakf (xor_block (rsiz div 8) st inp) 24)
      else Some (inp, st))"

text \<open>The last block: the message, a byte 1, zeros, and the top bit of the last byte.\<close>

definition pad_block :: "nat \<Rightarrow> byte list \<Rightarrow> byte list" where
  "pad_block rsiz inp =
     (let temp = inp @ [1] @ replicate (rsiz - (length inp + 1)) 0
      in temp[rsiz - 1 := temp ! (rsiz - 1) OR 0x80])"

text \<open>
  \<^verbatim>\<open>keccak(in, inlen, md, mdlen)\<close>.  The outer option is whether the call ends; then it aborts or writes \<open>mdlen\<close>
  bytes.
\<close>

definition keccak :: "byte list \<Rightarrow> int \<Rightarrow> (abort + byte list) option" where
  "keccak inp mdlen =
     (if mdlen \<le> 0 \<or> mdlen > 100 \<and> mdlen \<noteq> 200 then Some (Inl Bad_keccak_use)
      else
        let rsiz = (if mdlen = 200 then 136 else nat (200 - 2 * mdlen));
            rsizw = rsiz div 8
        in case absorb rsiz inp (replicate 25 0) of
             None \<Rightarrow> None
           | Some (inp, st) \<Rightarrow>
               if length inp + 1 \<ge> 144 \<or> length inp > rsiz \<or> rsiz - length inp + length inp + 1 \<ge> 144 \<or> rsiz = 0
                  \<or> rsiz - 1 \<ge> 144 \<or> rsizw * 8 > 144
               then Some (Inl Bad_keccak_use)
               else
                 let temp = pad_block rsiz inp;
                     st = xor_block rsizw st temp;
                     st = keccakf st 24
                 in if mdlen mod 8 \<noteq> 0 then Some (Inl Bad_keccak_use)
                    else Some (Inr (concat (map store64 (take (nat (mdlen div 8)) st)))))"

definition keccak1600 :: "byte list \<Rightarrow> (abort + byte list) option" where
  "keccak1600 inp = keccak inp 200"

text \<open>\<^verbatim>\<open>hash.c\<close>: the state of the hash is the 200 bytes of the sponge, the fast hash its first 32.\<close>

definition hash_permutation :: "u64 list \<Rightarrow> u64 list" where
  "hash_permutation state = keccakf state 24"

definition hash_process :: "byte list \<Rightarrow> (abort + byte list) option" where
  "hash_process buf = keccak1600 buf"

definition cn_fast_hash :: "byte list \<Rightarrow> (abort + byte list) option" where
  "cn_fast_hash data = map_option (map_sum id (take 32)) (hash_process data)"

section \<open>The incremental hash\<close>

text \<open>\<^verbatim>\<open>message\<close> holds 136 bytes; the code also reads it as 17 words.  \<^verbatim>\<open>rest\<close> is a 64-bit \<^verbatim>\<open>size_t\<close>.\<close>

record keccak_ctx =
  ctx_hash :: "u64 list"
  ctx_message :: "byte list"
  ctx_rest :: nat

definition KECCAK_FINALIZED :: nat where
  "KECCAK_FINALIZED = 0x80000000"

definition keccak_init :: keccak_ctx where
  "keccak_init = \<lparr>ctx_hash = replicate 25 0, ctx_message = replicate 136 0, ctx_rest = 0\<rparr>"

definition process_block :: "u64 list \<Rightarrow> byte list \<Rightarrow> u64 list" where
  "process_block st block = keccakf (xor_block 17 st block) 24"

text \<open>The loop over full blocks; \<^verbatim>\<open>is_aligned\<close> says whether they are read in place or through \<^verbatim>\<open>message\<close>.\<close>

function update_blocks :: "bool \<Rightarrow> u64 list \<Rightarrow> byte list \<Rightarrow> byte list \<Rightarrow> u64 list \<times> byte list \<times> byte list" where
  "update_blocks is_aligned hash message inp =
     (if length inp \<ge> 136 then
        let message = (if is_aligned then message else memcpy message 0 (take 136 inp));
            block = (if is_aligned then inp else message)
        in update_blocks is_aligned (process_block hash block) message (drop 136 inp)
      else (hash, message, inp))"
  by auto
termination
  by (relation "measure (\<lambda>(is_aligned, hash, message, inp). length inp)") auto

definition keccak_update :: "bool \<Rightarrow> keccak_ctx \<Rightarrow> byte list \<Rightarrow> abort + keccak_ctx" where
  "keccak_update is_aligned ctx inp =
     (if ctx_rest ctx AND KECCAK_FINALIZED \<noteq> 0 then Inl Bad_keccak_use
      else
        let idx = ctx_rest ctx;
            ctx = ctx\<lparr>ctx_rest := ((ctx_rest ctx + length inp) mod 2 ^ 64) mod 136\<rparr>;
            left = 136 - idx;
            ctx' = (if idx \<noteq> 0 then ctx\<lparr>ctx_message := memcpy (ctx_message ctx) idx (take left inp)\<rparr> else ctx)
        in if idx \<noteq> 0 \<and> length inp < left then Inr ctx'
           else
             let hash = (if idx \<noteq> 0 then process_block (ctx_hash ctx') (ctx_message ctx') else ctx_hash ctx');
                 inp = (if idx \<noteq> 0 then drop left inp else inp);
                 (hash, message, inp) = update_blocks is_aligned hash (ctx_message ctx') inp;
                 message = (if length inp \<noteq> 0 then memcpy message 0 inp else message)
             in Inr (ctx'\<lparr>ctx_hash := hash, ctx_message := message\<rparr>))"

definition keccak_finish :: "keccak_ctx \<Rightarrow> keccak_ctx \<times> byte list" where
  "keccak_finish ctx =
     (let ctx =
        (if ctx_rest ctx AND KECCAK_FINALIZED = 0 then
           let message = memcpy (ctx_message ctx) (ctx_rest ctx) (replicate (136 - ctx_rest ctx) 0);
               message = message[ctx_rest ctx := message ! ctx_rest ctx OR 0x01];
               message = message[135 := message ! 135 OR 0x80]
           in ctx\<lparr>ctx_message := message, ctx_hash := process_block (ctx_hash ctx) message, ctx_rest := KECCAK_FINALIZED\<rparr>
         else ctx)
      in (ctx, take 32 (concat (map store64 (ctx_hash ctx)))))"

end
