(* ===== verification/KeccakF.thy ===== *)
theory KeccakF
  imports Keccak
begin

text \<open>
  The permutation of \<^verbatim>\<open>keccak.c\<close> against the definition of Keccak-f[1600] by its five step mappings on lanes, with the
  rotation offsets and the round constants derived from their definitions and not from tables.
\<close>

section \<open>The specification of the permutation\<close>

definition lanes :: "u64 list \<Rightarrow> nat \<Rightarrow> nat \<Rightarrow> u64" where
  "lanes st x y = st ! (5 * y + x)"

definition spec_theta :: "(nat \<Rightarrow> nat \<Rightarrow> u64) \<Rightarrow> nat \<Rightarrow> nat \<Rightarrow> u64" where
  "spec_theta A x y =
     (let C = (\<lambda>x. A x 0 XOR A x 1 XOR A x 2 XOR A x 3 XOR A x 4)
      in A x y XOR (C ((x + 4) mod 5) XOR ROTL64 (C ((x + 1) mod 5)) 1))"

primrec rho_pos :: "nat \<Rightarrow> nat \<times> nat" where
  "rho_pos 0 = (1, 0)"
| "rho_pos (Suc t) = (let (x, y) = rho_pos t in (y, (2 * x + 3 * y) mod 5))"

definition rho_offset :: "nat \<Rightarrow> nat \<Rightarrow> nat" where
  "rho_offset x y =
     (case filter (\<lambda>t. rho_pos t = (x, y)) [0..<24] of [] \<Rightarrow> 0 | t # _ \<Rightarrow> ((t + 1) * (t + 2) div 2) mod 64)"

definition spec_rho :: "(nat \<Rightarrow> nat \<Rightarrow> u64) \<Rightarrow> nat \<Rightarrow> nat \<Rightarrow> u64" where
  "spec_rho A x y = ROTL64 (A x y) (rho_offset x y)"

definition spec_pi :: "(nat \<Rightarrow> nat \<Rightarrow> u64) \<Rightarrow> nat \<Rightarrow> nat \<Rightarrow> u64" where
  "spec_pi A x y = A ((x + 3 * y) mod 5) x"

definition spec_chi :: "(nat \<Rightarrow> nat \<Rightarrow> u64) \<Rightarrow> nat \<Rightarrow> nat \<Rightarrow> u64" where
  "spec_chi A x y = A x y XOR (NOT (A ((x + 1) mod 5) y) AND A ((x + 2) mod 5) y)"

definition lfsr_step :: "bool list \<Rightarrow> bool list" where
  "lfsr_step R =
     (let R = False # R; c = R ! 8
      in take 8 (R[0 := R ! 0 \<noteq> c, 4 := R ! 4 \<noteq> c, 5 := R ! 5 \<noteq> c, 6 := R ! 6 \<noteq> c]))"

primrec lfsr_bits :: "nat \<Rightarrow> bool list \<Rightarrow> bool list" where
  "lfsr_bits 0 R = []"
| "lfsr_bits (Suc n) R = R ! 0 # lfsr_bits n (lfsr_step R)"

definition spec_rc :: "nat \<Rightarrow> u64" where
  "spec_rc ir =
     (let rc = lfsr_bits 168 [True, False, False, False, False, False, False, False]
      in foldl (\<lambda>r j. if rc ! (j + 7 * ir) then r OR push_bit (2 ^ j - 1) 1 else r) 0 [0, 1, 2, 3, 4, 5, 6])"

definition spec_iota :: "nat \<Rightarrow> (nat \<Rightarrow> nat \<Rightarrow> u64) \<Rightarrow> nat \<Rightarrow> nat \<Rightarrow> u64" where
  "spec_iota ir A x y = (if x = 0 \<and> y = 0 then A x y XOR spec_rc ir else A x y)"

primrec spec_keccakf :: "nat \<Rightarrow> (nat \<Rightarrow> nat \<Rightarrow> u64) \<Rightarrow> nat \<Rightarrow> nat \<Rightarrow> u64" where
  "spec_keccakf 0 A = A"
| "spec_keccakf (Suc n) A = spec_iota n (spec_chi (spec_pi (spec_rho (spec_theta (spec_keccakf n A)))))"

definition same_lanes :: "(nat \<Rightarrow> nat \<Rightarrow> u64) \<Rightarrow> (nat \<Rightarrow> nat \<Rightarrow> u64) \<Rightarrow> bool" where
  "same_lanes A B \<longleftrightarrow> (\<forall>x<5. \<forall>y<5. A x y = B x y)"

lemma below5: "(\<forall>x<5. P x) \<longleftrightarrow> P 0 \<and> P 1 \<and> P 2 \<and> P 3 \<and> P (4 :: nat)"
  by (simp add: numeral_eq_Suc All_less_Suc2)

lemma less25: "k < 25 \<Longrightarrow> k = 5 * (k div 5) + k mod 5 \<and> k div 5 < (5 :: nat) \<and> k mod 5 < 5"
  by auto

text \<open>A loop that updates distinct positions.\<close>

lemma foldl_updates:
  assumes "distinct (map f js)"
  shows "foldl (\<lambda>st j. st[f j := h j (st ! f j)]) st js ! k
    = (case find (\<lambda>j. f j = k) js of None \<Rightarrow> st ! k | Some j \<Rightarrow> if k < length st then h j (st ! k) else st ! k)"
  using assms
proof (induction js arbitrary: st)
  case (Cons j js)
  have "find (\<lambda>j. f j = k) js = None" if "f j = k"
    using Cons.prems that unfolding find_None_iff by (metis distinct.simps(2) image_eqI list.map(2) set_map)
  with Cons show ?case
    by (cases "k < length st") (auto simp: nth_list_update list_update_beyond split: option.splits)
qed simp

lemma length_foldl_updates: "length (foldl (\<lambda>st j. st[f j := h j (st ! f j)]) st js) = length st"
  by (induction js arbitrary: st) simp_all

lemma column_update:
  assumes "length st = 25" "x < 5" "y < 5" "i < 5"
  shows "foldl (\<lambda>st j. st[j + i := st ! (j + i) XOR t]) st [0, 5, 10, 15, 20] ! (5 * y + x)
    = (if x = i then st ! (5 * y + x) XOR t else st ! (5 * y + x))"
proof -
  have "5 * y + x < 25"
    using assms by linarith
  moreover have "y = 0 \<or> y = 1 \<or> y = 2 \<or> y = 3 \<or> y = 4" "x = 0 \<or> x = 1 \<or> x = 2 \<or> x = 3 \<or> x = 4"
    "i = 0 \<or> i = 1 \<or> i = 2 \<or> i = 3 \<or> i = 4"
    using assms by linarith+
  ultimately show ?thesis
    using foldl_updates [of "\<lambda>j. j + i" "[0, 5, 10, 15, 20]" "\<lambda>j v. v XOR t" st "5 * y + x"] assms(1)
    by (elim disjE) simp_all
qed

lemma length_column_update: "length (foldl (\<lambda>st j. st[j + i := st ! (j + i) XOR t]) st js) = length st"
  by (rule length_foldl_updates [of "\<lambda>j. j + i" "\<lambda>j v. v XOR t"])

lemma foldl5:
  "foldl F s [0 :: nat, 1, 2, 3, 4] = F (F (F (F (F s 0) 1) 2) 3) 4"
  "foldl F s [0 :: nat, 5, 10, 15, 20] = F (F (F (F (F s 0) 5) 10) 15) 20"
  by simp_all

lemma theta_spec:
  assumes "length st = 25"
  shows "same_lanes (lanes (theta st)) (spec_theta (lanes st))" "length (theta st) = 25"
proof -
  define C where "C = (\<lambda>i. st ! i XOR st ! (i + 5) XOR st ! (i + 10) XOR st ! (i + 15) XOR st ! (i + 20))"
  define t where "t = (\<lambda>i. C ((i + 4) mod 5) XOR ROTL64 (C ((i + 1) mod 5)) 1)"
  define upd where "upd = (\<lambda>i s. foldl (\<lambda>st j. st[j + i := st ! (j + i) XOR t i]) s [0 :: nat, 5, 10, 15, 20])"
  have bc: "map C [0, 1, 2, 3, 4] ! k = C k" if "k < 5" for k
    using that nth_map [of k "[0, 1, 2, 3, 4]" C] by (auto simp: nth_Cons numeral_eq_Suc less_Suc_eq)
  have eq: "theta st = upd 4 (upd 3 (upd 2 (upd 1 (upd 0 st))))"
    unfolding theta_def Let_def foldl5(1) upd_def t_def C_def [symmetric] by (simp only: bc mod_less_divisor zero_less_numeral)
  have len: "length (upd i s) = length s" for i s
    unfolding upd_def by (rule length_column_update)
  show "length (theta st) = 25"
    by (simp add: eq len assms)
  have u: "lanes (upd i s) x y = (if x = i then lanes s x y XOR t i else lanes s x y)"
    if "length s = 25" "x < 5" "y < 5" "i < 5" for i s x y
    using column_update [OF that] by (simp add: upd_def lanes_def)
  show "same_lanes (lanes (theta st)) (spec_theta (lanes st))"
    unfolding same_lanes_def
  proof (intro allI impI)
    fix x y :: nat assume xy: "x < 5" "y < 5"
    then have "x = 0 \<or> x = 1 \<or> x = 2 \<or> x = 3 \<or> x = 4"
      by linarith
    then have "lanes (theta st) x y = lanes st x y XOR t x"
      unfolding eq using xy assms by (elim disjE) (simp_all add: u len)
    also have "\<dots> = spec_theta (lanes st) x y"
      by (simp add: spec_theta_def lanes_def t_def C_def Let_def add.commute)
    finally show "lanes (theta st) x y = spec_theta (lanes st) x y" .
  qed
qed

lemma row_update:
  fixes st :: "u64 list"
  assumes "length st = 25" "x < 5" "y < 5" "r < 5"
  defines "bc \<equiv> map (\<lambda>i. st ! (5 * r + i)) [0, 1, 2, 3, 4]"
  shows "foldl (\<lambda>st i. st[5 * r + i := st ! (5 * r + i) XOR (NOT (bc ! ((i + 1) mod 5)) AND bc ! ((i + 2) mod 5))]) st [0, 1, 2, 3, 4]
      ! (5 * y + x) = (if y = r then spec_chi (lanes st) x y else st ! (5 * y + x))"
proof -
  have k: "5 * y + x < 25"
    using assms(2,3) by linarith
  have eq: "5 * r + i = 5 * y + x \<longleftrightarrow> r = y \<and> i = x" if "i < 5" for i
  proof -
    have "(5 * r + i) mod 5 = i" "(5 * y + x) mod 5 = x"
      using that assms(2) by simp_all
    then have "i = x" if "5 * r + i = 5 * y + x"
      using that by metis
    then show ?thesis
      by auto
  qed
  have x: "x = 0 \<or> x = 1 \<or> x = 2 \<or> x = 3 \<or> x = 4"
    using assms(2) by linarith
  then have F: "find (\<lambda>i. 5 * r + i = 5 * y + x) [0, 1, 2, 3, 4] = (if r = y then Some x else None)"
    using eq [of 0] eq [of 1] eq [of 2] eq [of 3] eq [of 4] by (simp only: find.simps) auto
  have d: "distinct (map (\<lambda>i. 5 * r + i) [0, 1, 2, 3, 4])"
    by simp
  have bc: "bc ! i = st ! (5 * r + i)" if "i < 5" for i
  proof -
    have "i = 0 \<or> i = 1 \<or> i = 2 \<or> i = 3 \<or> i = 4"
      using that by linarith
    then show ?thesis
      by (elim disjE) (simp_all add: bc_def)
  qed
  show ?thesis
    unfolding foldl_updates [of "\<lambda>i. 5 * r + i" _ "\<lambda>i v. v XOR (NOT (bc ! ((i + 1) mod 5)) AND bc ! ((i + 2) mod 5))", OF d] F
    using k assms(1) by (simp add: spec_chi_def lanes_def bc)
qed

lemma length_row_update:
  "length (foldl (\<lambda>st i. st[j + i := st ! (j + i) XOR (NOT (bc ! ((i + 1) mod 5)) AND bc ! ((i + 2) mod 5))]) st js) = length st"
  by (rule length_foldl_updates [of "\<lambda>i. j + i" "\<lambda>i v. v XOR (NOT (bc ! ((i + 1) mod 5)) AND bc ! ((i + 2) mod 5))"])

lemma chi_spec:
  assumes "length st = 25"
  shows "same_lanes (lanes (chi st)) (spec_chi (lanes st))" "length (chi st) = 25"
proof -
  define upd where "upd = (\<lambda>r (st :: u64 list). let bc = map (\<lambda>i. st ! (5 * r + i)) [0, 1, 2, 3, 4] in
    foldl (\<lambda>st i. st[5 * r + i := st ! (5 * r + i) XOR (NOT (bc ! ((i + 1) mod 5)) AND bc ! ((i + 2) mod 5))]) st [0, 1, 2, 3, 4])"
  have eq: "chi st = upd 4 (upd 3 (upd 2 (upd 1 (upd 0 st))))"
    unfolding chi_def foldl5(2) upd_def by simp
  have len: "length (upd i s) = length s" for i s
    unfolding upd_def Let_def by (rule length_row_update)
  show "length (chi st) = 25"
    by (simp add: eq len assms)
  have u: "lanes (upd r s) x y = (if y = r then spec_chi (lanes s) x y else lanes s x y)"
    if "length s = 25" "x < 5" "y < 5" "r < 5" for r s x y
    using row_update [OF that] by (simp add: upd_def Let_def lanes_def)
  show "same_lanes (lanes (chi st)) (spec_chi (lanes st))"
    unfolding same_lanes_def
  proof (intro allI impI)
    fix x y :: nat assume xy: "x < 5" "y < 5"
    then have "y = 0 \<or> y = 1 \<or> y = 2 \<or> y = 3 \<or> y = 4"
      by linarith
    then show "lanes (chi st) x y = spec_chi (lanes st) x y"
      unfolding eq using xy assms by (elim disjE) (simp_all add: u len spec_chi_def)
  qed
qed

text \<open>The loop of \<open>\<rho>\<close> and \<open>\<pi>\<close> follows one cycle through the positions.\<close>

definition rho_src :: "nat \<Rightarrow> nat" where
  "rho_src n = (1 # keccakf_piln) ! n"

lemma piln_facts:
  "length keccakf_piln = 24" "distinct keccakf_piln" "i < 24 \<Longrightarrow> keccakf_piln ! i < 25" "keccakf_piln ! 23 = 1"
proof -
  show "length keccakf_piln = 24" "distinct keccakf_piln" "keccakf_piln ! 23 = 1"
    by (simp_all add: keccakf_piln_def)
  have "\<forall>p \<in> set keccakf_piln. p < 25"
    by (simp add: keccakf_piln_def)
  then show "i < 24 \<Longrightarrow> keccakf_piln ! i < 25"
    using \<open>length keccakf_piln = 24\<close> by simp
qed

lemma rho_pi_loop:
  assumes "length st = 25" "n \<le> 24"
  defines "F \<equiv> \<lambda>(t, st) i. let j = keccakf_piln ! i; bc0 = st ! j in (bc0, st[j := ROTL64 t (keccakf_rotc ! i)])"
  shows "\<exists>st'. foldl F (st ! 1, st) [0..<n] = (st ! rho_src n, st') \<and> length st' = 25
    \<and> (\<forall>m<n. st' ! (keccakf_piln ! m) = ROTL64 (st ! rho_src m) (keccakf_rotc ! m))
    \<and> (\<forall>k<25. k \<notin> set (take n keccakf_piln) \<longrightarrow> st' ! k = st ! k)"
  using assms(2)
proof (induction n)
  case 0
  then show ?case
    using assms(1) by (simp add: rho_src_def)
next
  case (Suc n)
  then obtain st' where st': "foldl F (st ! 1, st) [0..<n] = (st ! rho_src n, st')" "length st' = 25"
    "\<forall>m<n. st' ! (keccakf_piln ! m) = ROTL64 (st ! rho_src m) (keccakf_rotc ! m)"
    "\<forall>k<25. k \<notin> set (take n keccakf_piln) \<longrightarrow> st' ! k = st ! k"
    by auto
  let ?j = "keccakf_piln ! n"
  have n: "n < 24"
    using Suc.prems by simp
  have "take (Suc n) keccakf_piln = take n keccakf_piln @ [?j]"
    using n piln_facts(1) by (simp add: take_Suc_conv_app_nth)
  moreover have "distinct (take (Suc n) keccakf_piln)"
    using piln_facts(2) by simp
  ultimately have j: "?j \<notin> set (take n keccakf_piln)" "set (take (Suc n) keccakf_piln) = insert ?j (set (take n keccakf_piln))"
    by auto
  have jm: "?j \<noteq> keccakf_piln ! m" if "m < n" for m
    using that n piln_facts(1,2) by (simp add: nth_eq_iff_index_eq)
  have "st' ! ?j = st ! rho_src (Suc n)"
    using st'(4) j(1) piln_facts(3) [OF n] by (simp add: rho_src_def)
  then have "foldl F (st ! 1, st) [0..<Suc n] = (st ! rho_src (Suc n), st'[?j := ROTL64 (st ! rho_src n) (keccakf_rotc ! n)])"
    using st'(1) by (simp add: F_def)
  then show ?case
    using st'(2-4) j piln_facts(3) [OF n] jm by (auto simp: less_Suc_eq nth_list_update)
qed

text \<open>The tables \<^verbatim>\<open>keccakf_piln\<close> and \<^verbatim>\<open>keccakf_rotc\<close> are those of the cycle.\<close>

lemma rho_pi_table:
  "list_all (\<lambda>x. list_all (\<lambda>y. x = 0 \<and> y = 0
     \<or> list_ex (\<lambda>m. keccakf_piln ! m = 5 * y + x \<and> rho_src m = 5 * x + (x + 3 * y) mod 5
          \<and> keccakf_rotc ! m = rho_offset ((x + 3 * y) mod 5) x) [0..<24]) [0..<5]) [0..<5]"
  by code_simp

lemma rho_offset_0: "rho_offset 0 0 = 0"
  by code_simp

lemma ROTL64_0: "ROTL64 x 0 = x"
proof -
  have "drop_bit 64 x = 0"
    by (rule bit_word_eqI) (auto simp: bit_simps dest: bit_imp_le_length)
  then show ?thesis
    by (simp add: ROTL64_def)
qed

lemma rho_pi_spec:
  assumes "length st = 25"
  shows "same_lanes (lanes (rho_pi st)) (spec_pi (spec_rho (lanes st)))" "length (rho_pi st) = 25"
proof -
  obtain st' where f: "foldl (\<lambda>(t, st) i. let j = keccakf_piln ! i; bc0 = st ! j in (bc0, st[j := ROTL64 t (keccakf_rotc ! i)]))
      (st ! 1, st) [0..<24] = (st ! rho_src 24, st')"
    and l: "length st' = 25" and m: "\<forall>m<24. st' ! (keccakf_piln ! m) = ROTL64 (st ! rho_src m) (keccakf_rotc ! m)"
    and o: "\<forall>k<25. k \<notin> set (take 24 keccakf_piln) \<longrightarrow> st' ! k = st ! k"
    using rho_pi_loop [OF assms order_refl] by blast
  have eq: "rho_pi st = st'"
    unfolding rho_pi_def f by simp
  show "length (rho_pi st) = 25"
    by (simp add: eq l)
  show "same_lanes (lanes (rho_pi st)) (spec_pi (spec_rho (lanes st)))"
    unfolding same_lanes_def
  proof (intro allI impI)
    fix x y :: nat assume xy: "x < 5" "y < 5"
    show "lanes (rho_pi st) x y = spec_pi (spec_rho (lanes st)) x y"
    proof (cases "x = 0 \<and> y = 0")
      case True
      have "0 \<notin> set (take 24 keccakf_piln)"
        by (simp add: keccakf_piln_def)
      then show ?thesis
        using o True by (simp add: eq lanes_def spec_pi_def spec_rho_def rho_offset_0 ROTL64_0)
    next
      case False
      then obtain k where "k < 24" "keccakf_piln ! k = 5 * y + x" "rho_src k = 5 * x + (x + 3 * y) mod 5"
        "keccakf_rotc ! k = rho_offset ((x + 3 * y) mod 5) x"
        using rho_pi_table xy unfolding list_all_iff list_ex_iff set_upt by (metis atLeastLessThan_iff le0)
      then show ?thesis
        using m by (auto simp: eq lanes_def spec_pi_def spec_rho_def)
    qed
  qed
qed

lemma lfsr_168: "lfsr_bits 168 [True, False, False, False, False, False, False, False] =
     [True, False, False, False, False, False, False, False, True, False, True, True, False, False, False, True,
     True, True, True, False, True, False, False, False, False, True, True, True, True, True, True, True, True,
     False, False, True, False, False, False, False, True, False, True, False, False, True, True, True, True, True,
     False, True, False, True, False, True, False, True, True, True, False, False, False, False, False, True, True,
     False, False, False, True, False, True, False, True, True, False, False, True, True, False, False, True,
     False, True, True, True, True, True, True, False, True, True, True, True, False, False, True, True, False,
     True, True, True, False, True, True, True, False, False, True, False, True, False, True, False, False, True,
     False, True, False, False, False, True, False, False, True, False, True, True, False, True, False, False,
     False, True, True, False, False, True, True, True, False, False, True, True, True, True, False, False, False,
     True, True, False, True, True, False, False, False, False, True, False, False, False, True, False, True, True,
     True]"
  by code_simp

lemma rndc_table: "map spec_rc [0..<24] = keccakf_rndc"
  unfolding spec_rc_def lfsr_168 by code_simp

lemma iota_spec:
  assumes "length st = 25" "n < 24"
  shows "same_lanes (lanes (iota n st)) (spec_iota n (lanes st))" "length (iota n st) = 25"
proof -
  have "keccakf_rndc ! n = spec_rc n"
    using assms(2) unfolding rndc_table [symmetric] by (simp del: upt_rec_numeral)
  then show "same_lanes (lanes (iota n st)) (spec_iota n (lanes st))"
    using assms(1) by (auto simp: same_lanes_def lanes_def iota_def spec_iota_def nth_list_update)
qed (simp add: iota_def assms(1))

text \<open>The steps of the specification depend on the 25 lanes only.\<close>

lemma spec_cong:
  assumes "same_lanes A B"
  shows "same_lanes (spec_theta A) (spec_theta B)" "same_lanes (spec_pi (spec_rho A)) (spec_pi (spec_rho B))"
    "same_lanes (spec_chi A) (spec_chi B)" "same_lanes (spec_iota n A) (spec_iota n B)"
  using assms by (auto simp: same_lanes_def spec_theta_def spec_pi_def spec_rho_def spec_chi_def spec_iota_def Let_def)

lemma same_lanes_trans: "same_lanes A B \<Longrightarrow> same_lanes B C \<Longrightarrow> same_lanes A C"
  by (simp add: same_lanes_def)

lemma keccakf_sound:
  assumes "length st = 25" "n \<le> 24"
  shows "same_lanes (lanes (keccakf st n)) (spec_keccakf n (lanes st)) \<and> length (keccakf st n) = 25"
  using assms(2)
proof (induction n)
  case 0
  then show ?case
    using assms(1) by (simp add: keccakf_def same_lanes_def)
next
  case (Suc n)
  let ?s = "keccakf st n"
  have IH: "same_lanes (lanes ?s) (spec_keccakf n (lanes st))" and l: "length ?s = 25"
    using Suc by simp_all
  have eq: "keccakf st (Suc n) = iota n (chi (rho_pi (theta ?s)))"
    by (simp add: keccakf_def)
  note t = theta_spec [OF l]
  note r = rho_pi_spec [OF t(2)]
  note c = chi_spec [OF r(2)]
  note i = iota_spec [OF c(2), of n]
  have 1: "same_lanes (lanes (theta ?s)) (spec_theta (spec_keccakf n (lanes st)))"
    by (rule same_lanes_trans [OF t(1) spec_cong(1) [OF IH]])
  have 2: "same_lanes (lanes (rho_pi (theta ?s))) (spec_pi (spec_rho (spec_theta (spec_keccakf n (lanes st)))))"
    by (rule same_lanes_trans [OF r(1) spec_cong(2) [OF 1]])
  have 3: "same_lanes (lanes (chi (rho_pi (theta ?s)))) (spec_chi (spec_pi (spec_rho (spec_theta (spec_keccakf n (lanes st))))))"
    by (rule same_lanes_trans [OF c(1) spec_cong(3) [OF 2]])
  show ?case
    unfolding eq using same_lanes_trans [OF i(1) spec_cong(4) [OF 3]] i(2) Suc.prems by simp
qed

text \<open>
  C4. On a state of 25 words and for up to 24 rounds, \<^verbatim>\<open>keccakf\<close> computes the rounds of Keccak-f[1600]: the in-place
  loops compute the step mappings, and the tables \<^verbatim>\<open>keccakf_rotc\<close>, \<^verbatim>\<open>keccakf_piln\<close> and \<^verbatim>\<open>keccakf_rndc\<close> hold the
  offsets and constants of the definition.
\<close>

theorem keccakf_correct:
  assumes "length st = 25" "rounds \<le> 24"
  shows "same_lanes (lanes (keccakf st rounds)) (spec_keccakf rounds (lanes st)) \<and> length (keccakf st rounds) = 25"
  using assms by (rule keccakf_sound)

theorem keccakf_witness:
  "same_lanes (lanes (keccakf (replicate 25 0) 24)) (spec_keccakf 24 (lanes (replicate 25 0)))
   \<and> length (keccakf (replicate 25 0) 24) = 25"
  by (rule keccakf_correct) simp_all

end
