(* ===== verification/Streaming.thy ===== *)
theory Streaming
  imports Prelude
begin

text \<open>
  The interface of incremental computations over byte strings: a context that is started, fed with pieces that the
  implementation accepts, and represents the concatenation of the pieces.
\<close>

section \<open>Blocks\<close>

text \<open>The bytes after the last full block.\<close>

definition tail :: "nat \<Rightarrow> byte list \<Rightarrow> byte list" where
  "tail r d = drop (r * (length d div r)) d"

lemma length_tail: "length (tail r d) = length d mod r"
  by (simp add: tail_def minus_mult_div_eq_mod)

lemma tail_short: "length d < r \<Longrightarrow> tail r d = d"
  by (simp add: tail_def)

lemma tail_step: "0 < r \<Longrightarrow> r \<le> length d \<Longrightarrow> tail r (drop r d) = tail r d"
  by (simp add: tail_def le_div_geq add.commute)

lemma tail_append: "tail r (d @ x) = tail r (tail r d @ x)"
proof (cases "r = 0")
  case False
  then show ?thesis
  proof (induction d rule: length_induct)
    case (1 d)
    show ?case
    proof (cases "r \<le> length d")
      case True
      then have "tail r (d @ x) = tail r (drop r d @ x)" "tail r d = tail r (drop r d)"
        using tail_step [of r "d @ x"] tail_step [of r d] 1(2) by simp_all
      then show ?thesis
        using 1 True by simp
    qed (simp add: tail_short)
  qed
qed (simp add: tail_def)

text \<open>A function on states and blocks, applied to the full blocks of a string.\<close>

function blocks :: "('h \<Rightarrow> byte list \<Rightarrow> 'h) \<Rightarrow> nat \<Rightarrow> 'h \<Rightarrow> byte list \<Rightarrow> 'h" where
  "blocks f r h d = (if 0 < r \<and> r \<le> length d then blocks f r (f h (take r d)) (drop r d) else h)"
  by auto
termination
  by (relation "measure (\<lambda>(f, r, h, d). length d)") auto

declare blocks.simps [simp del]

lemma blocks_short: "length d < r \<Longrightarrow> blocks f r h d = h"
  by (simp add: blocks.simps)

lemma blocks_step: "0 < r \<Longrightarrow> r \<le> length d \<Longrightarrow> blocks f r h d = blocks f r (f h (take r d)) (drop r d)"
  by (simp add: blocks.simps [of f r h d])

lemma blocks_one: "0 < r \<Longrightarrow> length d = r \<Longrightarrow> blocks f r h d = f h d"
  by (simp add: blocks_step blocks_short)

lemma blocks_append: "blocks f r h (d @ e) = blocks f r (blocks f r h d) (tail r d @ e)"
proof (induction f r h d rule: blocks.induct)
  case (1 f r h d)
  show ?case
  proof (cases "0 < r \<and> r \<le> length d")
    case True
    then show ?thesis
      using 1 blocks_step [of r "d @ e" f h] blocks_step [of r d f h] tail_step [of r d] by simp
  next
    case False
    then have "tail r d = d" "blocks f r h d = h"
      by (auto simp: tail_short blocks.simps [of f r h d] tail_def)
    then show ?thesis
      by simp
  qed
qed

lemma tail_full: "length d mod r = 0 \<Longrightarrow> tail r d = []"
  using length_tail [of r d] by simp

text \<open>Parts of the padding of messages.\<close>

text \<open>The byte with the last bits of a message of \<open>n\<close> bits and the one bit that follows them.\<close>

definition last_byte :: "byte list \<Rightarrow> nat \<Rightarrow> byte" where
  "last_byte m n = (let r = n mod 8 in
     if r = 0 then 0x80 else push_bit (8 - r) (drop_bit (8 - r) (m ! (n div 8))) OR push_bit (7 - r) 1)"

definition be64 :: "u64 \<Rightarrow> byte list" where
  "be64 w = map (\<lambda>k. ucast (drop_bit k w)) [56, 48, 40, 32, 24, 16, 8, 0]"

section \<open>Contexts\<close>

text \<open>The calls of a client: one piece after the other; a failed call ends the sequence.\<close>

primrec feed :: "('a \<Rightarrow> 'c \<Rightarrow> byte list \<Rightarrow> 'e + 'c) \<Rightarrow> 'c \<Rightarrow> ('a \<times> byte list) list \<Rightarrow> 'e + 'c" where
  "feed update c [] = Inr c"
| "feed update c (p # ps) = (case update (fst p) c (snd p) of Inl e \<Rightarrow> Inl e | Inr c' \<Rightarrow> feed update c' ps)"

abbreviation pieces :: "('a \<times> byte list) list \<Rightarrow> byte list" where
  "pieces ps \<equiv> concat (map snd ps)"

locale absorbing =
  fixes update :: "'a \<Rightarrow> 'c \<Rightarrow> byte list \<Rightarrow> 'e + 'c"
    and rep :: "'c \<Rightarrow> byte list \<Rightarrow> bool"
    and accepts :: "byte list \<Rightarrow> bool"
    and limit :: nat
  assumes update: "rep c d \<Longrightarrow> accepts x \<Longrightarrow> length d + length x < limit \<Longrightarrow> \<exists>c'. update a c x = Inr c' \<and> rep c' (d @ x)"
begin

lemma feed_from:
  assumes "rep c d" "\<And>p. p \<in> set ps \<Longrightarrow> accepts (snd p)" "length d + length (pieces ps) < limit"
  shows "\<exists>c'. feed update c ps = Inr c' \<and> rep c' (d @ pieces ps)"
  using assms
proof (induction ps arbitrary: c d)
  case (Cons p ps)
  obtain c' where c': "update (fst p) c (snd p) = Inr c'" "rep c' (d @ snd p)"
    using update [OF Cons.prems(1), of "snd p"] Cons.prems(2) [of p] Cons.prems(3) by auto
  then show ?case
    using Cons.IH [of c' "d @ snd p"] Cons.prems(2,3) by simp
qed simp

end

text \<open>A context with a fixed start.\<close>

locale streaming = absorbing update rep accepts limit
  for update :: "'a \<Rightarrow> 'c \<Rightarrow> byte list \<Rightarrow> 'e + 'c" and rep accepts limit +
  fixes init :: 'c
  assumes init: "rep init []"
begin

lemma feed_all:
  assumes "\<And>p. p \<in> set ps \<Longrightarrow> accepts (snd p)" "length (pieces ps) < limit"
  shows "\<exists>c'. feed update init ps = Inr c' \<and> rep c' (pieces ps)"
  using feed_from [OF init, of ps] assms by simp

end

end
