(* ===== verification/KeccakSponge.thy ===== *)
theory KeccakSponge
  imports KeccakF Streaming
begin

text \<open>
  The sponge of \<^verbatim>\<open>keccak.c\<close>: which calls of \<^verbatim>\<open>keccak\<close> end and which abort, and that the incremental functions compute
  the same hash as the one-shot function for every way of cutting a message into pieces.
\<close>

section \<open>Blocks\<close>

function sponge :: "nat \<Rightarrow> byte list \<Rightarrow> u64 list \<Rightarrow> u64 list" where
  "sponge r inp st = (if r \<noteq> 0 \<and> r \<le> length inp then sponge r (drop r inp) (keccakf (xor_block (r div 8) st inp) 24) else st)"
  by auto
termination
  by (relation "measure (\<lambda>(r, inp, st). length inp)") auto

declare sponge.simps [simp del]

lemma absorb_sponge:
  assumes "0 < r"
  shows "absorb r inp st = Some (tail r inp, sponge r inp st)"
  using assms
proof (induction r inp st rule: sponge.induct)
  case (1 r inp st)
  show ?case
  proof (cases "r \<le> length inp")
    case True
    then show ?thesis
      using 1 by (simp add: absorb.simps [of r inp] sponge.simps [of r inp] tail_step)
  next
    case False
    then show ?thesis
      by (simp add: absorb.simps [of r inp] sponge.simps [of r inp] tail_short)
  qed
qed

text \<open>With a rate of zero the loop does not end.\<close>

lemma absorb_ends: "absorb r inp st = Some y \<Longrightarrow> r \<noteq> 0"
  by (erule absorb.raw_induct [where P = "\<lambda>r inp st y. r \<noteq> 0", rotated]) (auto split: if_splits)

lemma absorb_0: "absorb 0 inp st = None"
  using absorb_ends [of 0 inp st] by (cases "absorb 0 inp st") auto

lemma length_xor_block: "length (xor_block n st b) = length st"
  unfolding xor_block_def by (rule length_foldl_updates [of "\<lambda>i. i" "\<lambda>i v. v XOR load64 b i"])

lemma length_keccakf: "length st = 25 \<Longrightarrow> length (keccakf st 24) = 25"
  using keccakf_sound [of st 24] by simp

lemma length_sponge: "length st = 25 \<Longrightarrow> length (sponge r inp st) = 25"
proof (induction r inp st rule: sponge.induct)
  case (1 r inp st)
  then show ?case
    by (simp add: sponge.simps [of r inp st] length_keccakf length_xor_block)
qed

text \<open>Only the bytes of the block count.\<close>

lemma xor_block_take:
  assumes "8 * n \<le> length b"
  shows "xor_block n st (take (8 * n) b @ x) = xor_block n st b"
proof -
  have "load64 (take (8 * n) b @ x) i = load64 b i" if "i < n" for i
  proof -
    have "8 \<le> 8 * n - 8 * i"
      using that by linarith
    then show ?thesis
      using assms by (simp add: load64_def drop_take min_def)
  qed
  then show ?thesis
    unfolding xor_block_def by (intro foldl_cong) simp_all
qed

lemma process_block_take: "136 \<le> length b \<Longrightarrow> process_block st (take 136 b @ x) = process_block st b"
  using xor_block_take [of 17 b st x] by (simp add: process_block_def)

lemma sponge_append:
  assumes "0 < r" "r mod 8 = 0"
  shows "sponge r (d @ x) st = sponge r (tail r d @ x) (sponge r d st)"
  using assms
proof (induction r d st rule: sponge.induct)
  case (1 r d st)
  show ?case
  proof (cases "r \<le> length d")
    case True
    have "8 * (r div 8) = r"
      using 1 by auto
    then have "xor_block (r div 8) st (d @ x) = xor_block (r div 8) st d"
      using xor_block_take [of "r div 8" "d @ x" st "[]"] xor_block_take [of "r div 8" d st "[]"] True by simp
    then show ?thesis
      using 1 True by (simp add: sponge.simps [of r "d @ x"] sponge.simps [of r d] tail_step)
  next
    case False
    then show ?thesis
      by (simp add: sponge.simps [of r d] tail_short)
  qed
qed

section \<open>The one-shot hash\<close>

lemma length_store64: "length (store64 w) = 8"
  by (simp add: store64_def)

lemma length_stored: "length (concat (map store64 ws)) = 8 * length ws"
  by (induction ws) (simp_all add: length_store64)

lemma take_stored: "take (8 * n) (concat (map store64 ws)) = concat (map store64 (take n ws))"
proof (induction n arbitrary: ws)
  case (Suc n)
  then show ?case
    by (cases ws) (simp_all add: length_store64)
qed simp

text \<open>The final state of the sponge with rate \<open>r\<close>.\<close>

definition sponge_hash :: "nat \<Rightarrow> byte list \<Rightarrow> u64 list" where
  "sponge_hash r d = keccakf (xor_block (r div 8) (sponge r d (replicate 25 0)) (pad_block r (tail r d))) 24"

lemma length_sponge_hash: "length (sponge_hash r d) = 25"
  by (simp add: sponge_hash_def length_keccakf length_xor_block length_sponge)

definition keccak_rate :: "int \<Rightarrow> nat" where
  "keccak_rate mdlen = (if mdlen = 200 then 136 else nat (200 - 2 * mdlen))"

lemma keccak_cases:
  "keccak d mdlen =
     (if mdlen \<le> 0 \<or> 100 < mdlen \<and> mdlen \<noteq> 200 then Some (Inl Bad_keccak_use)
      else if mdlen = 100 then None
      else if 143 \<le> keccak_rate mdlen \<or> mdlen mod 8 \<noteq> 0 then Some (Inl Bad_keccak_use)
      else Some (Inr (concat (map store64 (take (nat (mdlen div 8)) (sponge_hash (keccak_rate mdlen) d))))))"
proof (cases "mdlen \<le> 0 \<or> 100 < mdlen \<and> mdlen \<noteq> 200 \<or> mdlen = 100")
  case True
  then show ?thesis
    by (auto simp: keccak_def absorb_0)
next
  case False
  let ?r = "keccak_rate mdlen"
  have r: "0 < ?r"
    using False by (auto simp: keccak_rate_def)
  let ?t = "tail ?r d"
  have "length ?t < ?r"
    using r by (simp add: length_tail)
  moreover have "?r div 8 * 8 \<le> ?r"
    by simp
  ultimately have "length ?t + 1 \<ge> 144 \<or> length ?t > ?r \<or> ?r - length ?t + length ?t + 1 \<ge> 144 \<or> ?r = 0
      \<or> ?r - 1 \<ge> 144 \<or> ?r div 8 * 8 > 144 \<longleftrightarrow> 143 \<le> ?r"
    by linarith
  then show ?thesis
    using False r unfolding keccak_def keccak_rate_def [symmetric]
    by (simp only: absorb_sponge Let_def sponge_hash_def option.case prod.case) auto
qed

section \<open>The incremental hash\<close>

text \<open>A context represents the bytes fed so far: the hash of the full blocks, and the rest in \<^verbatim>\<open>message\<close>.\<close>

definition keccak_rep :: "keccak_ctx \<Rightarrow> byte list \<Rightarrow> bool" where
  "keccak_rep c d \<longleftrightarrow> ctx_hash c = sponge 136 d (replicate 25 0) \<and> ctx_rest c = length d mod 136
     \<and> length (ctx_message c) = 136 \<and> take (ctx_rest c) (ctx_message c) = tail 136 d"

lemma keccak_repI:
  assumes "h = sponge 136 d (replicate 25 0)" "length m = 136" "take (length d mod 136) m = tail 136 d"
  shows "keccak_rep (c\<lparr>ctx_rest := length d mod 136, ctx_message := m, ctx_hash := h\<rparr>) d"
  using assms by (simp add: keccak_rep_def)

lemma not_finalized: "n < 136 \<Longrightarrow> n AND KECCAK_FINALIZED = 0"
proof -
  assume "n < 136"
  then have "\<not> bit n 31"
    by (simp add: bit_iff_odd)
  then show ?thesis
    using and_exp_eq_0_iff_not_bit [of n 31] by (simp add: KECCAK_FINALIZED_def)
qed

lemma process_sponge: "136 \<le> length b \<Longrightarrow> sponge 136 b st = sponge 136 (drop 136 b) (process_block st b)"
  by (simp add: sponge.simps [of 136 b] process_block_def)

lemma memcpy_rest:
  assumes "length m = 136" "length t < 136"
  shows "length (if t \<noteq> [] then memcpy m 0 t else m) = 136" "take (length t) (if t \<noteq> [] then memcpy m 0 t else m) = t"
  using assms by (simp_all add: memcpy_def)

declare update_blocks.simps [simp del]

lemma update_blocks_sponge:
  assumes "length message = 136"
  shows "\<exists>message'. update_blocks al hash message inp = (sponge 136 inp hash, message', tail 136 inp) \<and> length message' = 136"
  using assms
proof (induction al hash message inp rule: update_blocks.induct)
  case (1 al hash message inp)
  show ?case
  proof (cases "136 \<le> length inp")
    case True
    let ?m = "if al then message else memcpy message 0 (take 136 inp)"
    have m: "length ?m = 136"
      using 1 True by (simp add: length_memcpy)
    have b: "process_block hash (if al then inp else ?m) = process_block hash inp"
      using process_block_take [OF True, of hash "[]"] 1(2) True by (simp add: memcpy_def)
    have "update_blocks al hash message inp = update_blocks al (process_block hash inp) ?m (drop 136 inp)"
      using True b by (simp add: update_blocks.simps [of al hash] Let_def)
    moreover have "\<exists>message'. update_blocks al (process_block hash inp) ?m (drop 136 inp)
        = (sponge 136 (drop 136 inp) (process_block hash inp), message', tail 136 (drop 136 inp)) \<and> length message' = 136"
      using 1(1) [OF True refl refl m] b by simp
    ultimately show ?thesis
      using True by (simp add: process_sponge tail_step)
  next
    case False
    then show ?thesis
      using 1(2) by (simp add: update_blocks.simps [of al hash] sponge.simps [of 136 inp] tail_short)
  qed
qed

lemma keccak_update_rep:
  assumes rep: "keccak_rep c d" and lim: "length d + length inp < 2 ^ 64"
  shows "\<exists>c'. keccak_update al c inp = Inr c' \<and> keccak_rep c' (d @ inp)"
proof -
  let ?z = "replicate 25 0 :: u64 list" and ?idx = "length d mod 136" and ?rest = "length (d @ inp) mod 136"
  have h: "ctx_hash c = sponge 136 d ?z" and i: "ctx_rest c = ?idx" and lm: "length (ctx_message c) = 136"
    and tk: "take ?idx (ctx_message c) = tail 136 d"
    using rep unfolding keccak_rep_def by metis+
  have fin: "ctx_rest c AND KECCAK_FINALIZED = 0"
    unfolding i by (rule not_finalized) simp
  have rest: "((?idx + length inp) mod 2 ^ 64) mod 136 = ?rest"
  proof -
    have "?idx + length inp < 2 ^ 64"
      using lim mod_less_eq_dividend [of "length d" 136] by linarith
    then show ?thesis
      by (simp add: mod_simps)
  qed
  have idx: "?idx < 136"
    by simp
  show ?thesis
  proof (cases "?idx \<noteq> 0 \<and> length inp < 136 - ?idx")
    case True
    let ?c = "c\<lparr>ctx_rest := ?rest, ctx_message := memcpy (ctx_message c) ?idx inp\<rparr>"
    have "keccak_update al c inp = Inr ?c"
      using True rest by (simp add: keccak_update_def fin [unfolded i] i Let_def)
    moreover have short: "length (tail 136 d @ inp) < 136"
      using True idx unfolding length_append length_tail by linarith
    then have t: "tail 136 (d @ inp) = tail 136 d @ inp"
      by (simp add: tail_append [of 136 d] tail_short)
    moreover have r: "?rest = ?idx + length inp"
      using arg_cong [OF t, of length] by (simp add: length_tail)
    moreover have "sponge 136 (d @ inp) ?z = sponge 136 d ?z"
      using short by (simp add: sponge_append [of 136 d] sponge.simps [of 136 "tail 136 d @ inp"])
    moreover have "take ?rest (memcpy (ctx_message c) ?idx inp) = tail 136 d @ inp"
      using tk unfolding r memcpy_def by (simp add: length_tail)
    ultimately show ?thesis
      using True lm h by (simp add: keccak_rep_def length_memcpy)
  next
    case False
    let ?left = "136 - ?idx"
    let ?m = "if ?idx \<noteq> 0 then memcpy (ctx_message c) ?idx (take ?left inp) else ctx_message c"
    let ?h = "if ?idx \<noteq> 0 then process_block (ctx_hash c) ?m else ctx_hash c"
    let ?inp = "if ?idx \<noteq> 0 then drop ?left inp else inp"
    have m: "length ?m = 136"
      using lm idx by (simp add: length_memcpy)
    have s: "sponge 136 (d @ inp) ?z = sponge 136 ?inp ?h \<and> tail 136 (d @ inp) = tail 136 ?inp"
    proof (cases "?idx = 0")
      case True
      then have "tail 136 d = []"
        using length_tail [of 136 d] by simp
      then show ?thesis
        using True h by (simp add: sponge_append [of 136 d] tail_append [of 136 d])
    next
      case idx0: False
      have full: "136 \<le> length (tail 136 d @ inp)"
        using False idx0 by (simp add: length_tail)
      have mm: "?m = take 136 (tail 136 d @ inp)"
        using idx0 tk False lm by (simp add: memcpy_def length_tail)
      have dd: "drop 136 (tail 136 d @ inp) = ?inp"
        using idx0 by (simp add: length_tail)
      have "process_block st (take 136 (tail 136 d @ inp)) = process_block st (tail 136 d @ inp)" for st
        using process_block_take [OF full, of st "[]"] by simp
      then show ?thesis
        using idx0 h full dd mm tail_step [OF _ full]
        by (simp add: sponge_append [of 136 d] process_sponge [OF full] tail_append [of 136 d])
    qed
    obtain m' where u: "update_blocks al ?h ?m ?inp = (sponge 136 ?inp ?h, m', tail 136 ?inp)" and m': "length m' = 136"
      using update_blocks_sponge [OF m] by blast
    let ?m' = "if tail 136 ?inp \<noteq> [] then memcpy m' 0 (tail 136 ?inp) else m'"
    let ?c = "c\<lparr>ctx_rest := ?rest, ctx_message := ?m', ctx_hash := sponge 136 ?inp ?h\<rparr>"
    have "keccak_update al c inp = Inr ?c"
      using False rest u by (cases "?idx = 0") (simp_all add: keccak_update_def fin [unfolded i] i Let_def)
    moreover have l: "length (tail 136 ?inp) = ?rest"
      using s length_tail [of 136 "d @ inp"] by simp
    have "length ?m' = 136" and "take ?rest ?m' = tail 136 ?inp"
      using memcpy_rest [OF m', of "tail 136 ?inp"] unfolding l by simp_all
    then have "keccak_rep ?c (d @ inp)"
      using s by (intro keccak_repI) metis+
    ultimately show ?thesis
      by blast
  qed
qed

interpretation keccak: streaming keccak_update keccak_rep "\<lambda>x. True" "2 ^ 64" keccak_init
proof
  show "keccak_rep keccak_init []"
    by (simp add: keccak_rep_def keccak_init_def sponge.simps tail_def)
  show "\<exists>c'. keccak_update a c x = Inr c' \<and> keccak_rep c' (d @ x)"
    if "keccak_rep c d" "length d + length x < 2 ^ 64" for c d x a
    using that by (rule keccak_update_rep)
qed

lemma pad_rest:
  assumes "length m = 136" "length t < 136" "take (length t) m = t"
  defines "m1 \<equiv> memcpy m (length t) (replicate (136 - length t) 0)"
  defines "m2 \<equiv> m1[length t := m1 ! length t OR 1]"
  shows "m2[135 := m2 ! 135 OR 0x80] = pad_block 136 t"
proof -
  have "m1 = t @ replicate (136 - length t) 0"
    using assms(1-3) by (simp add: m1_def memcpy_def)
  also have "replicate (136 - length t) 0 = (0 :: byte) # replicate (136 - (length t + 1)) 0"
    using assms(2) by (simp add: Suc_diff_Suc flip: replicate_Suc)
  finally have "m2 = t @ [1] @ replicate (136 - (length t + 1)) 0"
    by (simp add: m2_def list_update_append nth_append)
  then show ?thesis
    by (simp add: pad_block_def Let_def)
qed

lemma keccak_finish_rep:
  assumes "keccak_rep c d"
  shows "snd (keccak_finish c) = concat (map store64 (take 4 (sponge_hash 136 d)))"
    "ctx_rest (fst (keccak_finish c)) = KECCAK_FINALIZED"
proof -
  have h: "ctx_hash c = sponge 136 d (replicate 25 0)" and r: "ctx_rest c = length (tail 136 d)"
    and m: "length (ctx_message c) = 136" "take (length (tail 136 d)) (ctx_message c) = tail 136 d"
    using assms by (auto simp: keccak_rep_def length_tail)
  have l: "length (tail 136 d) < 136"
    by (simp add: length_tail)
  note p = pad_rest [OF m(1) l m(2)]
  show "snd (keccak_finish c) = concat (map store64 (take 4 (sponge_hash 136 d)))"
    using take_stored [of 4] by (simp add: keccak_finish_def r not_finalized [OF l] Let_def p [unfolded One_nat_def] h
        sponge_hash_def process_block_def)
  show "ctx_rest (fst (keccak_finish c)) = KECCAK_FINALIZED"
    by (simp add: keccak_finish_def r not_finalized [OF l] Let_def)
qed

lemma keccak_rates: "keccak d 32 = Some (Inr (concat (map store64 (take 4 (sponge_hash 136 d)))))"
  "keccak d 200 = Some (Inr (concat (map store64 (sponge_hash 136 d))))"
  using length_sponge_hash [of 136 d] by (simp_all add: keccak_cases keccak_rate_def)

lemma cn_fast_hash_total: "\<exists>md. cn_fast_hash d = Some (Inr md) \<and> keccak d 32 = Some (Inr md) \<and> length md = 32"
  using take_stored [of 4 "sponge_hash 136 d"] length_sponge_hash [of 136 d]
  by (simp add: cn_fast_hash_def hash_process_def keccak1600_def keccak_rates length_stored)

section \<open>Correctness of the hash functions\<close>

text \<open>
  C5. However a message shorter than \<open>2 ^ 64\<close> bytes is cut into pieces, aligned or not, \<^verbatim>\<open>keccak_init\<close>, one
  \<^verbatim>\<open>keccak_update\<close> per piece and \<^verbatim>\<open>keccak_finish\<close> give the 32-byte hash that \<^verbatim>\<open>keccak\<close> computes of the whole message.
\<close>

theorem keccak_incremental:
  assumes "length (pieces ps) < 2 ^ 64"
  shows "\<exists>c. feed keccak_update keccak_init ps = Inr c \<and> keccak (pieces ps) 32 = Some (Inr (snd (keccak_finish c)))"
  using keccak.feed_all [OF _ assms] keccak_finish_rep(1) keccak_rates(1) by metis

theorem keccak_incremental_witness:
  "\<exists>c. feed keccak_update keccak_init [(True, replicate 100 1), (False, replicate 300 2)] = Inr c
     \<and> keccak (replicate 100 1 @ replicate 300 2) 32 = Some (Inr (snd (keccak_finish c)))"
  using keccak_incremental [of "[(True, replicate 100 1), (False, replicate 300 2)]"] by simp

text \<open>
  C18. For every message, \<^verbatim>\<open>keccak\<close> ends exactly when \<^verbatim>\<open>mdlen\<close> is not 100 (with a rate of zero its loop never ends);
  it returns a digest, of \<^verbatim>\<open>mdlen\<close> bytes, exactly when \<^verbatim>\<open>mdlen\<close> is 200 or a multiple of 8 between 32 and 96, and aborts
  otherwise.
\<close>

theorem keccak_outcome:
  "case keccak d mdlen of
     None \<Rightarrow> mdlen = 100
   | Some (Inl e) \<Rightarrow> mdlen \<noteq> 100 \<and> mdlen \<noteq> 200 \<and> \<not> (mdlen mod 8 = 0 \<and> 32 \<le> mdlen \<and> mdlen \<le> 96)
   | Some (Inr md) \<Rightarrow> (mdlen = 200 \<or> mdlen mod 8 = 0 \<and> 32 \<le> mdlen \<and> mdlen \<le> 96) \<and> int (length md) = mdlen"
proof (cases "mdlen = 200 \<or> mdlen mod 8 = 0 \<and> 32 \<le> mdlen \<and> mdlen \<le> 96")
  case True
  then have mod: "mdlen mod 8 = 0"
    by (elim disjE conjE) simp_all
  have "nat (mdlen div 8) \<le> 25"
    using True by linarith
  moreover have "int (8 * nat (mdlen div 8)) = mdlen"
    using mod True by (auto simp: zmod_eq_0_iff)
  moreover have "keccak d mdlen =
      Some (Inr (concat (map store64 (take (nat (mdlen div 8)) (sponge_hash (keccak_rate mdlen) d)))))"
    using True mod by (elim disjE conjE) (simp_all add: keccak_cases keccak_rate_def)
  ultimately show ?thesis
    using True by (simp add: length_stored length_sponge_hash min_def)
next
  case False
  have "mdlen mod 8 \<noteq> 0 \<or> mdlen < 32 \<or> 96 < mdlen" "mdlen \<noteq> 200"
    using False by auto
  moreover have "143 \<le> keccak_rate mdlen \<or> mdlen mod 8 \<noteq> 0" if "0 < mdlen" "mdlen < 100"
  proof -
    have "mdlen < 29 \<or> mdlen mod 8 \<noteq> 0"
      using False that by presburger
    then show ?thesis
      using that by (auto simp: keccak_rate_def)
  qed
  ultimately show ?thesis
    by (auto simp: keccak_cases)
qed

text \<open>
  Lemma. \<^verbatim>\<open>cn_fast_hash\<close> never aborts, and it is Keccak with a digest of 32 bytes.
\<close>

theorem cn_fast_hash_correct:
  "\<exists>md. cn_fast_hash d = Some (Inr md) \<and> keccak d 32 = Some (Inr md) \<and> length md = 32"
  by (rule cn_fast_hash_total)

text \<open>
  C33. A finished context stays finished: another \<^verbatim>\<open>keccak_finish\<close> returns the same hash and a
  \<^verbatim>\<open>keccak_update\<close> aborts.
\<close>

theorem keccak_finalized:
  assumes "keccak_rep c d"
  shows "keccak_finish (fst (keccak_finish c)) = keccak_finish c
    \<and> keccak_update al (fst (keccak_finish c)) inp = Inl Bad_keccak_use"
proof -
  have f: "KECCAK_FINALIZED AND KECCAK_FINALIZED \<noteq> 0"
    by (simp add: KECCAK_FINALIZED_def)
  have r: "ctx_rest (fst (keccak_finish c)) = KECCAK_FINALIZED"
    by (rule keccak_finish_rep(2) [OF assms])
  have "keccak_finish (fst (keccak_finish c)) = (fst (keccak_finish c), snd (keccak_finish c))"
    using f r by (simp add: keccak_finish_def [of "fst (keccak_finish c)"] Let_def) (simp add: keccak_finish_def Let_def)
  then show ?thesis
    using f r by (simp add: keccak_update_def)
qed

theorem keccak_finalized_witness:
  "keccak_update True (fst (keccak_finish keccak_init)) [1, 2, 3] = Inl Bad_keccak_use"
  using keccak_finalized [OF keccak.init] by blast

end
