(* ===== verification/TreeHash.thy ===== *)
theory TreeHash
  imports KeccakSponge
begin

text \<open>
  \<^verbatim>\<open>tree-hash.c\<close>: the Merkle root of the transaction hashes of a block.  The in-place computation is related to the
  hash of a binary tree built from the top.
\<close>

section \<open>The program\<close>

text \<open>A failed \<^verbatim>\<open>assert\<close>.\<close>

datatype assertion = Assertion_failed

text \<open>The loop \<^verbatim>\<open>while(pow < count) pow <<= 1\<close> on a 64-bit \<^verbatim>\<open>size_t\<close>; it need not end.\<close>

partial_function (option) tree_pow :: "nat \<Rightarrow> nat \<Rightarrow> nat option" where
  "tree_pow count pow = (if pow < count then tree_pow count (push_bit 1 pow mod 2 ^ 64) else Some pow)"

definition tree_hash_cnt :: "nat \<Rightarrow> (assertion + nat) option" where
  "tree_hash_cnt count =
     (if \<not> count \<ge> 3 then Some (Inl Assertion_failed)
      else if \<not> count \<le> 0x10000000 then Some (Inl Assertion_failed)
      else map_option (\<lambda>pow. Inr (drop_bit 1 pow)) (tree_pow count 2))"

text \<open>The hash \<^verbatim>\<open>cn_fast_hash\<close> writes; by \<open>cn_hash\<close> below every call returns one.\<close>

definition fast_hash :: "byte list \<Rightarrow> byte list" where
  "fast_hash d = (case cn_fast_hash d of Some (Inr md) \<Rightarrow> md | _ \<Rightarrow> [])"

text \<open>
  The array \<^verbatim>\<open>ints\<close> of hashes.  Its 64 bytes from index \<open>i\<close> on are the hashes \<open>i\<close> and \<open>i + 1\<close>.
\<close>

definition hash_pair :: "byte list list \<Rightarrow> nat \<Rightarrow> byte list" where
  "hash_pair xs i = fast_hash (xs ! i @ xs ! (i + 1))"

definition tree_bottom :: "byte list list \<Rightarrow> nat \<Rightarrow> nat \<times> byte list list" where
  "tree_bottom hashes cnt =
     (let count = length hashes;
          ints = replicate cnt (replicate 32 0);
          ints = take (2 * cnt - count) hashes @ drop (2 * cnt - count) ints
      in foldl (\<lambda>(i, ints) j. (i + 2, ints[j := hash_pair hashes i])) (2 * cnt - count, ints) [2 * cnt - count..<cnt])"

definition tree_level :: "nat \<Rightarrow> byte list list \<Rightarrow> byte list list" where
  "tree_level cnt ints = snd (foldl (\<lambda>(i, ints) j. (i + 2, ints[j := hash_pair ints i])) (0, ints) [0..<cnt])"

function tree_levels :: "nat \<Rightarrow> byte list list \<Rightarrow> byte list list" where
  "tree_levels cnt ints =
     (if cnt > 2 then let cnt = drop_bit 1 cnt in tree_levels cnt (tree_level cnt ints) else ints)"
  by auto
termination
  by (relation "measure fst") (auto simp: drop_bit_eq_div)

declare tree_levels.simps [simp del]

definition tree_hash :: "byte list list \<Rightarrow> (assertion + byte list) option" where
  "tree_hash hashes =
     (let count = length hashes
      in if \<not> count > 0 then Some (Inl Assertion_failed)
         else if count = 1 then Some (Inr (hashes ! 0))
         else if count = 2 then Some (Inr (hash_pair hashes 0))
         else case tree_hash_cnt count of
             None \<Rightarrow> None
           | Some (Inl e) \<Rightarrow> Some (Inl e)
           | Some (Inr cnt) \<Rightarrow>
               (let (i, ints) = tree_bottom hashes cnt
                in if i \<noteq> count then Some (Inl Assertion_failed)
                   else Some (Inr (hash_pair (tree_levels cnt ints) 0))))"

section \<open>The specification\<close>

datatype mtree = Hash_leaf "byte list" | Hash_node mtree mtree

primrec root :: "mtree \<Rightarrow> byte list" where
  "root (Hash_leaf x) = x"
| "root (Hash_node l r) = fast_hash (root l @ root r)"

primrec leaves :: "mtree \<Rightarrow> byte list list" where
  "leaves (Hash_leaf x) = [x]"
| "leaves (Hash_node l r) = leaves l @ leaves r"

primrec depths :: "mtree \<Rightarrow> nat list" where
  "depths (Hash_leaf x) = [0]"
| "depths (Hash_node l r) = map Suc (depths l) @ map Suc (depths r)"

text \<open>The tree with the leaves \<open>xs\<close> at the depths \<open>d\<close> and \<open>d + 1\<close>, the deeper ones to the right.\<close>

primrec merkle :: "nat \<Rightarrow> byte list list \<Rightarrow> mtree" where
  "merkle 0 xs = (if length xs = 1 then Hash_leaf (xs ! 0) else Hash_node (Hash_leaf (xs ! 0)) (Hash_leaf (xs ! 1)))"
| "merkle (Suc d) xs =
     (let k = max (2 ^ d) (length xs - 2 ^ Suc d) in Hash_node (merkle d (take k xs)) (merkle d (drop k xs)))"

fun merkle_depth :: "nat \<Rightarrow> nat" where
  "merkle_depth n = (if n \<le> 2 then 0 else Suc (merkle_depth ((n + 1) div 2)))"

declare merkle_depth.simps [simp del]

definition merkle_tree :: "byte list list \<Rightarrow> mtree" where
  "merkle_tree xs = merkle (merkle_depth (length xs)) xs"

section \<open>The power of two\<close>

lemma tree_pow_power:
  assumes "count \<le> 2 ^ n" "n \<le> 63" "k \<le> n" "2 ^ (n - 1) < count"
  shows "tree_pow count (2 ^ k) = Some (2 ^ n)"
  using assms(3)
proof (induction "n - k" arbitrary: k)
  case 0
  then show ?case
    using assms by (simp add: tree_pow.simps)
next
  case (Suc m)
  then have k: "k < n"
    by simp
  have "(2 :: nat) ^ k \<le> 2 ^ (n - 1)"
    using k by (intro power_increasing) simp_all
  then have "2 ^ k < count"
    using assms(4) by (rule le_less_trans)
  moreover have "(2 :: nat) ^ Suc k < 2 ^ 64"
    using k assms(2) by (intro power_strict_increasing) simp_all
  then have "push_bit 1 (2 ^ k) mod 2 ^ 64 = (2 :: nat) ^ Suc k"
    by (simp add: push_bit_eq_mult)
  moreover have "tree_pow count (2 ^ Suc k) = Some (2 ^ n)"
    using Suc k by (intro Suc.hyps(1)) simp_all
  ultimately show ?case
    by (simp add: tree_pow.simps [of count "2 ^ k"])
qed

lemma merkle_depth_small: "n \<le> 2 \<Longrightarrow> merkle_depth n = 0"
  by (simp add: merkle_depth.simps)

lemma merkle_depth_bounds: "2 \<le> n \<Longrightarrow> 2 ^ merkle_depth n < n \<and> n \<le> 2 * 2 ^ merkle_depth n"
proof (induction n rule: merkle_depth.induct)
  case (1 n)
  show ?case
  proof (cases "n \<le> 2")
    case False
    then have "2 ^ merkle_depth ((n + 1) div 2) < (n + 1) div 2 \<and> (n + 1) div 2 \<le> 2 * 2 ^ merkle_depth ((n + 1) div 2)"
      using 1 by simp
    then show ?thesis
      using False by (simp add: merkle_depth.simps [of n]) linarith
  qed (use 1 in \<open>simp add: merkle_depth_small\<close>)
qed

lemma tree_hash_cnt_eq:
  "tree_hash_cnt count =
     (if 3 \<le> count \<and> count \<le> 2 ^ 28 then Some (Inr (2 ^ merkle_depth count)) else Some (Inl Assertion_failed))"
proof (cases "3 \<le> count \<and> count \<le> 2 ^ 28")
  case True
  let ?d = "merkle_depth count"
  have b: "2 ^ ?d < count" "count \<le> 2 ^ Suc ?d"
    using merkle_depth_bounds [of count] True by simp_all
  then have "(2 :: nat) ^ ?d < 2 ^ 28"
    using True by (blast intro: less_le_trans)
  then have "?d < 28"
    by (rule power_less_imp_less_exp [rotated]) simp
  then have "tree_pow count (2 ^ 1) = Some (2 ^ Suc ?d)"
    using b by (intro tree_pow_power) simp_all
  then show ?thesis
    using True by (simp add: tree_hash_cnt_def drop_bit_eq_div)
qed (auto simp: tree_hash_cnt_def)

section \<open>The loops\<close>

fun pairup :: "byte list list \<Rightarrow> byte list list" where
  "pairup (x # y # xs) = fast_hash (x @ y) # pairup xs"
| "pairup xs = []"

lemma length_pairup: "length (pairup xs) = length xs div 2"
  by (induction xs rule: pairup.induct) simp_all

lemma pairup_append: "even (length xs) \<Longrightarrow> pairup (xs @ ys) = pairup xs @ pairup ys"
  by (induction xs rule: pairup.induct) simp_all

lemma nth_pairup: "2 * j + 1 < length xs \<Longrightarrow> pairup xs ! j = hash_pair xs (2 * j)"
proof (induction xs arbitrary: j rule: pairup.induct)
  case (1 x y xs)
  then show ?case
    by (cases j) (simp_all add: hash_pair_def)
qed simp_all

lemma take_pairup: "pairup (take (2 * n) xs) = take n (pairup xs)"
proof (induction n arbitrary: xs)
  case (Suc n)
  show ?case
    by (cases xs rule: pairup.cases) (simp_all add: Suc)
qed simp

lemma tree_level_loop:
  assumes "2 * n \<le> length ints"
  shows "foldl (\<lambda>(i, ints) j. (i + 2, ints[j := hash_pair ints i])) (0, ints) [0..<n]
    = (2 * n, take n (pairup ints) @ drop n ints)"
  using assms
proof (induction n)
  case (Suc n)
  let ?xs = "take n (pairup ints) @ drop n ints"
  have n: "n < length (pairup ints)" "n < length ints" "length (take n (pairup ints)) = n"
    using Suc.prems by (simp_all add: length_pairup)
  have "hash_pair ?xs (2 * n) = hash_pair ints (2 * n)"
    using Suc.prems n by (simp add: hash_pair_def nth_append mult_2)
  then have "?xs[n := hash_pair ?xs (2 * n)] = take n (pairup ints) @ (drop n ints)[0 := pairup ints ! n]"
    using Suc.prems n by (simp add: list_update_append nth_pairup)
  also have "\<dots> = take (Suc n) (pairup ints) @ drop (Suc n) ints"
    using n by (simp add: take_Suc_conv_app_nth flip: Cons_nth_drop_Suc)
  finally show ?case
    using Suc by simp
qed simp

lemma tree_level_take: "2 * n \<le> length ints \<Longrightarrow> take n (tree_level n ints) = pairup (take (2 * n) ints)"
  unfolding tree_level_def by (simp only: tree_level_loop) (simp add: take_pairup length_pairup)

lemma length_tree_level: "2 * n \<le> length ints \<Longrightarrow> length (tree_level n ints) = length ints"
  unfolding tree_level_def by (simp only: tree_level_loop) (simp add: length_pairup)

text \<open>The root of a complete tree over a power of two of nodes.\<close>

primrec top :: "nat \<Rightarrow> byte list list \<Rightarrow> byte list" where
  "top 0 ys = ys ! 0"
| "top (Suc k) ys = fast_hash (top k (take (2 ^ k) ys) @ top k (drop (2 ^ k) ys))"

lemma top_pairup: "length ys = 2 ^ Suc k \<Longrightarrow> top (Suc k) ys = top k (pairup ys)"
proof (induction k arbitrary: ys)
  case 0
  then show ?case
    by (cases ys rule: pairup.cases) auto
next
  case (Suc k)
  let ?l = "take (2 ^ Suc k) ys" and ?r = "drop (2 ^ Suc k) ys"
  have l: "length ?l = 2 ^ Suc k" "length ?r = 2 ^ Suc k"
    using Suc.prems by simp_all
  have "pairup ys = pairup ?l @ pairup ?r"
    using pairup_append [of ?l ?r] l by simp
  moreover have "length (pairup ?l) = 2 ^ k"
    using l by (simp add: length_pairup)
  ultimately have "top (Suc k) (pairup ys) = fast_hash (top k (pairup ?l) @ top k (pairup ?r))"
    by simp
  also have "\<dots> = top (Suc (Suc k)) ys"
    using Suc.IH [OF l(1)] Suc.IH [OF l(2)] by (simp only: top.simps(2) [of "Suc k"])
  finally show ?case ..
qed

lemma tree_levels_top:
  assumes "2 ^ Suc k \<le> length ints"
  shows "hash_pair (tree_levels (2 ^ Suc k) ints) 0 = top (Suc k) (take (2 ^ Suc k) ints)"
  using assms
proof (induction k arbitrary: ints)
  case 0
  then show ?case
    by (simp add: tree_levels.simps hash_pair_def)
next
  case (Suc k)
  let ?n = "2 ^ Suc k :: nat"
  have two: "2 * ?n \<le> length ints"
    using Suc.prems by simp
  have n: "2 < (2 :: nat) ^ Suc (Suc k)" "drop_bit 1 ((2 :: nat) ^ Suc (Suc k)) = ?n"
    using power_strict_increasing [of 1 "Suc (Suc k)" "2 :: nat"] by (simp_all add: drop_bit_eq_div)
  have "hash_pair (tree_levels (2 ^ Suc (Suc k)) ints) 0 = hash_pair (tree_levels ?n (tree_level ?n ints)) 0"
    unfolding tree_levels.simps [of "2 ^ Suc (Suc k)"] n(2) Let_def using n(1) by (simp only: if_True)
  also have "\<dots> = top (Suc k) (take ?n (tree_level ?n ints))"
    using two by (intro Suc.IH) (simp add: length_tree_level)
  also have "\<dots> = top (Suc k) (pairup (take (2 * ?n) ints))"
    using two by (simp only: tree_level_take)
  also have "\<dots> = top (Suc (Suc k)) (take (2 * ?n) ints)"
    using two by (intro top_pairup [symmetric]) simp
  finally show ?case
    by simp
qed

lemma tree_bottom_loop:
  assumes "a + 2 * n \<le> length hashes" "a + n \<le> length ints"
  shows "foldl (\<lambda>(i, ints) j. (i + 2, ints[j := hash_pair hashes i])) (a, ints) [a..<a + n]
    = (a + 2 * n, take a ints @ take n (pairup (drop a hashes)) @ drop (a + n) ints)"
  using assms
proof (induction n)
  case (Suc n)
  let ?p = "pairup (drop a hashes)"
  let ?l = "take a ints @ take n ?p"
  have n: "n < length ?p" "length ?l = a + n" "a + n < length ints"
    using Suc.prems by (simp_all add: length_pairup)
  have "hash_pair hashes (a + 2 * n) = ?p ! n"
    using nth_pairup [of n "drop a hashes"] Suc.prems by (simp add: hash_pair_def add.assoc)
  then have "(?l @ drop (a + n) ints)[a + n := hash_pair hashes (a + 2 * n)] = ?l @ ?p ! n # drop (Suc (a + n)) ints"
    using n by (simp only: list_update_append) (simp flip: Cons_nth_drop_Suc)
  also have "\<dots> = take a ints @ take (Suc n) ?p @ drop (a + Suc n) ints"
    using n(1) by (simp add: take_Suc_conv_app_nth)
  finally show ?case
    using Suc by simp
qed simp

definition nodes :: "nat \<Rightarrow> byte list list \<Rightarrow> byte list list" where
  "nodes d xs = take (2 * 2 ^ d - length xs) xs @ pairup (drop (2 * 2 ^ d - length xs) xs)"

lemma tree_bottom_nodes:
  assumes "2 ^ d \<le> length hashes" "length hashes \<le> 2 * 2 ^ d"
  shows "tree_bottom hashes (2 ^ d) = (length hashes, nodes d hashes)"
proof -
  let ?a = "2 * 2 ^ d - length hashes" and ?n = "length hashes - 2 ^ d"
  have n: "?a + ?n = 2 ^ d" "?a + 2 * ?n = length hashes" "?a \<le> length hashes"
    using assms by linarith+
  have p: "length (pairup (drop ?a hashes)) = ?n"
    using n by (simp add: length_pairup)
  show ?thesis
    using tree_bottom_loop [of ?a ?n hashes "take ?a hashes @ drop ?a (replicate (2 ^ d) (replicate 32 0))"] n p
    by (simp add: tree_bottom_def nodes_def Let_def)
qed

section \<open>The tree\<close>

text \<open>Where the leaves are split: the left half has no pair at the bottom, or the right half has only pairs.\<close>

lemma merkle_split:
  assumes "2 ^ Suc d \<le> n" "n \<le> 2 * 2 ^ Suc d"
  obtains k :: nat where "max (2 ^ d) (n - 2 ^ Suc d) = k" "2 ^ d \<le> k" "k \<le> 2 * 2 ^ d" "k + 2 ^ d \<le> n"
    "n \<le> k + 2 * 2 ^ d" "k = 2 ^ d \<or> n = k + 2 * 2 ^ d"
  using assms by (cases "n - 2 ^ Suc d \<le> 2 ^ d") (auto simp: max_def)

lemma length_nodes: "2 ^ d \<le> length xs \<Longrightarrow> length xs \<le> 2 * 2 ^ d \<Longrightarrow> length (nodes d xs) = 2 ^ d"
proof -
  assume *: "2 ^ d \<le> length xs" "length xs \<le> 2 * 2 ^ d"
  then have "length xs - (2 * 2 ^ d - length xs) = 2 * (length xs - 2 ^ d)" "2 * 2 ^ d - length xs \<le> length xs"
    by linarith+
  then have "length (nodes d xs) = 2 * 2 ^ d - length xs + (length xs - 2 ^ d)"
    by (simp add: nodes_def length_pairup)
  then show ?thesis
    using * by linarith
qed

lemma nodes_append_left:
  assumes "length xs = 2 ^ d" "length ys \<le> 2 * 2 ^ d"
  shows "nodes (Suc d) (xs @ ys) = nodes d xs @ nodes d ys"
proof -
  have "2 * 2 ^ Suc d - length (xs @ ys) = length xs + (2 * 2 ^ d - length ys)"
    using assms by simp
  then show ?thesis
    using assms(1) by (simp add: nodes_def)
qed

lemma nodes_append_right:
  assumes "2 ^ d \<le> length xs" "length xs \<le> 2 * 2 ^ d" "length ys = 2 * 2 ^ d"
  shows "nodes (Suc d) (xs @ ys) = nodes d xs @ nodes d ys"
proof -
  have "2 * 2 ^ Suc d - length (xs @ ys) = 2 * 2 ^ d - length xs"
    using assms by simp
  moreover have "length (drop (2 * 2 ^ d - length xs) xs) = 2 * (length xs - 2 ^ d)"
    "2 * 2 ^ d - length xs \<le> length xs"
    using assms by (simp, linarith)
  ultimately show ?thesis
    using assms(3) pairup_append [of "drop (2 * 2 ^ d - length xs) xs" ys] by (simp add: nodes_def)
qed

lemma root_merkle:
  assumes "2 ^ d \<le> length xs" "length xs \<le> 2 * 2 ^ d"
  shows "root (merkle d xs) = top d (nodes d xs)"
  using assms
proof (induction d arbitrary: xs)
  case 0
  then have "length xs = 1 \<or> length xs = 2"
    by auto
  then show ?case
    by (auto simp: nodes_def numeral_2_eq_2 length_Suc_conv)
next
  case (Suc d)
  from merkle_split [OF Suc.prems] obtain k where k: "max (2 ^ d) (length xs - 2 ^ Suc d) = k" "2 ^ d \<le> k" "k \<le> 2 * 2 ^ d"
      "k + 2 ^ d \<le> length xs" "length xs \<le> k + 2 * 2 ^ d" and c: "k = 2 ^ d \<or> length xs = k + 2 * 2 ^ d" .
  let ?l = "take k xs" and ?r = "drop k xs"
  have l: "length ?l = k" "length ?r = length xs - k"
    using k by simp_all
  have "nodes (Suc d) (?l @ ?r) = nodes d ?l @ nodes d ?r"
    using c
  proof
    assume "k = 2 ^ d"
    then show ?thesis
      using l k by (intro nodes_append_left) linarith+
  next
    assume "length xs = k + 2 * 2 ^ d"
    then show ?thesis
      using l k by (intro nodes_append_right) linarith+
  qed
  moreover have "length (nodes d ?l) = 2 ^ d"
    using k l by (intro length_nodes) simp_all
  ultimately have "top (Suc d) (nodes (Suc d) xs) = fast_hash (top d (nodes d ?l) @ top d (nodes d ?r))"
    by simp
  then show ?case
    using Suc.IH [of ?l] Suc.IH [of ?r] k l by (simp only: merkle.simps Let_def root.simps)
qed

lemma depths_append:
  assumes "2 ^ d \<le> k" "k \<le> 2 * 2 ^ d" "k + 2 ^ d \<le> n" "n \<le> k + 2 * 2 ^ d" "k = 2 ^ d \<or> n = k + 2 * 2 ^ d"
  shows "replicate (2 * 2 ^ d - k) e @ replicate (2 * (k - 2 ^ d)) f
      @ replicate (2 * 2 ^ d - (n - k)) e @ replicate (2 * (n - k - 2 ^ d)) f
    = replicate (2 * 2 ^ Suc d - n) e @ replicate (2 * (n - 2 ^ Suc d)) f"
  using assms(5)
proof
  assume "k = 2 ^ d"
  moreover from this have "2 * 2 ^ Suc d - n = (2 * 2 ^ d - k) + (2 * 2 ^ d - (n - k))"
    using assms by simp
  ultimately show ?thesis
    by (simp add: replicate_add del: diff_diff_left)
next
  assume "n = k + 2 * 2 ^ d"
  moreover from this have "2 * (n - 2 ^ Suc d) = 2 * (k - 2 ^ d) + 2 * (n - k - 2 ^ d)"
    using assms by simp
  ultimately show ?thesis
    by (simp add: replicate_add)
qed

lemma merkle_shape:
  assumes "2 ^ d \<le> length xs" "length xs \<le> 2 * 2 ^ d"
  shows "leaves (merkle d xs) = xs
    \<and> depths (merkle d xs) = replicate (2 * 2 ^ d - length xs) d @ replicate (2 * (length xs - 2 ^ d)) (Suc d)"
  using assms
proof (induction d arbitrary: xs)
  case 0
  then have "length xs = 1 \<or> length xs = 2"
    by auto
  then show ?case
    by (auto simp: numeral_2_eq_2 length_Suc_conv)
next
  case (Suc d)
  from merkle_split [OF Suc.prems] obtain k where k: "max (2 ^ d) (length xs - 2 ^ Suc d) = k" "2 ^ d \<le> k" "k \<le> 2 * 2 ^ d"
      "k + 2 ^ d \<le> length xs" "length xs \<le> k + 2 * 2 ^ d" and c: "k = 2 ^ d \<or> length xs = k + 2 * 2 ^ d" .
  have l: "length (take k xs) = k" "length (drop k xs) = length xs - k"
    using k by simp_all
  have m: "merkle (Suc d) xs = Hash_node (merkle d (take k xs)) (merkle d (drop k xs))"
    using k(1) by (simp only: merkle.simps Let_def)
  have "2 ^ d \<le> length xs - k" "length xs - k \<le> 2 * 2 ^ d"
    using k by linarith+
  then show ?case
    using Suc.IH [of "take k xs"] Suc.IH [of "drop k xs"] k unfolding l m
    by (simp only: leaves.simps depths.simps map_append map_replicate append_assoc append_take_drop_id
        depths_append [OF k(2-5) c])
qed

section \<open>Correctness of the tree hash\<close>

text \<open>Every call of the hash function returns 32 bytes, the Keccak hash with a digest of that size.\<close>

lemma cn_hash: "cn_fast_hash d = Some (Inr (fast_hash d))" "length (fast_hash d) = 32"
proof -
  obtain md where "cn_fast_hash d = Some (Inr md)" "length md = 32"
    using cn_fast_hash_total by blast
  then show "cn_fast_hash d = Some (Inr (fast_hash d))" "length (fast_hash d) = 32"
    by (simp_all add: fast_hash_def)
qed

text \<open>
  C30. \<^verbatim>\<open>tree_hash_cnt\<close> returns for every argument within its assertions, and the result is the power of
  two that is less than \<open>count\<close> and at least half of it; outside \<open>3 \<le> count \<le> 2 ^ 28\<close> an assertion fails.
\<close>

theorem tree_hash_cnt_correct:
  "if 3 \<le> count \<and> count \<le> 2 ^ 28
   then \<exists>k. tree_hash_cnt count = Some (Inr (2 ^ k)) \<and> 2 ^ k < count \<and> count \<le> 2 * 2 ^ k
   else tree_hash_cnt count = Some (Inl Assertion_failed)"
  using merkle_depth_bounds [of count] by (simp add: tree_hash_cnt_eq)

text \<open>
  C7. For 1 to \<open>2 ^ 28\<close> hashes \<^verbatim>\<open>tree_hash\<close> returns the root hash of a binary tree whose leaves are the given
  hashes in order, each at depth \<open>d\<close> or \<open>d + 1\<close> and the deeper ones to the right; for other numbers of hashes an
  assertion fails.
\<close>

theorem tree_hash_correct:
  "if 1 \<le> length hashes \<and> length hashes \<le> 2 ^ 28
   then tree_hash hashes = Some (Inr (root (merkle_tree hashes))) \<and> leaves (merkle_tree hashes) = hashes
     \<and> (\<exists>d m n. depths (merkle_tree hashes) = replicate m d @ replicate n (Suc d))
   else tree_hash hashes = Some (Inl Assertion_failed)"
proof (cases "1 \<le> length hashes \<and> length hashes \<le> 2 ^ 28")
  case True
  let ?d = "merkle_depth (length hashes)"
  have d: "2 ^ ?d \<le> length hashes" "length hashes \<le> 2 * 2 ^ ?d"
    using merkle_depth_bounds [of "length hashes"] True
    by (cases "length hashes = 1"; simp add: merkle_depth_small)+
  have "tree_hash hashes = Some (Inr (root (merkle_tree hashes)))"
  proof (cases "length hashes \<le> 2")
    case True
    then have "length hashes = 1 \<or> length hashes = 2"
      using \<open>1 \<le> length hashes \<and> length hashes \<le> 2 ^ 28\<close> by auto
    then show ?thesis
      by (elim disjE) (simp_all add: tree_hash_def merkle_tree_def merkle_depth_small hash_pair_def)
  next
    case False
    then obtain k where k: "?d = Suc k"
      by (simp add: merkle_depth.simps [of "length hashes"])
    have l: "2 ^ ?d = length (nodes ?d hashes)"
      using length_nodes [OF d] by simp
    have "root (merkle_tree hashes) = top ?d (nodes ?d hashes)"
      using root_merkle [OF d] by (simp add: merkle_tree_def)
    also have "\<dots> = hash_pair (tree_levels (2 ^ ?d) (nodes ?d hashes)) 0"
      using tree_levels_top [of k "nodes ?d hashes"] l unfolding k by simp
    finally have r: "root (merkle_tree hashes) = hash_pair (tree_levels (2 ^ ?d) (nodes ?d hashes)) 0" .
    have "0 < length hashes" "length hashes \<noteq> 1" "length hashes \<noteq> 2" "3 \<le> length hashes"
      using False by linarith+
    then show ?thesis
      using True tree_bottom_nodes [OF d] r by (auto simp: tree_hash_def tree_hash_cnt_eq Let_def)
  qed
  then show ?thesis
    using True merkle_shape [OF d] by (auto simp: merkle_tree_def)
next
  case False
  then have "length hashes = 0 \<or> 3 \<le> length hashes \<and> 2 ^ 28 < length hashes"
    by (cases "length hashes = 0") simp_all
  then show ?thesis
    using False by (elim disjE conjE) (auto simp: tree_hash_def tree_hash_cnt_eq Let_def)
qed

end
