(* ===== verification/WordMatrix.thy ===== *)
theory WordMatrix
  imports ByteWords
begin

text \<open>
  Sixteen words as a matrix of four rows and columns, the setting of ChaCha and BLAKE: a step works on four words at a
  time, first on each column and then on each diagonal.
\<close>

section \<open>Steps on four of the sixteen variables\<close>

definition on4 :: "(u32 \<Rightarrow> u32 \<Rightarrow> u32 \<Rightarrow> u32 \<Rightarrow> u32 \<times> u32 \<times> u32 \<times> u32) \<Rightarrow> nat \<Rightarrow> nat \<Rightarrow> nat \<Rightarrow> nat \<Rightarrow> u32 list \<Rightarrow> u32 list" where
  "on4 f a b c d x =
     (let (xa, xb, xc, xd) = f (x ! a) (x ! b) (x ! c) (x ! d) in x[a := xa, b := xb, c := xc, d := xd])"

lemma length_on4 [simp]: "length (on4 f a b c d x) = length x"
  by (simp add: on4_def split: prod.splits)

lemma on4_nth:
  assumes "a < length x" "b < length x" "c < length x" "d < length x" "distinct [a, b, c, d]"
  shows "on4 f a b c d x ! a = fst (f (x ! a) (x ! b) (x ! c) (x ! d))"
    "on4 f a b c d x ! b = fst (snd (f (x ! a) (x ! b) (x ! c) (x ! d)))"
    "on4 f a b c d x ! c = fst (snd (snd (f (x ! a) (x ! b) (x ! c) (x ! d))))"
    "on4 f a b c d x ! d = snd (snd (snd (f (x ! a) (x ! b) (x ! c) (x ! d))))"
    "\<And>k. k \<notin> {a, b, c, d} \<Longrightarrow> on4 f a b c d x ! k = x ! k"
  using assms by (auto simp: on4_def nth_list_update split: prod.splits)

section \<open>The matrix\<close>

type_synonym matrix = "nat \<Rightarrow> nat \<Rightarrow> u32"

definition mat :: "u32 list \<Rightarrow> matrix" where
  "mat x r c = x ! (4 * r + c)"

text \<open>
  A step on column \<open>c\<close> maps its words, as a function of the row, to new words.  The diagonals are the columns after row \<open>r\<close>
  is rotated by \<open>r\<close> positions.
\<close>

type_synonym column_step = "(nat \<Rightarrow> u32) \<Rightarrow> nat \<Rightarrow> u32"

definition columns :: "(nat \<Rightarrow> column_step) \<Rightarrow> matrix \<Rightarrow> matrix" where
  "columns q M r c = q c (\<lambda>r. M r c) r"

definition diagonals :: "(nat \<Rightarrow> column_step) \<Rightarrow> matrix \<Rightarrow> matrix" where
  "diagonals q M r c = columns q (\<lambda>r c. M r ((c + r) mod 4)) r ((c + 4 - r) mod 4)"

text \<open>Equality of matrices on the four rows and columns.\<close>

definition same :: "matrix \<Rightarrow> matrix \<Rightarrow> bool" where
  "same M N \<longleftrightarrow> (\<forall>r<4. \<forall>c<4. M r c = N r c)"

text \<open>The step of the program and the step of the specification agree.\<close>

definition agrees :: "(u32 \<Rightarrow> u32 \<Rightarrow> u32 \<Rightarrow> u32 \<Rightarrow> u32 \<times> u32 \<times> u32 \<times> u32) \<Rightarrow> column_step \<Rightarrow> bool" where
  "agrees f q \<longleftrightarrow> (\<forall>w. f (w 0) (w 1) (w 2) (w 3) = (q w 0, q w 1, q w 2, q w 3))"

lemma all_less_4: "(\<forall>r<4. P r) \<longleftrightarrow> P 0 \<and> P 1 \<and> P 2 \<and> P (3 :: nat)"
  by (auto simp: less_Suc_eq numeral_eq_Suc)

lemma same_trans: "same M N \<Longrightarrow> same N K \<Longrightarrow> same M K"
  by (simp add: same_def)

lemma agrees_steps:
  assumes "agrees f q"
  shows "q w 0 = fst (f (w 0) (w 1) (w 2) (w 3))" "q w (Suc 0) = fst (snd (f (w 0) (w 1) (w 2) (w 3)))"
    "q w 2 = fst (snd (snd (f (w 0) (w 1) (w 2) (w 3))))" "q w 3 = snd (snd (snd (f (w 0) (w 1) (w 2) (w 3))))"
  using assms by (simp_all add: agrees_def)

lemma columns_same:
  assumes "\<And>c. c < 4 \<Longrightarrow> agrees (f c) (q c)" "same M N"
  shows "same (columns q M) (columns q N)"
  unfolding same_def columns_def all_less_4
  using assms by (simp add: agrees_steps [OF assms(1)] same_def)

lemma diagonals_same:
  assumes "\<And>c. c < 4 \<Longrightarrow> agrees (f c) (q c)" "same M N"
  shows "same (diagonals q M) (diagonals q N)"
  using columns_same [where M = "\<lambda>r c. M r ((c + r) mod 4)" and N = "\<lambda>r c. N r ((c + r) mod 4)", OF assms(1)] assms(2)
  by (simp add: diagonals_def same_def)

lemma on4_columns:
  assumes "length x = 16" "\<And>c. c < 4 \<Longrightarrow> agrees (f c) (q c)"
  shows "same (mat (on4 (f 3) 3 7 11 15 (on4 (f 2) 2 6 10 14 (on4 (f 1) 1 5 9 13 (on4 (f 0) 0 4 8 12 x)))))
    (columns q (mat x))"
proof -
  obtain a b c d e f' g h i j k l m n u v where x: "x = [a, b, c, d, e, f', g, h, i, j, k, l, m, n, u, v]"
    using assms(1) by (rule length_16)
  show ?thesis
    unfolding same_def all_less_4 columns_def mat_def x
    by (simp add: on4_nth agrees_steps [OF assms(2)] flip: numeral_2_eq_2)
qed

lemma on4_diagonals:
  assumes "length x = 16" "\<And>c. c < 4 \<Longrightarrow> agrees (f c) (q c)"
  shows "same (mat (on4 (f 3) 3 4 9 14 (on4 (f 2) 2 7 8 13 (on4 (f 1) 1 6 11 12 (on4 (f 0) 0 5 10 15 x)))))
    (diagonals q (mat x))"
proof -
  obtain a b c d e f' g h i j k l m n u v where x: "x = [a, b, c, d, e, f', g, h, i, j, k, l, m, n, u, v]"
    using assms(1) by (rule length_16)
  show ?thesis
    unfolding same_def all_less_4 diagonals_def columns_def mat_def x
    by (simp add: on4_nth agrees_steps [OF assms(2)] flip: numeral_2_eq_2)
qed

text \<open>Steps on disjoint words commute.\<close>

lemma on4_commute:
  assumes "set [a, b, c, d] \<inter> set [a', b', c', d'] = {}"
  shows "on4 f a b c d (on4 g a' b' c' d' x) = on4 g a' b' c' d' (on4 f a b c d x)"
  using assms by (auto simp: on4_def list_update_swap split: prod.splits)

end
