(* ===== verification/Chacha.thy ===== *)
theory Chacha
  imports WordMatrix
begin

text \<open>
  The stream cipher of \<^verbatim>\<open>chacha.c\<close>: its unrolled rounds against the definition on a matrix of words, and encryption as the
  exclusive or with the key stream, for every message length.
\<close>

section \<open>The program\<close>

text \<open>\<^verbatim>\<open>QUARTERROUND\<close>: the new values of the four variables.\<close>

definition quarter :: "u32 \<Rightarrow> u32 \<Rightarrow> u32 \<Rightarrow> u32 \<Rightarrow> u32 \<times> u32 \<times> u32 \<times> u32" where
  "quarter a b c d =
     (let a = a + b; d = rol32 (d XOR a) 16;
          c = c + d; b = rol32 (b XOR c) 12;
          a = a + b; d = rol32 (d XOR a) 8;
          c = c + d; b = rol32 (b XOR c) 7
      in (a, b, c, d))"

text \<open>The variables \<^verbatim>\<open>x0\<close> to \<^verbatim>\<open>x15\<close> are a list.\<close>

definition QUARTERROUND :: "nat \<Rightarrow> nat \<Rightarrow> nat \<Rightarrow> nat \<Rightarrow> u32 list \<Rightarrow> u32 list" where
  "QUARTERROUND = on4 quarter"

definition chacha_double_round :: "u32 list \<Rightarrow> u32 list" where
  "chacha_double_round x =
     (let x = QUARTERROUND 0 4 8 12 x;
          x = QUARTERROUND 1 5 9 13 x;
          x = QUARTERROUND 2 6 10 14 x;
          x = QUARTERROUND 3 7 11 15 x;
          x = QUARTERROUND 0 5 10 15 x;
          x = QUARTERROUND 1 6 11 12 x;
          x = QUARTERROUND 2 7 8 13 x;
          x = QUARTERROUND 3 4 9 14 x
      in x)"

function chacha_rounds :: "int \<Rightarrow> u32 list \<Rightarrow> u32 list" where
  "chacha_rounds i x = (if i > 0 then chacha_rounds (i - 2) (chacha_double_round x) else x)"
  by auto
termination
  by (relation "measure (\<lambda>(i, x). nat i)") auto

declare chacha_rounds.simps [simp del]

text \<open>\<^verbatim>\<open>sigma\<close>, the bytes of ``expand 32-byte k'', and the words \<^verbatim>\<open>j0\<close> to \<^verbatim>\<open>j15\<close> at the start.\<close>

definition sigma :: "byte list" where
  "sigma = [101, 120, 112, 97, 110, 100, 32, 51, 50, 45, 98, 121, 116, 101, 32, 107]"

definition chacha_start :: "byte list \<Rightarrow> byte list \<Rightarrow> u32 list" where
  "chacha_start key iv =
     [load32_le sigma 0, load32_le sigma 4, load32_le sigma 8, load32_le sigma 12,
      load32_le key 0, load32_le key 4, load32_le key 8, load32_le key 12,
      load32_le key 16, load32_le key 20, load32_le key 24, load32_le key 28,
      0, 0, load32_le iv 0, load32_le iv 4]"

definition chacha_block :: "int \<Rightarrow> u32 list \<Rightarrow> byte list \<Rightarrow> byte list" where
  "chacha_block rounds j data =
     (let x = chacha_rounds rounds j;
          x = map (\<lambda>k. x ! k + j ! k) [0..<16];
          x = map (\<lambda>k. x ! k XOR load32_le data (4 * k)) [0..<16]
      in concat (map store32_le x))"

definition chacha_count :: "u32 list \<Rightarrow> u32 list" where
  "chacha_count j =
     (let j = j[12 := j ! 12 + 1] in if j ! 12 = 0 then j[13 := j ! 13 + 1] else j)"

text \<open>
  The loop over blocks.  A last block of less than 64 bytes goes through \<^verbatim>\<open>tmp\<close>, whose other bytes are the uninitialised
  contents of the array.
\<close>

function chacha_loop :: "int \<Rightarrow> u32 list \<Rightarrow> byte list \<Rightarrow> byte list \<Rightarrow> byte list" where
  "chacha_loop rounds j tmp data =
     (let block = (if length data < 64 then data @ drop (length data) tmp else take 64 data);
          cipher = chacha_block rounds j block
      in if length data \<le> 64 then if length data < 64 then take (length data) cipher else cipher
         else cipher @ chacha_loop rounds (chacha_count j) tmp (drop 64 data))"
  by auto
termination
  by (relation "measure (\<lambda>(rounds, j, tmp, data). length data)") auto

declare chacha_loop.simps [simp del]

definition chacha :: "int \<Rightarrow> byte list \<Rightarrow> byte list \<Rightarrow> byte list \<Rightarrow> byte list \<Rightarrow> byte list" where
  "chacha rounds tmp data key iv =
     (if length data = 0 then [] else chacha_loop rounds (chacha_start key iv) tmp data)"

definition chacha8 :: "byte list \<Rightarrow> byte list \<Rightarrow> byte list \<Rightarrow> byte list \<Rightarrow> byte list" where
  "chacha8 tmp data key iv = chacha 8 tmp data key iv"

definition chacha20 :: "byte list \<Rightarrow> byte list \<Rightarrow> byte list \<Rightarrow> byte list \<Rightarrow> byte list" where
  "chacha20 tmp data key iv = chacha 20 tmp data key iv"

section \<open>The specification\<close>

text \<open>
  A round works on the columns of the matrix; the second round of a pair works on the diagonals.
\<close>

definition add_rotate :: "nat \<Rightarrow> nat \<Rightarrow> nat \<Rightarrow> nat \<Rightarrow> (nat \<Rightarrow> u32) \<Rightarrow> nat \<Rightarrow> u32" where
  "add_rotate a b d r q = (let q = q(a := q a + q b) in q(d := word_rotl r (q d XOR q a)))"

definition spec_quarter :: "(nat \<Rightarrow> u32) \<Rightarrow> nat \<Rightarrow> u32" where
  "spec_quarter = add_rotate 2 3 1 7 \<circ> add_rotate 0 1 3 8 \<circ> add_rotate 2 3 1 12 \<circ> add_rotate 0 1 3 16"

definition spec_rounds :: "nat \<Rightarrow> matrix \<Rightarrow> matrix" where
  "spec_rounds n = (diagonals (\<lambda>c. spec_quarter) \<circ> columns (\<lambda>c. spec_quarter)) ^^ n"

text \<open>The input of the block function: the constant of the cipher, the key, a 64-bit block counter and the nonce.\<close>

definition cipher_constant :: "byte list" where
  "cipher_constant = map of_char ''expand 32-byte k''"

definition spec_input :: "byte list \<Rightarrow> byte list \<Rightarrow> u64 \<Rightarrow> matrix" where
  "spec_input key iv n r c =
     (if r = 0 then load32_le cipher_constant (4 * c)
      else if r < 3 then load32_le key (16 * (r - 1) + 4 * c)
      else if c = 0 then ucast n else if c = 1 then ucast (drop_bit 32 n) else load32_le iv (4 * (c - 2)))"

definition key_stream :: "nat \<Rightarrow> byte list \<Rightarrow> byte list \<Rightarrow> nat \<Rightarrow> byte" where
  "key_stream n key iv i =
     (let M = spec_input key iv (word_of_nat (i div 64)); r = i mod 64 div 16; c = i mod 16 div 4
      in store32_le (spec_rounds n M r c + M r c) ! (i mod 4))"

lemma sigma_constant: "sigma = cipher_constant"
  by (simp add: sigma_def cipher_constant_def)

section \<open>The rounds\<close>

lemma spec_quarter_agrees: "agrees quarter spec_quarter"
  using rol32_word_rotl [of 16] rol32_word_rotl [of 12] rol32_word_rotl [of 8] rol32_word_rotl [of 7]
  by (simp add: agrees_def spec_quarter_def add_rotate_def quarter_def Let_def)

lemmas quarter_columns = on4_columns [where f = "\<lambda>c. quarter" and q = "\<lambda>c. spec_quarter", OF _ spec_quarter_agrees]
lemmas quarter_diagonals = on4_diagonals [where f = "\<lambda>c. quarter" and q = "\<lambda>c. spec_quarter", OF _ spec_quarter_agrees]
lemmas same_rounds =
  columns_same [where f = "\<lambda>c. quarter" and q = "\<lambda>c. spec_quarter", OF spec_quarter_agrees]
  diagonals_same [where f = "\<lambda>c. quarter" and q = "\<lambda>c. spec_quarter", OF spec_quarter_agrees]

lemma length_double_round [simp]: "length (chacha_double_round x) = length x"
  by (simp add: chacha_double_round_def Let_def QUARTERROUND_def)

lemma chacha_double_round:
  assumes "length x = 16"
  shows "same (mat (chacha_double_round x)) (spec_rounds 1 (mat x))"
proof -
  have "same (mat (chacha_double_round x)) (diagonals (\<lambda>c. spec_quarter) (columns (\<lambda>c. spec_quarter) (mat x)))"
    unfolding chacha_double_round_def Let_def QUARTERROUND_def
    by (rule same_trans [OF quarter_diagonals same_rounds(2) [OF quarter_columns]]) (simp_all add: assms)
  then show ?thesis
    by (simp add: spec_rounds_def)
qed

lemma same_spec_rounds: "same M N \<Longrightarrow> same (spec_rounds n M) (spec_rounds n N)"
  by (induction n) (simp_all add: spec_rounds_def same_rounds)

lemma chacha_rounds:
  assumes "length x = 16"
  shows "same (mat (chacha_rounds (2 * int n) x)) (spec_rounds n (mat x)) \<and> length (chacha_rounds (2 * int n) x) = 16"
  using assms
proof (induction n arbitrary: x)
  case 0
  then show ?case
    by (simp add: chacha_rounds.simps spec_rounds_def same_def)
next
  case (Suc n)
  have "chacha_rounds (2 * int (Suc n)) x = chacha_rounds (2 * int n) (chacha_double_round x)"
    by (subst chacha_rounds.simps) simp
  moreover have "spec_rounds (Suc n) (mat x) = spec_rounds n (spec_rounds 1 (mat x))"
    by (simp add: spec_rounds_def funpow_swap1)
  moreover have "same (mat (chacha_rounds (2 * int n) (chacha_double_round x))) (spec_rounds n (spec_rounds 1 (mat x)))"
    by (rule same_trans [OF _ same_spec_rounds [OF chacha_double_round]]) (use Suc in simp_all)
  ultimately show ?case
    using Suc by simp
qed

section \<open>The blocks\<close>

text \<open>The state of the loop before block \<open>n\<close>.\<close>

definition chacha_state :: "byte list \<Rightarrow> byte list \<Rightarrow> u64 \<Rightarrow> u32 list" where
  "chacha_state key iv n = (chacha_start key iv)[12 := ucast n, 13 := ucast (drop_bit 32 n)]"

lemma chacha_count_state: "chacha_count (chacha_state key iv n) = chacha_state key iv (n + 1)"
  by (simp add: chacha_count_def chacha_state_def chacha_start_def split_add [of n 1, simplified])

lemma mat_state: "same (mat (chacha_state key iv n)) (spec_input key iv n)"
  unfolding same_def all_less_4 by (simp add: mat_def chacha_state_def chacha_start_def spec_input_def sigma_constant)

lemma chacha_block_nth:
  assumes "length data = 64" "i < 64"
  shows "chacha_block (2 * int m) (chacha_state key iv (word_of_nat n)) data ! i = data ! i XOR key_stream m key iv (64 * n + i)"
proof -
  let ?j = "chacha_state key iv (word_of_nat n)" and ?M = "spec_input key iv (word_of_nat n)"
  let ?k = "i div 4" and ?r = "i div 16" and ?c = "i mod 16 div 4"
  let ?x = "chacha_rounds (2 * int m) ?j"
  have k: "?k < 16" "?k = 4 * ?r + ?c" "?r < 4" "?c < 4" "4 * ?k + 4 \<le> length data" "4 * ?k + i mod 4 = i"
  proof -
    have "?c = ?k mod 4"
      using mod_mult2_eq [of i 4 4] by simp
    moreover have "?r = ?k div 4"
      using div_mult2_eq [of i 4 4] by simp
    ultimately show "?k = 4 * ?r + ?c" "?c < 4"
      by simp_all
    show "?k < 16" "?r < 4" "4 * ?k + 4 \<le> length data" "4 * ?k + i mod 4 = i"
      using assms by simp_all
  qed
  have j: "length ?j = 16"
    by (simp add: chacha_state_def chacha_start_def)
  have "?x ! ?k = spec_rounds m ?M ?r ?c"
    using same_trans [OF chacha_rounds [OF j, THEN conjunct1] same_spec_rounds [OF mat_state]] k
    by (simp add: same_def mat_def)
  moreover have "?j ! ?k = ?M ?r ?c"
    using mat_state k by (simp add: same_def mat_def)
  ultimately have "chacha_block (2 * int m) ?j data ! i
      = store32_le (spec_rounds m ?M ?r ?c + ?M ?r ?c XOR load32_le data (4 * ?k)) ! (i mod 4)"
    using k(1) assms(2) by (simp add: chacha_block_def nth_concat_store Let_def del: map_map)
  also have "\<dots> = data ! (4 * ?k + i mod 4) XOR store32_le (spec_rounds m ?M ?r ?c + ?M ?r ?c) ! (i mod 4)"
    using k by (intro store32_le_xor) simp_all
  also have "store32_le (spec_rounds m ?M ?r ?c + ?M ?r ?c) ! (i mod 4) = key_stream m key iv (64 * n + i)"
  proof -
    have "(64 * n + i) mod 16 = i mod 16" "(64 * n + i) mod 4 = i mod 4"
      using mod_mult_self4 [of 16 "4 * n" i] mod_mult_self4 [of 4 "16 * n" i] by simp_all
    then show ?thesis
      using assms(2) by (simp add: key_stream_def Let_def)
  qed
  finally show ?thesis
    using k by simp
qed

lemma length_chacha_block: "length (chacha_block rounds j data) = 64"
  by (simp add: chacha_block_def length_concat_store Let_def del: map_map)

lemma chacha_loop_correct:
  assumes "data \<noteq> []" "length tmp = 64"
  shows "chacha_loop (2 * int m) (chacha_state key iv (word_of_nat n)) tmp data
    = map (\<lambda>i. data ! i XOR key_stream m key iv (64 * n + i)) [0..<length data]"
  using assms(1)
proof (induction "length data" arbitrary: data n rule: less_induct)
  case less
  let ?j = "chacha_state key iv (word_of_nat n)"
  let ?f = "\<lambda>data n. map (\<lambda>i. data ! i XOR key_stream m key iv (64 * n + i)) [0..<length data]"
  let ?block = "if length data < 64 then data @ drop (length data) tmp else take 64 data"
  have b: "chacha_block (2 * int m) ?j ?block = ?f ?block n"
    using assms(2) by (intro nth_equalityI) (simp_all add: length_chacha_block chacha_block_nth)
  show ?case
  proof (cases "length data \<le> 64")
    case True
    then have "take (length data) (?f ?block n) = ?f data n"
      using assms(2) by (auto intro!: nth_equalityI simp: nth_append)
    then show ?thesis
      using True b by (simp add: chacha_loop.simps [of "2 * int m"] Let_def del: take_map) force
  next
    case False
    have "chacha_loop (2 * int m) (chacha_state key iv (word_of_nat (Suc n))) tmp (drop 64 data) = ?f (drop 64 data) (Suc n)"
      using False by (intro less) simp_all
    moreover have "chacha_count ?j = chacha_state key iv (word_of_nat (Suc n))"
      by (simp add: chacha_count_state add.commute)
    ultimately have "chacha_loop (2 * int m) ?j tmp data = ?f (take 64 data) n @ ?f (drop 64 data) (Suc n)"
      using False b by (simp add: chacha_loop.simps [of "2 * int m"] Let_def)
    also have "\<dots> = ?f data n"
      using False by (intro nth_equalityI) (auto simp: nth_append min_def)
    finally show ?thesis .
  qed
qed

lemma chacha_stream:
  assumes "length tmp = 64"
  shows "chacha (2 * int m) tmp data key iv = map (\<lambda>i. data ! i XOR key_stream m key iv i) [0..<length data]"
proof -
  have "chacha_start key iv = chacha_state key iv (word_of_nat 0)"
    by (simp add: chacha_state_def chacha_start_def)
  then show ?thesis
    using chacha_loop_correct [OF _ assms, of data m key iv 0] by (cases "data = []") (simp_all add: chacha_def)
qed

section \<open>Correctness of the cipher\<close>

text \<open>
  C9. For every message, key and nonce, \<^verbatim>\<open>chacha8\<close> and \<^verbatim>\<open>chacha20\<close> compute the exclusive or of the message with the key
  stream of 8 and 20 rounds, whatever the uninitialised buffer holds; byte \<open>i\<close> of the stream comes from the block with
  the 64-bit counter \<open>i div 64\<close>.
\<close>

theorem chacha_correct:
  assumes "length tmp = 64"
  shows "chacha8 tmp data key iv = map (\<lambda>i. data ! i XOR key_stream 4 key iv i) [0..<length data]
    \<and> chacha20 tmp data key iv = map (\<lambda>i. data ! i XOR key_stream 10 key iv i) [0..<length data]"
  using chacha_stream [OF assms, of 4] chacha_stream [OF assms, of 10] by (simp add: chacha8_def chacha20_def)

theorem chacha_correct_witness:
  "chacha20 (replicate 64 170) [1, 2, 3] (replicate 32 7) (replicate 8 9)
    = [1 XOR key_stream 10 (replicate 32 7) (replicate 8 9) 0, 2 XOR key_stream 10 (replicate 32 7) (replicate 8 9) 1,
       3 XOR key_stream 10 (replicate 32 7) (replicate 8 9) 2]"
  using chacha_correct [of "replicate 64 170" "[1, 2, 3]" "replicate 32 7" "replicate 8 9"]
  by (simp add: upt_rec numeral_2_eq_2)

text \<open>
  C21. A second encryption under the same key and nonce restores the message.
\<close>

theorem chacha_roundtrip:
  assumes "length tmp = 64" "length tmp' = 64"
  shows "chacha8 tmp' (chacha8 tmp data key iv) key iv = data \<and> chacha20 tmp' (chacha20 tmp data key iv) key iv = data"
proof -
  have "chacha (2 * int m) tmp' (chacha (2 * int m) tmp data key iv) key iv = data" for m
    unfolding chacha_stream [OF assms(1)] chacha_stream [OF assms(2)] by (intro nth_equalityI) (simp_all add: xor.assoc)
  from this [of 4] this [of 10] show ?thesis
    by (simp add: chacha8_def chacha20_def)
qed

theorem chacha_roundtrip_witness:
  "chacha8 (replicate 64 5) (chacha8 (replicate 64 170) (replicate 100 77) (replicate 32 7) (replicate 8 9)) (replicate 32 7)
    (replicate 8 9) = replicate 100 77"
  using chacha_roundtrip [of "replicate 64 170" "replicate 64 5"] by simp

end
