(* ===== verification/Blake.thy ===== *)
theory Blake
  imports WordMatrix
begin

text \<open>
  The hash functions BLAKE-256 and BLAKE-224 and their HMAC of \<^verbatim>\<open>blake256.c\<close>: the definitions.
\<close>

section \<open>Big-endian words\<close>

definition U8TO32 :: "byte list \<Rightarrow> nat \<Rightarrow> u32" where
  "U8TO32 s k = push_bit 24 (ucast (s ! k)) OR push_bit 16 (ucast (s ! (k + 1)))
     OR push_bit 8 (ucast (s ! (k + 2))) OR ucast (s ! (k + 3))"

definition U32TO8 :: "u32 \<Rightarrow> byte list" where
  "U32TO8 v = [ucast (drop_bit 24 v), ucast (drop_bit 16 v), ucast (drop_bit 8 v), ucast v]"

section \<open>The compression function\<close>

definition blake_sigma :: "nat list list" where
  "blake_sigma =
    [[ 0, 1, 2, 3, 4, 5, 6, 7, 8, 9,10,11,12,13,14,15],
     [14,10, 4, 8, 9,15,13, 6, 1,12, 0, 2,11, 7, 5, 3],
     [11, 8,12, 0, 5, 2,15,13,10,14, 3, 6, 7, 1, 9, 4],
     [ 7, 9, 3, 1,13,12,11,14, 2, 6, 5,10, 4, 0,15, 8],
     [ 9, 0, 5, 7, 2, 4,10,15,14, 1,11,12, 6, 8, 3,13],
     [ 2,12, 6,10, 0,11, 8, 3, 4,13, 7, 5,15,14, 1, 9],
     [12, 5, 1,15,14,13, 4,10, 0, 7, 6, 3, 9, 2, 8,11],
     [13,11, 7,14,12, 1, 3, 9, 5, 0,15, 4, 8, 6, 2,10],
     [ 6,15,14, 9,11, 3, 0, 8,12, 2,13, 7, 1, 4,10, 5],
     [10, 2, 8, 4, 7, 6, 1, 5,15,11, 9,14, 3,12,13, 0],
     [ 0, 1, 2, 3, 4, 5, 6, 7, 8, 9,10,11,12,13,14,15],
     [14,10, 4, 8, 9,15,13, 6, 1,12, 0, 2,11, 7, 5, 3],
     [11, 8,12, 0, 5, 2,15,13,10,14, 3, 6, 7, 1, 9, 4],
     [ 7, 9, 3, 1,13,12,11,14, 2, 6, 5,10, 4, 0,15, 8]]"

definition cst :: "u32 list" where
  "cst =
    [0x243F6A88, 0x85A308D3, 0x13198A2E, 0x03707344,
     0xA4093822, 0x299F31D0, 0x082EFA98, 0xEC4E6C89,
     0x452821E6, 0x38D01377, 0xBE5466CF, 0x34E90C6C,
     0xC0AC29B7, 0xC97C50DD, 0x3F84D5B5, 0xB5470917]"

definition blake_padding :: "byte list" where
  "blake_padding = 0x80 # replicate 63 0"

definition ROT :: "u32 \<Rightarrow> nat \<Rightarrow> u32" where
  "ROT x n = push_bit (32 - n) x OR drop_bit n x"

text \<open>The macro \<^verbatim>\<open>G\<close>: the new values of \<^verbatim>\<open>v[a]\<close> to \<^verbatim>\<open>v[d]\<close>, given the two words it adds.\<close>

definition blake_quarter :: "u32 \<Rightarrow> u32 \<Rightarrow> u32 \<Rightarrow> u32 \<Rightarrow> u32 \<Rightarrow> u32 \<Rightarrow> u32 \<times> u32 \<times> u32 \<times> u32" where
  "blake_quarter x y a b c d =
     (let a = a + (x + b); d = ROT (d XOR a) 16;
          c = c + d; b = ROT (b XOR c) 12;
          a = a + (y + b); d = ROT (d XOR a) 8;
          c = c + d; b = ROT (b XOR c) 7
      in (a, b, c, d))"

definition blake_G :: "u32 list \<Rightarrow> nat \<Rightarrow> nat \<Rightarrow> nat \<Rightarrow> nat \<Rightarrow> nat \<Rightarrow> nat \<Rightarrow> u32 list \<Rightarrow> u32 list" where
  "blake_G m i a b c d e v =
     on4 (blake_quarter (m ! (blake_sigma ! i ! e) XOR cst ! (blake_sigma ! i ! (e + 1)))
           (m ! (blake_sigma ! i ! (e + 1)) XOR cst ! (blake_sigma ! i ! e))) a b c d v"

definition blake_round :: "u32 list \<Rightarrow> nat \<Rightarrow> u32 list \<Rightarrow> u32 list" where
  "blake_round m i v =
     (let v = blake_G m i 0 4 8 12 0 v;
          v = blake_G m i 1 5 9 13 2 v;
          v = blake_G m i 2 6 10 14 4 v;
          v = blake_G m i 3 7 11 15 6 v;
          v = blake_G m i 3 4 9 14 14 v;
          v = blake_G m i 2 7 8 13 12 v;
          v = blake_G m i 0 5 10 15 8 v;
          v = blake_G m i 1 6 11 12 10 v
      in v)"

text \<open>The context.  \<^verbatim>\<open>buflen\<close> counts bits.\<close>

record blake_state =
  bl_h :: "u32 list"
  bl_s :: "u32 list"
  bl_t :: "u32 list"
  bl_buflen :: nat
  bl_nullt :: int
  bl_buf :: "byte list"

definition blake256_compress :: "blake_state \<Rightarrow> byte list \<Rightarrow> blake_state" where
  "blake256_compress S block =
     (let m = map (\<lambda>i. U8TO32 block (i * 4)) [0..<16];
          v = map (\<lambda>i. bl_h S ! i) [0..<8]
            @ [bl_s S ! 0 XOR 0x243F6A88, bl_s S ! 1 XOR 0x85A308D3, bl_s S ! 2 XOR 0x13198A2E, bl_s S ! 3 XOR 0x03707344,
               0xA4093822, 0x299F31D0, 0x082EFA98, 0xEC4E6C89];
          v = (if bl_nullt S = 0 then
                 v[12 := v ! 12 XOR bl_t S ! 0, 13 := v ! 13 XOR bl_t S ! 0,
                   14 := v ! 14 XOR bl_t S ! 1, 15 := v ! 15 XOR bl_t S ! 1]
               else v);
          v = foldl (\<lambda>v i. blake_round m i v) v [0..<14];
          h = foldl (\<lambda>h i. h[i mod 8 := h ! (i mod 8) XOR v ! i]) (bl_h S) [0..<16];
          h = foldl (\<lambda>h i. h[i := h ! i XOR bl_s S ! (i mod 4)]) h [0..<8]
      in S\<lparr>bl_h := h\<rparr>)"

section \<open>The incremental hash\<close>

text \<open>\<^verbatim>\<open>init\<close> leaves the buffer as it was.\<close>

definition blake256_init :: "blake_state \<Rightarrow> blake_state" where
  "blake256_init S =
     S\<lparr>bl_h := [0x6A09E667, 0xBB67AE85, 0x3C6EF372, 0xA54FF53A, 0x510E527F, 0x9B05688C, 0x1F83D9AB, 0x5BE0CD19],
       bl_t := [0, 0], bl_buflen := 0, bl_nullt := 0, bl_s := [0, 0, 0, 0]\<rparr>"

definition blake224_init :: "blake_state \<Rightarrow> blake_state" where
  "blake224_init S =
     S\<lparr>bl_h := [0xC1059ED8, 0x367CD507, 0x3070DD17, 0xF70E5939, 0xFFC00B31, 0x68581511, 0x64F98FA7, 0xBEFA4FA4],
       bl_t := [0, 0], bl_buflen := 0, bl_nullt := 0, bl_s := [0, 0, 0, 0]\<rparr>"

text \<open>\<^verbatim>\<open>S->t[0] += 512; if (S->t[0] == 0) S->t[1]++\<close>, followed by the compression.\<close>

definition blake_count :: "blake_state \<Rightarrow> blake_state" where
  "blake_count S =
     (let t = (bl_t S)[0 := bl_t S ! 0 + 512]
      in S\<lparr>bl_t := if t ! 0 = 0 then t[1 := t ! 1 + 1] else t\<rparr>)"

function blake_blocks :: "blake_state \<Rightarrow> byte list \<Rightarrow> nat \<Rightarrow> blake_state \<times> byte list \<times> nat" where
  "blake_blocks S data datalen =
     (if datalen \<ge> 512 then blake_blocks (blake256_compress (blake_count S) data) (drop 64 data) (datalen - 512)
      else (S, data, datalen))"
  by auto
termination
  by (relation "measure (\<lambda>(S, data, datalen). datalen)") auto

declare blake_blocks.simps [simp del]

definition blake256_update :: "blake_state \<Rightarrow> byte list \<Rightarrow> nat \<Rightarrow> blake_state" where
  "blake256_update S data datalen =
     (let left = drop_bit 3 (bl_buflen S);
          fill = 64 - left;
          full = (left \<noteq> 0 \<and> drop_bit 3 datalen \<ge> fill);
          S = (if full then
                 let S = S\<lparr>bl_buf := memcpy (bl_buf S) left (take fill data)\<rparr>;
                     S = blake_count S
                 in blake256_compress S (bl_buf S)
               else S);
          data = (if full then drop fill data else data);
          datalen = (if full then datalen - push_bit 3 fill else datalen);
          left = (if full then 0 else left);
          (S, data, datalen) = blake_blocks S data datalen
      in if datalen > 0 then
           S\<lparr>bl_buf := memcpy (bl_buf S) left (take (drop_bit 3 datalen) data), bl_buflen := push_bit 3 left + datalen\<rparr>
         else S\<lparr>bl_buflen := 0\<rparr>)"

definition blake224_update :: "blake_state \<Rightarrow> byte list \<Rightarrow> nat \<Rightarrow> blake_state" where
  "blake224_update S data datalen = blake256_update S data datalen"

text \<open>\<^verbatim>\<open>S->t[0] -= n\<close>.\<close>

definition blake_uncount :: "blake_state \<Rightarrow> nat \<Rightarrow> blake_state" where
  "blake_uncount S n = S\<lparr>bl_t := (bl_t S)[0 := bl_t S ! 0 - word_of_nat n]\<rparr>"

definition blake256_final_h :: "blake_state \<Rightarrow> byte \<Rightarrow> byte \<Rightarrow> blake_state \<times> byte list" where
  "blake256_final_h S pa pb =
     (let lo = bl_t S ! 0 + word_of_nat (bl_buflen S);
          hi = bl_t S ! 1;
          hi = (if lo < word_of_nat (bl_buflen S) then hi + 1 else hi);
          msglen = U32TO8 hi @ U32TO8 lo;
          S = (if bl_buflen S = 440 then
                 blake256_update (blake_uncount S 8) [pa] 8
               else
                 let S =
                   (if bl_buflen S < 440 then
                      let S = (if bl_buflen S = 0 then S\<lparr>bl_nullt := 1\<rparr> else S);
                          S = blake_uncount S (440 - bl_buflen S)
                      in blake256_update S blake_padding (440 - bl_buflen S)
                    else
                      let S = blake_uncount S (512 - bl_buflen S);
                          S = blake256_update S blake_padding (512 - bl_buflen S);
                          S = blake_uncount S 440;
                          S = blake256_update S (drop 1 blake_padding) 440
                      in S\<lparr>bl_nullt := 1\<rparr>);
                     S = blake256_update S [pb] 8
                 in blake_uncount S 8);
          S = blake_uncount S 64;
          S = blake256_update S msglen 64
      in (S, concat (map (\<lambda>i. U32TO8 (bl_h S ! i)) [0..<8])))"

definition blake256_final :: "blake_state \<Rightarrow> blake_state \<times> byte list" where
  "blake256_final S = blake256_final_h S 0x81 0x01"

definition blake224_final :: "blake_state \<Rightarrow> blake_state \<times> byte list" where
  "blake224_final S = blake256_final_h S 0x80 0x00"

text \<open>The local variable \<^verbatim>\<open>S\<close> of the one-shot functions is uninitialised: an argument here.\<close>

definition blake256_hash :: "blake_state \<Rightarrow> byte list \<Rightarrow> byte list" where
  "blake256_hash S inp =
     snd (blake256_final (blake256_update (blake256_init S) inp ((length inp * 8) mod 2 ^ 64)))"

definition blake224_hash :: "blake_state \<Rightarrow> byte list \<Rightarrow> byte list" where
  "blake224_hash S inp =
     snd (blake224_final (blake224_update (blake224_init S) inp ((length inp * 8) mod 2 ^ 64)))"

definition hash_extra_blake :: "blake_state \<Rightarrow> byte list \<Rightarrow> byte list" where
  "hash_extra_blake S data = blake256_hash S data"

section \<open>HMAC\<close>

record hmac_state =
  hm_inner :: blake_state
  hm_outer :: blake_state

text \<open>\<^verbatim>\<open>memset(pad, v, 64); for (i = 0; i < keylen; ++i) pad[i] ^= key[i]\<close>.\<close>

definition hmac_pad :: "byte \<Rightarrow> byte list \<Rightarrow> byte list" where
  "hmac_pad v key = foldl (\<lambda>pad i. pad[i := pad ! i XOR key ! i]) (replicate 64 v) [0..<length key]"

definition hmac_blake256_init :: "blake_state \<Rightarrow> hmac_state \<Rightarrow> byte list \<Rightarrow> hmac_state" where
  "hmac_blake256_init S0 S key =
     (let key = (if length key > 64 then blake256_hash S0 key else key);
          inner = blake256_update (blake256_init (hm_inner S)) (hmac_pad 0x36 key) 512;
          outer = blake256_update (blake256_init (hm_outer S)) (hmac_pad 0x5c key) 512
      in \<lparr>hm_inner = inner, hm_outer = outer\<rparr>)"

definition hmac_blake224_init :: "blake_state \<Rightarrow> hmac_state \<Rightarrow> byte list \<Rightarrow> hmac_state" where
  "hmac_blake224_init S0 S key =
     (let key = (if length key > 64 then take 28 (blake256_hash S0 key) else key);
          inner = blake224_update (blake224_init (hm_inner S)) (hmac_pad 0x36 key) 512;
          outer = blake224_update (blake224_init (hm_outer S)) (hmac_pad 0x5c key) 512
      in \<lparr>hm_inner = inner, hm_outer = outer\<rparr>)"

definition hmac_blake256_update :: "hmac_state \<Rightarrow> byte list \<Rightarrow> nat \<Rightarrow> hmac_state" where
  "hmac_blake256_update S data datalen = S\<lparr>hm_inner := blake256_update (hm_inner S) data datalen\<rparr>"

definition hmac_blake224_update :: "hmac_state \<Rightarrow> byte list \<Rightarrow> nat \<Rightarrow> hmac_state" where
  "hmac_blake224_update S data datalen = S\<lparr>hm_inner := blake224_update (hm_inner S) data datalen\<rparr>"

definition hmac_blake256_final :: "hmac_state \<Rightarrow> hmac_state \<times> byte list" where
  "hmac_blake256_final S =
     (let (inner, ihash) = blake256_final (hm_inner S);
          outer = blake256_update (hm_outer S) ihash 256;
          (outer, digest) = blake256_final outer
      in (\<lparr>hm_inner = inner, hm_outer = outer\<rparr>, digest))"

definition hmac_blake224_final :: "hmac_state \<Rightarrow> hmac_state \<times> byte list" where
  "hmac_blake224_final S =
     (let (inner, ihash) = blake224_final (hm_inner S);
          outer = blake224_update (hm_outer S) ihash 224;
          (outer, digest) = blake224_final outer
      in (\<lparr>hm_inner = inner, hm_outer = outer\<rparr>, digest))"

definition hmac_blake256_hash :: "blake_state \<Rightarrow> hmac_state \<Rightarrow> byte list \<Rightarrow> byte list \<Rightarrow> byte list" where
  "hmac_blake256_hash S0 S key inp =
     snd (hmac_blake256_final (hmac_blake256_update (hmac_blake256_init S0 S key) inp ((length inp * 8) mod 2 ^ 64)))"

definition hmac_blake224_hash :: "blake_state \<Rightarrow> hmac_state \<Rightarrow> byte list \<Rightarrow> byte list \<Rightarrow> byte list" where
  "hmac_blake224_hash S0 S key inp =
     snd (hmac_blake224_final (hmac_blake224_update (hmac_blake224_init S0 S key) inp ((length inp * 8) mod 2 ^ 64)))"

end
