(* ===== verification/BlakeCompress.thy ===== *)
theory BlakeCompress
  imports Blake Loads
begin

text \<open>
  The compression function of \<^verbatim>\<open>blake256.c\<close> against its definition on a matrix of words, with a 64-bit counter.  The definition
  has its own table of permutations, its own constants (the digits of \<open>\<pi>\<close>) and its own big-endian conversions.
\<close>

section \<open>The specification\<close>

text \<open>The ten permutations; the rounds use them cyclically.\<close>

definition permutations :: "nat list list" where
  "permutations =
    [[0, 1, 2, 3, 4, 5, 6, 7, 8, 9, 10, 11, 12, 13, 14, 15],
     [14, 10, 4, 8, 9, 15, 13, 6, 1, 12, 0, 2, 11, 7, 5, 3],
     [11, 8, 12, 0, 5, 2, 15, 13, 10, 14, 3, 6, 7, 1, 9, 4],
     [7, 9, 3, 1, 13, 12, 11, 14, 2, 6, 5, 10, 4, 0, 15, 8],
     [9, 0, 5, 7, 2, 4, 10, 15, 14, 1, 11, 12, 6, 8, 3, 13],
     [2, 12, 6, 10, 0, 11, 8, 3, 4, 13, 7, 5, 15, 14, 1, 9],
     [12, 5, 1, 15, 14, 13, 4, 10, 0, 7, 6, 3, 9, 2, 8, 11],
     [13, 11, 7, 14, 12, 1, 3, 9, 5, 0, 15, 4, 8, 6, 2, 10],
     [6, 15, 14, 9, 11, 3, 0, 8, 12, 2, 13, 7, 1, 4, 10, 5],
     [10, 2, 8, 4, 7, 6, 1, 5, 15, 11, 9, 14, 3, 12, 13, 0]]"

definition spec_sigma :: "nat \<Rightarrow> nat \<Rightarrow> nat" where
  "spec_sigma r i = permutations ! (r mod 10) ! i"

text \<open>The first 512 bits of the fraction of \<open>\<pi>\<close>, and the constants: its 32-bit words.\<close>

definition pi_fraction :: int where
  "pi_fraction = 0x243F6A8885A308D313198A2E03707344A4093822299F31D0082EFA98EC4E6C89452821E638D01377BE5466CF34E90C6CC0AC29B7C97C50DD3F84D5B5B5470917"

definition pi_word :: "nat \<Rightarrow> u32" where
  "pi_word i = word_of_int (drop_bit (32 * (15 - i)) pi_fraction)"

text \<open>Big-endian words.\<close>

definition be_word :: "byte list \<Rightarrow> nat \<Rightarrow> u32" where
  "be_word s k = word_of_int (le [s ! (k + 3), s ! (k + 2), s ! (k + 1), s ! k])"

definition be_bytes :: "u32 \<Rightarrow> byte list" where
  "be_bytes w = map (\<lambda>i. word_of_int (uint w div 256 ^ (3 - i))) [0..<4]"

definition half_step :: "nat \<Rightarrow> nat \<Rightarrow> nat \<Rightarrow> u32 \<Rightarrow> nat \<Rightarrow> column_step" where
  "half_step a b d x r q = (let q = q(a := q a + (x + q b)) in q(d := word_rotr r (q d XOR q a)))"

definition spec_G :: "u32 \<Rightarrow> u32 \<Rightarrow> column_step" where
  "spec_G x y = half_step 2 3 1 0 7 \<circ> half_step 0 1 3 y 8 \<circ> half_step 2 3 1 0 12 \<circ> half_step 0 1 3 x 16"

text \<open>The step number \<open>i\<close> of round \<open>r\<close>.\<close>

definition spec_Gi :: "u32 list \<Rightarrow> nat \<Rightarrow> nat \<Rightarrow> column_step" where
  "spec_Gi m r i =
     (let j = spec_sigma r (2 * i); k = spec_sigma r (2 * i + 1) in spec_G (m ! j XOR pi_word k) (m ! k XOR pi_word j))"

definition spec_blake_round :: "u32 list \<Rightarrow> nat \<Rightarrow> matrix \<Rightarrow> matrix" where
  "spec_blake_round m r = diagonals (\<lambda>c. spec_Gi m r (4 + c)) \<circ> columns (spec_Gi m r)"

definition spec_start :: "u32 list \<Rightarrow> u32 list \<Rightarrow> u64 \<Rightarrow> matrix" where
  "spec_start h s t r c =
     (if r < 2 then h ! (4 * r + c)
      else if r = 2 then s ! c XOR pi_word c
      else pi_word (4 + c) XOR (if c < 2 then ucast t else ucast (drop_bit 32 t)))"

definition spec_compress :: "u32 list \<Rightarrow> u32 list \<Rightarrow> u64 \<Rightarrow> u32 list \<Rightarrow> u32 list" where
  "spec_compress h s t m =
     (let v = fold (spec_blake_round m) [0..<14] (spec_start h s t)
      in map (\<lambda>i. h ! i XOR s ! (i mod 4) XOR v (i div 4) (i mod 4) XOR v (i div 4 + 2) (i mod 4)) [0..<8])"

text \<open>The words of a block.\<close>

definition block_words :: "byte list \<Rightarrow> u32 list" where
  "block_words block = map (\<lambda>i. be_word block (4 * i)) [0..<16]"

section \<open>Tables and conversions\<close>

text \<open>The table of the program has 14 rows; the last four repeat the first.\<close>

lemma sigma_rows: "i < 14 \<Longrightarrow> blake_sigma ! i = permutations ! (i mod 10)"
proof -
  have e: "blake_sigma = map (\<lambda>i. permutations ! (i mod 10)) [0..<14]"
    by code_simp
  show "i < 14 \<Longrightarrow> blake_sigma ! i = permutations ! (i mod 10)"
    unfolding e by (subst nth_map_upt) simp_all
qed

lemma cst_words: "i < 16 \<Longrightarrow> cst ! i = pi_word i"
proof -
  have e: "cst = map pi_word [0..<16]"
    by (simp add: cst_def pi_word_def pi_fraction_def upt_rec)
  show "i < 16 \<Longrightarrow> cst ! i = pi_word i"
    unfolding e by (subst nth_map_upt) simp_all
qed

lemma permutations_less: "r < 10 \<Longrightarrow> i < 16 \<Longrightarrow> permutations ! r ! i < 16"
proof -
  have "\<forall>r < 10. \<forall>i < 16. permutations ! r ! i < 16"
    by code_simp
  then show "r < 10 \<Longrightarrow> i < 16 \<Longrightarrow> permutations ! r ! i < 16"
    by blast
qed

lemma U8TO32_be: "U8TO32 s k = be_word s k"
proof (rule bit_word_eqI)
  fix n
  assume "n < LENGTH(32)"
  let ?d = "[s ! (k + 3), s ! (k + 2), s ! (k + 1), s ! k]"
  have b: "bit (?d ! j) i \<longleftrightarrow> i < 8 \<and> bit (le ?d) (8 * j + i)" if "j < 4" for i j
    using that by (intro bit_byte) simp
  consider "n < 8" | "8 \<le> n" "n < 16" | "16 \<le> n" "n < 24" | "24 \<le> n" "n < 32"
    using \<open>n < LENGTH(32)\<close> by fastforce
  then show "bit (U8TO32 s k) n = bit (be_word s k) n"
    using b [of 0 n] b [of 1 "n - 8"] b [of 2 "n - 16"] b [of 3 "n - 24"]
    by cases (simp_all add: U8TO32_def be_word_def bit_simps less_diff_conv2 del: le.simps)
qed

lemma U32TO8_be: "U32TO8 w = be_bytes w"
proof -
  have "ucast (drop_bit n w) = (word_of_int (uint w div 2 ^ n) :: byte)" for n
    by (rule bit_word_eqI) (auto simp: bit_simps simp flip: drop_bit_eq_div)
  from this [of 24] this [of 16] this [of 8] this [of 0] show ?thesis
    by (simp add: U32TO8_def be_bytes_def upt_rec)
qed

section \<open>The rounds\<close>

lemma ROT_word_rotr:
  assumes "0 < r" "r < 32"
  shows "ROT x r = word_rotr r x"
proof -
  have "ROT x r = rol32 x (int (32 - r))"
    using assms by (simp add: ROT_def rol32_def zmod_zminus1_eq_if nat_diff_distrib)
  also have "\<dots> = word_rotl (32 - r) x"
    using assms by (intro rol32_word_rotl) simp_all
  also have "\<dots> = word_rotr r x"
    using assms by (simp add: word_rotl_eq_word_rotr zmod_zminus1_eq_if)
  finally show ?thesis .
qed

lemma quarter_agrees: "agrees (blake_quarter x y) (spec_G x y)"
  using ROT_word_rotr [of 16] ROT_word_rotr [of 12] ROT_word_rotr [of 8] ROT_word_rotr [of 7]
  by (simp add: agrees_def spec_G_def half_step_def blake_quarter_def Let_def)

definition G_words :: "u32 list \<Rightarrow> nat \<Rightarrow> nat \<Rightarrow> u32 \<Rightarrow> u32 \<Rightarrow> u32 \<Rightarrow> u32 \<Rightarrow> u32 \<times> u32 \<times> u32 \<times> u32" where
  "G_words m i k =
     blake_quarter (m ! (blake_sigma ! i ! (2 * k)) XOR cst ! (blake_sigma ! i ! (2 * k + 1)))
       (m ! (blake_sigma ! i ! (2 * k + 1)) XOR cst ! (blake_sigma ! i ! (2 * k)))"

lemma G_agrees:
  assumes "i < 14" "k < 8"
  shows "agrees (G_words m i k) (spec_Gi m i k)"
proof -
  have "blake_sigma ! i ! j < 16" if "j < 16" for j
    using that permutations_less [of "i mod 10" j] assms(1) by (simp add: sigma_rows)
  from this [of "2 * k"] this [of "2 * k + 1"] show ?thesis
    using quarter_agrees assms cst_words by (simp add: G_words_def spec_Gi_def spec_sigma_def Let_def flip: sigma_rows)
qed

lemma blake_round_steps:
  "blake_round m i v =
    (let g = G_words m i;
         w = on4 (g 3) 3 7 11 15 (on4 (g 2) 2 6 10 14 (on4 (g 1) 1 5 9 13 (on4 (g 0) 0 4 8 12 v)))
     in on4 (g (4 + 3)) 3 4 9 14 (on4 (g (4 + 2)) 2 7 8 13 (on4 (g (4 + 1)) 1 6 11 12 (on4 (g (4 + 0)) 0 5 10 15 w))))"
proof -
  let ?g = "G_words m i"
  have G: "blake_G m i a b c d (2 * k) w = on4 (?g k) a b c d w" for a b c d k w
    by (simp add: blake_G_def G_words_def)
  have swap: "on4 p 1 6 11 12 (on4 q 0 5 10 15 (on4 r 2 7 8 13 (on4 s 3 4 9 14 w)))
      = on4 s 3 4 9 14 (on4 r 2 7 8 13 (on4 p 1 6 11 12 (on4 q 0 5 10 15 w)))" for p q r s w
    using on4_commute [of 3 4 9 14 1 6 11 12 s p] on4_commute [of 3 4 9 14 0 5 10 15 s q]
      on4_commute [of 2 7 8 13 1 6 11 12 r p] on4_commute [of 2 7 8 13 0 5 10 15 r q]
      on4_commute [of 3 4 9 14 2 7 8 13 s r] by simp
  show ?thesis
    using G [of _ _ _ _ 0] G [of _ _ _ _ 1] G [of _ _ _ _ 2] G [of _ _ _ _ 3] G [of _ _ _ _ 4] G [of _ _ _ _ 5]
      G [of _ _ _ _ 6] G [of _ _ _ _ 7] by (simp add: blake_round_def Let_def swap [simplified])
qed

lemma length_blake_round [simp]: "length (blake_round m i v) = length v"
  by (simp add: blake_round_def Let_def blake_G_def)

lemma blake_round_same:
  assumes "length v = 16" "i < 14"
  shows "same (mat (blake_round m i v)) (spec_blake_round m i (mat v))"
  unfolding blake_round_steps Let_def spec_blake_round_def comp_apply
  by (rule same_trans [OF on4_diagonals [where f = "\<lambda>c. G_words m i (4 + c)"]
          diagonals_same [where f = "\<lambda>c. G_words m i (4 + c)", OF _ on4_columns [where f = "G_words m i"]]])
    (simp_all add: assms G_agrees)

lemma spec_round_same:
  assumes "i < 14" "same M N"
  shows "same (spec_blake_round m i M) (spec_blake_round m i N)"
  unfolding spec_blake_round_def comp_apply
  by (rule diagonals_same [where f = "\<lambda>c. G_words m i (4 + c)", OF _ columns_same [where f = "G_words m i"]])
    (simp_all add: assms G_agrees)

lemma blake_rounds_same:
  assumes "length v = 16" "same (mat v) M" "n \<le> 14"
  shows "same (mat (foldl (\<lambda>v i. blake_round m i v) v [0..<n])) (fold (spec_blake_round m) [0..<n] M)
    \<and> length (foldl (\<lambda>v i. blake_round m i v) v [0..<n]) = 16"
  using assms(3)
proof (induction n)
  case 0
  then show ?case
    using assms by simp
next
  case (Suc n)
  then show ?case
    using same_trans [OF blake_round_same spec_round_same] by simp
qed

section \<open>The compression function\<close>

definition counter :: "blake_state \<Rightarrow> u64 \<Rightarrow> bool" where
  "counter S t \<longleftrightarrow> bl_nullt S = 0 \<and> bl_t S = [ucast t, ucast (drop_bit 32 t)] \<or> bl_nullt S \<noteq> 0 \<and> t = 0"

lemma length_8:
  assumes "length x = 8"
  obtains a b c d e f g h where "x = [a, b, c, d, e, f, g, h]"
  using assms by (auto simp: numeral_eq_Suc length_Suc_conv)

lemma compress_finish:
  assumes "length h = 8" "length s = 4" "length w = 16" "same (mat w) V"
  shows "foldl (\<lambda>h i. h[i := h ! i XOR s ! (i mod 4)])
      (foldl (\<lambda>h i. h[i mod 8 := h ! (i mod 8) XOR w ! i]) h [0..<16]) [0..<8]
    = map (\<lambda>i. h ! i XOR s ! (i mod 4) XOR V (i div 4) (i mod 4) XOR V (i div 4 + 2) (i mod 4)) [0..<8]"
proof -
  obtain a b c d e f g h' where h: "h = [a, b, c, d, e, f, g, h']"
    using assms(1) by (rule length_8)
  obtain a' b' c' d' e' f' g' h' i' j' k' l' m' n' u' v' where
    w: "w = [a', b', c', d', e', f', g', h', i', j', k', l', m', n', u', v']"
    using assms(3) by (rule length_16)
  have u: "[0..<16] = [0, 1, 2, 3, 4, 5, 6, 7, 8, 9, 10, 11, 12, 13, 14, 15]" "[0..<8] = [0, 1, 2, 3, 4, 5, 6, 7]"
    by (simp_all add: upt_rec)
  show ?thesis
    using assms(4) unfolding same_def all_less_4 u h w by (simp add: mat_def ac_simps flip: numeral_2_eq_2)
qed

lemma compress_spec:
  assumes "length (bl_h S) = 8" "length (bl_s S) = 4" "counter S t"
  shows "blake256_compress S block = S\<lparr>bl_h := spec_compress (bl_h S) (bl_s S) t (block_words block)\<rparr>"
proof -
  obtain a b c d e f g h where h: "bl_h S = [a, b, c, d, e, f, g, h]"
    using assms(1) by (rule length_8)
  obtain s0 s1 s2 s3 where s: "bl_s S = [s0, s1, s2, s3]"
    using assms(2) by (auto simp: numeral_eq_Suc length_Suc_conv)
  let ?v = "[a, b, c, d, e, f, g, h, s0 XOR 0x243F6A88, s1 XOR 0x85A308D3, s2 XOR 0x13198A2E, s3 XOR 0x03707344,
    0xA4093822 XOR ucast t, 0x299F31D0 XOR ucast t, 0x082EFA98 XOR ucast (drop_bit 32 t), 0xEC4E6C89 XOR ucast (drop_bit 32 t)]"
  let ?w = "foldl (\<lambda>v i. blake_round (block_words block) i v) ?v [0..<14]"
  have "same (mat ?v) (spec_start (bl_h S) (bl_s S) t)"
    unfolding same_def all_less_4 by (simp add: mat_def spec_start_def h s cst_def flip: cst_words)
  then have w: "same (mat ?w) (fold (spec_blake_round (block_words block)) [0..<14] (spec_start (bl_h S) (bl_s S) t))"
    and l: "length ?w = 16"
    using blake_rounds_same [of ?v _ 14] by simp_all
  have first: "map (\<lambda>i. [a, b, c, d, e, f, g, h] ! i) [0..<8] = [a, b, c, d, e, f, g, h]"
    by (simp add: upt_rec)
  have v: "blake256_compress S block =
    S\<lparr>bl_h := foldl (\<lambda>h i. h[i := h ! i XOR bl_s S ! (i mod 4)])
      (foldl (\<lambda>h i. h[i mod 8 := h ! (i mod 8) XOR ?w ! i]) (bl_h S) [0..<16]) [0..<8]\<rparr>"
    using assms(3) unfolding counter_def
    by (elim disjE conjE) (simp_all add: blake256_compress_def h s block_words_def U8TO32_be mult.commute Let_def first)
  show ?thesis
    unfolding v spec_compress_def Let_def using compress_finish [OF assms(1,2) l w] by simp
qed

end
