(* ===== verification/BlakeHash.thy ===== *)
theory BlakeHash
  imports BlakeCompress Streaming Complex_Main
begin

text \<open>
  The incremental hash of \<^verbatim>\<open>blake256.c\<close> against the definition of BLAKE-256 and BLAKE-224 on the padded message, and HMAC
  against RFC 2104.
\<close>

section \<open>The specification\<close>

text \<open>The number of bits of \<open>n\<close> bytes, as the 64-bit number that the padding and the counters use.\<close>

definition bit_length :: "nat \<Rightarrow> u64" where
  "bit_length n = word_of_nat (8 * n)"

definition length_bytes :: "nat \<Rightarrow> byte list" where
  "length_bytes n = map (\<lambda>i. word_of_nat (8 * n div 256 ^ (7 - i))) [0..<8]"

text \<open>A one bit, zeros, a last bit that tells BLAKE-256 from BLAKE-224, and the length in bits.\<close>

definition pad_bytes :: "byte \<Rightarrow> nat \<Rightarrow> byte list" where
  "pad_bytes pb n =
     (let p = 64 - (n + 8) mod 64; z = (replicate p 0)[0 := 0x80] in z[p - 1 := z ! (p - 1) OR pb])"

definition blake_pad :: "byte \<Rightarrow> byte list \<Rightarrow> byte list" where
  "blake_pad pb m = m @ pad_bytes pb (length m) @ length_bytes (length m)"

text \<open>The counter of block \<open>i\<close>: the message bits up to its end, and zero if it has none.\<close>

definition block_counter :: "byte list \<Rightarrow> nat \<Rightarrow> u64" where
  "block_counter m i = (if 64 * i < length m then bit_length (min (64 * (i + 1)) (length m)) else 0)"

definition zero_salt :: "u32 list" where
  "zero_salt = [0, 0, 0, 0]"

definition spec_blake :: "u32 list \<Rightarrow> byte \<Rightarrow> byte list \<Rightarrow> byte list" where
  "spec_blake iv pb m =
     (let M = blake_pad pb m;
          h = fold (\<lambda>i h. spec_compress h zero_salt (block_counter m i) (block_words (drop (64 * i) M)))
                [0..<length M div 64] iv
      in concat (map be_bytes h))"

text \<open>
  The initial values: the first 32 bits of the fractions of the square roots of the first eight primes for BLAKE-256, and the
  second 32 bits of those of the next eight primes for BLAKE-224, whose digest has 28 bytes.
\<close>

definition iv256 :: "u32 list" where
  "iv256 = map (\<lambda>p. word_of_int \<lfloor>2 ^ 32 * sqrt (real_of_int p)\<rfloor>) [2, 3, 5, 7, 11, 13, 17, 19]"

definition iv224 :: "u32 list" where
  "iv224 = map (\<lambda>p. word_of_int \<lfloor>2 ^ 64 * sqrt (real_of_int p)\<rfloor>) [23, 29, 31, 37, 41, 43, 47, 53]"

definition spec_blake256 :: "byte list \<Rightarrow> byte list" where
  "spec_blake256 m = spec_blake iv256 1 m"

definition spec_blake224 :: "byte list \<Rightarrow> byte list" where
  "spec_blake224 m = take 28 (spec_blake iv224 0 m)"

section \<open>Initial values and lengths\<close>

lemma floor_sqrt_scaled:
  assumes "0 \<le> n" "n\<^sup>2 \<le> p * 2 ^ (2 * k)" "p * 2 ^ (2 * k) < (n + 1)\<^sup>2"
  shows "\<lfloor>2 ^ k * sqrt (real_of_int p)\<rfloor> = n"
proof (rule floor_unique)
  have "sqrt ((2 ^ k)\<^sup>2) = 2 ^ k"
    by (rule real_sqrt_unique) simp_all
  then have s: "2 ^ k * sqrt (real_of_int p) = sqrt (real_of_int (p * 2 ^ (2 * k)))"
    by (simp add: real_sqrt_mult power_mult power2_eq_square power_mult_distrib mult.commute)
  show "real_of_int n \<le> 2 ^ k * sqrt (real_of_int p)"
    unfolding s using assms(2) by (intro real_le_rsqrt) (simp only: of_int_le_iff flip: of_int_power)
  have "real_of_int (p * 2 ^ (2 * k)) < real_of_int ((n + 1)\<^sup>2)"
    using assms(3) by (simp only: of_int_less_iff)
  then show "2 ^ k * sqrt (real_of_int p) < real_of_int n + 1"
    unfolding s using assms(1) by (intro real_less_lsqrt) simp_all
qed

lemma prime_roots:
  "\<lfloor>2 ^ 32 * sqrt (real_of_int 2)\<rfloor> = 6074000999"
  "\<lfloor>2 ^ 32 * sqrt (real_of_int 3)\<rfloor> = 7439101573"
  "\<lfloor>2 ^ 32 * sqrt (real_of_int 5)\<rfloor> = 9603838834"
  "\<lfloor>2 ^ 32 * sqrt (real_of_int 7)\<rfloor> = 11363415354"
  "\<lfloor>2 ^ 32 * sqrt (real_of_int 11)\<rfloor> = 14244795007"
  "\<lfloor>2 ^ 32 * sqrt (real_of_int 13)\<rfloor> = 15485724812"
  "\<lfloor>2 ^ 32 * sqrt (real_of_int 17)\<rfloor> = 17708603819"
  "\<lfloor>2 ^ 32 * sqrt (real_of_int 19)\<rfloor> = 18721328409"
  "\<lfloor>2 ^ 64 * sqrt (real_of_int 23)\<rfloor> = 88467476731178360536"
  "\<lfloor>2 ^ 64 * sqrt (real_of_int 29)\<rfloor> = 99338756991957652743"
  "\<lfloor>2 ^ 64 * sqrt (real_of_int 31)\<rfloor> = 102707124263845944599"
  "\<lfloor>2 ^ 64 * sqrt (real_of_int 37)\<rfloor> = 112207163657561200953"
  "\<lfloor>2 ^ 64 * sqrt (real_of_int 41)\<rfloor> = 118116794080090393393"
  "\<lfloor>2 ^ 64 * sqrt (real_of_int 43)\<rfloor> = 120963390236882638097"
  "\<lfloor>2 ^ 64 * sqrt (real_of_int 47)\<rfloor> = 126464505871347584935"
  "\<lfloor>2 ^ 64 * sqrt (real_of_int 53)\<rfloor> = 134294323956039700388"
  by (rule floor_sqrt_scaled; simp)+

lemma iv256_eq: "iv256 = [0x6A09E667, 0xBB67AE85, 0x3C6EF372, 0xA54FF53A, 0x510E527F, 0x9B05688C, 0x1F83D9AB, 0x5BE0CD19]"
  unfolding iv256_def list.map prime_roots by simp

lemma iv224_eq: "iv224 = [0xC1059ED8, 0x367CD507, 0x3070DD17, 0xF70E5939, 0xFFC00B31, 0x68581511, 0x64F98FA7, 0xBEFA4FA4]"
  unfolding iv224_def list.map prime_roots by simp

lemma length_iv [simp]: "length iv256 = 8" "length iv224 = 8"
  by (simp_all add: iv256_def iv224_def)

lemma length_bytes_words: "length_bytes n = U32TO8 (ucast (drop_bit 32 (bit_length n))) @ U32TO8 (ucast (bit_length n))"
proof -
  have "(word_of_nat (N div 2 ^ k) :: byte) = ucast (drop_bit k (word_of_nat N :: u64))" if "k \<le> 56" for k N
    using that by (intro bit_word_eqI) (auto simp: bit_simps simp flip: drop_bit_eq_div)
  from this [of 56 "8 * n"] this [of 48 "8 * n"] this [of 40 "8 * n"] this [of 32 "8 * n"] this [of 24 "8 * n"]
    this [of 16 "8 * n"] this [of 8 "8 * n"] this [of 0 "8 * n"]
  have "length_bytes n = map (\<lambda>k. ucast (drop_bit k (bit_length n))) [56, 48, 40, 32, 24, 16, 8, 0]"
    by (simp add: length_bytes_def bit_length_def upt_rec)
  moreover have c: "ucast (drop_bit k (ucast w :: u32)) = (ucast (drop_bit k w) :: byte)" if "k \<le> 24" for w :: u64 and k
  proof (rule bit_word_eqI)
    fix i
    assume "i < LENGTH(8)"
    then have "k + i < 32"
      using that by simp
    then show "bit (ucast (drop_bit k (ucast w :: u32)) :: byte) i = bit (ucast (drop_bit k w) :: byte) i"
      using \<open>i < LENGTH(8)\<close> by (simp add: bit_simps)
  qed
  from c [of 24] c [of 16] c [of 8] c [of 0]
  have "U32TO8 (ucast (drop_bit 32 w)) @ U32TO8 (ucast w) = map (\<lambda>k. ucast (drop_bit k w)) [56, 48, 40, 32, 24, 16, 8, 0]" for w :: u64
    by (simp add: U32TO8_def)
  ultimately show ?thesis
    by simp
qed

section \<open>Chains of full blocks\<close>

primrec chain :: "u32 list \<Rightarrow> byte list \<Rightarrow> nat \<Rightarrow> u32 list" where
  "chain iv d 0 = iv"
| "chain iv d (Suc n) =
     spec_compress (chain iv d n) zero_salt (bit_length (64 * (n + 1))) (block_words (drop (64 * n) d))"

lemma length_spec_compress [simp]: "length (spec_compress h s t m) = 8"
  by (simp add: spec_compress_def Let_def)

lemma length_chain [simp]: "length iv = 8 \<Longrightarrow> length (chain iv d n) = 8"
  by (cases n) simp_all

lemma block_words_cong: "take 64 b = take 64 c \<Longrightarrow> 64 \<le> length b \<Longrightarrow> 64 \<le> length c \<Longrightarrow> block_words b = block_words c"
proof -
  assume t: "take 64 b = take 64 c" and l: "64 \<le> length b" "64 \<le> length c"
  have "b ! k = c ! k" if "k < 64" for k
    using arg_cong [OF t, of "\<lambda>x. x ! k"] that by simp
  then show ?thesis
    by (simp add: block_words_def be_word_def)
qed

lemma chain_append: "64 * n \<le> length d \<Longrightarrow> chain iv (d @ x) n = chain iv d n"
proof (induction n)
  case (Suc n)
  have "block_words (drop (64 * n) (d @ x)) = block_words (drop (64 * n) d)"
    using Suc.prems by (intro block_words_cong) simp_all
  then show ?case
    using Suc by simp
qed simp

text \<open>The fields of a context after \<open>n\<close> full blocks of \<open>D\<close>, but for the buffer.\<close>

definition halves :: "u64 \<Rightarrow> u32 list" where
  "halves t = [ucast t, ucast (drop_bit 32 t)]"

definition blake_at :: "u32 list \<Rightarrow> blake_state \<Rightarrow> byte list \<Rightarrow> nat \<Rightarrow> bool" where
  "blake_at iv S D n \<longleftrightarrow> length iv = 8 \<and> bl_h S = chain iv D n \<and> bl_s S = zero_salt \<and> bl_nullt S = 0
     \<and> bl_t S = halves (bit_length (64 * n))"

lemma blocks_low: "uint (bit_length (64 * n)) mod 2 ^ 32 + 512 \<le> 2 ^ 32"
proof -
  have "uint (bit_length (64 * n)) = (512 * int n) mod 2 ^ 64"
    unfolding bit_length_def by (simp only: unsigned_of_nat take_bit_eq_mod) (simp add: of_nat_mod)
  then have "uint (bit_length (64 * n)) mod 2 ^ 32 = (512 * int n) mod (512 * 2 ^ 23)"
    by (simp add: mod_mod_cancel)
  also have "\<dots> = 512 * (int n mod 2 ^ 23)"
    by (rule mult_mod_right [symmetric])
  finally show ?thesis
    using pos_mod_bound [of "2 ^ 23" "int n"] by simp
qed

lemma halves_add:
  assumes "0 < x" "x \<le> 64"
  shows "halves (bit_length (64 * n + x)) =
    (let t = halves (bit_length (64 * n)); t0 = t ! 0 + word_of_nat (8 * x) in [t0, if t0 = 0 then t ! 1 + 1 else t ! 1])"
proof -
  have "uint (bit_length (64 * n)) mod 2 ^ 32 + int (8 * x) \<le> 2 ^ 32"
    using blocks_low [of n] assms(2) by linarith
  moreover have "bit_length (64 * n + x) = bit_length (64 * n) + word_of_int (int (8 * x))"
    by (simp add: bit_length_def algebra_simps)
  ultimately show ?thesis
    using split_add [of "bit_length (64 * n)" "int (8 * x)"] assms(1) by (simp add: halves_def Let_def)
qed

text \<open>With less than a full block there is no carry.\<close>

lemma halves_add_short:
  assumes "x < 64"
  shows "halves (bit_length (64 * n)) ! 0 + word_of_nat (8 * x) = 0 \<longleftrightarrow> halves (bit_length (64 * n)) ! 0 = 0 \<and> x = 0"
    "\<not> halves (bit_length (64 * n)) ! 0 + word_of_nat (8 * x) < (word_of_nat (8 * x) :: u32)"
proof -
  let ?l = "ucast (bit_length (64 * n)) :: u32"
  have l: "uint ?l + 512 \<le> 2 ^ 32"
    using blocks_low [of n] by (simp add: unsigned_ucast_eq take_bit_eq_mod)
  have x: "uint (word_of_nat (8 * x) :: u32) = 8 * int x"
    using assms by (simp only: unsigned_of_nat take_bit_eq_mod) simp
  have s: "uint (?l + word_of_nat (8 * x)) = uint ?l + 8 * int x"
    using l x assms uint_nonnegative [of ?l] unfolding uint_word_ariths x by simp
  show "halves (bit_length (64 * n)) ! 0 + word_of_nat (8 * x) = 0 \<longleftrightarrow> halves (bit_length (64 * n)) ! 0 = 0 \<and> x = 0"
    using s uint_nonnegative [of ?l] by (auto simp: halves_def uint_0_iff add_nonneg_eq_0_iff simp flip: uint_0_iff)
  show "\<not> halves (bit_length (64 * n)) ! 0 + word_of_nat (8 * x) < (word_of_nat (8 * x) :: u32)"
    using s uint_nonnegative [of ?l] unfolding halves_def word_less_def x by simp
qed

lemma blake_count_halves:
  "bl_t S = halves (bit_length (64 * n)) \<Longrightarrow> blake_count S = S\<lparr>bl_t := halves (bit_length (64 * Suc n))\<rparr>"
  using halves_add [of 64 n] by (simp add: blake_count_def halves_def Let_def add.commute)

lemma blake_at_step:
  assumes "blake_at iv S D n" "64 * Suc n \<le> length D" "block_words b = block_words (drop (64 * n) D)"
  shows "blake_at iv (blake256_compress (blake_count S) b) D (Suc n)
    \<and> bl_buf (blake256_compress (blake_count S) b) = bl_buf S"
proof -
  let ?t = "bit_length (64 * Suc n)"
  have c: "blake_count S = S\<lparr>bl_t := halves ?t\<rparr>"
    using assms(1) by (intro blake_count_halves) (simp add: blake_at_def)
  have "blake256_compress (blake_count S) b
      = blake_count S\<lparr>bl_h := spec_compress (bl_h S) (bl_s S) ?t (block_words b)\<rparr>"
    using assms(1) compress_spec [of "S\<lparr>bl_t := halves ?t\<rparr>" ?t b]
    by (simp add: c blake_at_def counter_def halves_def zero_salt_def)
  then show ?thesis
    using assms(1,3) by (simp add: c blake_at_def)
qed

lemma blake_blocks_at:
  assumes "blake_at iv S D n" "64 * n \<le> length D"
  shows "\<exists>S'. blake_blocks S (drop (64 * n) D) (8 * (length D - 64 * n)) = (S', tail 64 D, 8 * (length D mod 64))
    \<and> blake_at iv S' D (length D div 64) \<and> bl_buf S' = bl_buf S"
  using assms
proof (induction "length D div 64 - n" arbitrary: S n)
  case 0
  then have "n = length D div 64"
    by simp
  moreover have "\<not> 64 \<le> length D mod 64"
    by simp
  ultimately show ?case
    using 0 by (simp add: blake_blocks.simps tail_def minus_mult_div_eq_mod)
next
  case (Suc k)
  let ?S = "blake256_compress (blake_count S) (drop (64 * n) D)"
  have n: "64 * Suc n \<le> length D"
    using Suc.hyps(2) by simp
  have "blake_blocks S (drop (64 * n) D) (8 * (length D - 64 * n))
      = blake_blocks ?S (drop (64 * Suc n) D) (8 * (length D - 64 * Suc n))"
  proof -
    have "512 \<le> 8 * (length D - 64 * n)" "8 * (length D - 64 * n) - 512 = 8 * (length D - 64 * Suc n)"
      using n by (simp_all add: diff_mult_distrib2)
    then show ?thesis
      by (simp only: blake_blocks.simps [of S] if_True) (simp add: add.commute)
  qed
  then show ?case
    using Suc.hyps(1) [of "Suc n" ?S] Suc.hyps(2) blake_at_step [OF Suc.prems(1) n refl] n by simp
qed

section \<open>Updates\<close>

definition blake_rep :: "u32 list \<Rightarrow> blake_state \<Rightarrow> byte list \<Rightarrow> bool" where
  "blake_rep iv S d \<longleftrightarrow> blake_at iv S d (length d div 64) \<and> bl_buflen S = 8 * (length d mod 64)
     \<and> length (bl_buf S) = 64 \<and> take (length d mod 64) (bl_buf S) = tail 64 d"

text \<open>A piece that does not fill the buffer, for any counter.\<close>

lemma update_short_eq:
  assumes "bl_buflen S = 8 * r" "0 < k" "k \<le> length y" "r + k < 64"
  shows "blake256_update S y (8 * k) = S\<lparr>bl_buf := memcpy (bl_buf S) r (take k y), bl_buflen := 8 * (r + k)\<rparr>"
proof -
  have "\<not> 64 - r \<le> k" "\<not> 512 \<le> 8 * k"
    using assms(4) by linarith+
  then show ?thesis
    using assms by (simp add: blake256_update_def Let_def drop_bit_eq_div push_bit_eq_mult blake_blocks.simps [of S])
qed

lemma update_short:
  assumes "bl_buflen S = 8 * r" "length (bl_buf S) = 64" "take r (bl_buf S) = w" "0 < k" "k \<le> length y" "r + k < 64"
  shows "\<exists>b. blake256_update S y (8 * k) = S\<lparr>bl_buf := b, bl_buflen := 8 * (r + k)\<rparr>
    \<and> length b = 64 \<and> take (r + k) b = w @ take k y"
proof -
  let ?b = "memcpy (bl_buf S) r (take k y)"
  have "length ?b = 64" "take (r + k) ?b = w @ take k y"
    using assms take_memcpy [of r "bl_buf S" "take k y"] by (simp_all add: length_memcpy)
  then show ?thesis
    using update_short_eq [OF assms(1,4-6)] by blast
qed

text \<open>A piece that fills the buffer exactly.\<close>

lemma update_fill:
  assumes "bl_buflen S = 8 * r" "length (bl_buf S) = 64" "take r (bl_buf S) = w" "0 < r" "k \<le> length y" "r + k = 64" "r < 64"
  shows "blake256_update S y (8 * k)
    = (let S = S\<lparr>bl_buf := w @ take k y\<rparr> in blake256_compress (blake_count S) (bl_buf S)\<lparr>bl_buflen := 0\<rparr>)"
proof -
  have "memcpy (bl_buf S) r (take k y) = w @ take k y" "64 - r = k"
    using assms by (simp_all add: memcpy_def)
  then show ?thesis
    using assms(1,4-7)
    by (simp add: blake256_update_def Let_def drop_bit_eq_div push_bit_eq_mult blake_blocks.simps blake_count_def)
qed

lemma blake_update_rep:
  assumes "blake_rep iv S d" "x \<noteq> [] \<or> length d mod 64 = 0"
  shows "blake_rep iv (blake256_update S x (8 * length x)) (d @ x)"
proof (cases "length d mod 64 \<noteq> 0 \<and> length x < 64 - length d mod 64")
  case True
  let ?r = "length d mod 64"
  have l: "?r + length x < 64" "0 < length x"
    using True assms(2) by (linarith, simp)
  obtain b where b: "blake256_update S x (8 * length x) = S\<lparr>bl_buf := b, bl_buflen := 8 * (?r + length x)\<rparr>"
    "length b = 64" "take (?r + length x) b = tail 64 d @ x"
    using update_short [of S ?r "tail 64 d" "length x" x] assms(1) l by (auto simp: blake_rep_def)
  have n: "length (d @ x) div 64 = length d div 64" "length (d @ x) mod 64 = ?r + length x"
    using l(1) div_add1_eq [of "length d" "length x" 64] mod_add_eq [of "length d" 64 "length x"] by simp_all
  moreover have "tail 64 (d @ x) = tail 64 d @ x"
    using l(1) by (simp add: tail_append [of 64 d] tail_short length_tail)
  ultimately show ?thesis
    using assms(1) b by (simp add: blake_rep_def blake_at_def chain_append)
next
  case False
  let ?r = "length d mod 64" and ?n = "length d div 64" and ?D = "d @ x"
  let ?full = "?r \<noteq> 0"
  let ?S1 = "S\<lparr>bl_buf := memcpy (bl_buf S) ?r (take (64 - ?r) x)\<rparr>"
  let ?S = "if ?full then blake256_compress (blake_count ?S1) (bl_buf ?S1) else S"
  let ?m = "if ?full then Suc ?n else ?n"
  have at: "blake_at iv S ?D ?n"
    using assms(1) by (simp add: blake_rep_def blake_at_def chain_append)
  have d: "length d = 64 * ?n + ?r"
    by simp
  have m: "64 * ?m \<le> length ?D"
  proof (cases ?full)
    case True
    then have "64 \<le> ?r + length x"
      using False by linarith
    then show ?thesis
      using d True by (simp only: length_append mult_Suc_right not_False_eq_True if_True)
  qed simp
  have S: "blake_at iv ?S ?D ?m \<and> length (bl_buf ?S) = 64"
  proof (cases ?full)
    case True
    have "bl_buf ?S1 = tail 64 d @ take (64 - ?r) x"
      using assms(1) False True by (simp add: blake_rep_def memcpy_def)
    moreover have "drop (64 * ?n) ?D = tail 64 d @ x"
      by (simp add: tail_def)
    ultimately have "take 64 (bl_buf ?S1) = take 64 (drop (64 * ?n) ?D)"
      by (simp add: length_tail)
    then have "block_words (bl_buf ?S1) = block_words (drop (64 * ?n) ?D)"
      using assms(1) False True m by (intro block_words_cong) (simp_all add: blake_rep_def length_memcpy)
    then show ?thesis
      using blake_at_step [of iv ?S1 ?D ?n "bl_buf ?S1"] at m True assms(1)
      by (simp add: blake_at_def blake_rep_def length_memcpy)
  next
    case False
    then show ?thesis
      using at assms(1) by (simp add: blake_rep_def)
  qed
  have x: "(if ?full then drop (64 - ?r) x else x) = drop (64 * ?m) ?D"
    "(if ?full then 8 * length x - 8 * (64 - ?r) else 8 * length x) = 8 * (length ?D - 64 * ?m)"
  proof -
    have e: "64 * Suc n - a = 64 - r" "8 * l - 8 * (64 - r) = 8 * (a + l - 64 * Suc n)" if "a = 64 * n + r" "r < 64"
      for a n r l :: nat
      using that by (simp_all add: diff_mult_distrib2)
    have z: "64 * ?n = length d" if "?r = 0"
      using d that by linarith
    show "(if ?full then drop (64 - ?r) x else x) = drop (64 * ?m) ?D"
      using e(1) [OF d] z by (cases ?full) simp_all
    show "(if ?full then 8 * length x - 8 * (64 - ?r) else 8 * length x) = 8 * (length ?D - 64 * ?m)"
      using e(2) [OF d] z by (cases ?full) simp_all
  qed
  from blake_blocks_at [OF _ m] S obtain S' where
    S': "blake_blocks ?S (drop (64 * ?m) ?D) (8 * (length ?D - 64 * ?m)) = (S', tail 64 ?D, 8 * (length ?D mod 64))"
    "blake_at iv S' ?D (length ?D div 64)" "bl_buf S' = bl_buf ?S"
    by blast
  have u: "blake256_update S x (8 * length x) =
    (if 0 < length ?D mod 64 then S'\<lparr>bl_buf := memcpy (bl_buf S') 0 (tail 64 ?D), bl_buflen := 8 * (length ?D mod 64)\<rparr>
     else S'\<lparr>bl_buflen := 0\<rparr>)"
  proof -
    have f: "(?r \<noteq> 0 \<and> 64 - ?r \<le> drop_bit 3 (8 * length x)) = ?full" "drop_bit 3 (bl_buflen S) = ?r"
      using assms(1) False by (auto simp: blake_rep_def drop_bit_eq_div)
    have b: "bl_buf (blake_count ?S1) = bl_buf ?S1"
      by (simp add: blake_count_def Let_def)
    have t: "take (length ?D mod 64) (tail 64 ?D) = tail 64 ?D"
      by (simp add: length_tail)
    have p: "push_bit 3 k = 8 * k" "drop_bit 3 (8 * k) = k" for k :: nat
      by (simp_all add: push_bit_eq_mult drop_bit_eq_div)
    show ?thesis
      unfolding blake256_update_def Let_def f p(1) b S'(1) [folded x] prod.case by (simp add: p t del: length_append)
  qed
  have "length (memcpy (bl_buf S') 0 (tail 64 ?D)) = 64"
    "take (length ?D mod 64) (memcpy (bl_buf S') 0 (tail 64 ?D)) = tail 64 ?D"
    using S S'(3) take_memcpy [of 0 "bl_buf S'" "tail 64 ?D"] length_tail [of 64 ?D] by (simp_all add: length_memcpy)
  moreover have "tail 64 ?D = []" if "length ?D mod 64 = 0"
    using length_tail [of 64 ?D] that by simp
  ultimately show ?thesis
    using S S'(2,3) unfolding u blake_rep_def blake_at_def by simp
qed

section \<open>The last blocks\<close>

lemma halves_short: "x < 64 \<Longrightarrow> halves (bit_length (64 * n + x)) =
    [halves (bit_length (64 * n)) ! 0 + word_of_nat (8 * x), halves (bit_length (64 * n)) ! 1]"
  using halves_add [of x n] halves_add_short [of x n] by (cases "x = 0") (simp_all add: halves_def Let_def)

lemma pad_bytes_eq:
  assumes "(n + 8) mod 64 < 63"
  shows "pad_bytes pb n = 0x80 # replicate (62 - (n + 8) mod 64) 0 @ [pb]"
proof -
  define k where "k = 62 - (n + 8) mod 64"
  then have "64 - (n + 8) mod 64 = Suc (Suc k)"
    using assms by simp
  moreover have "replicate (Suc (Suc k)) (0 :: byte) = 0 # replicate k 0 @ [0]"
    by (simp add: replicate_append_same)
  ultimately show ?thesis
    by (simp add: pad_bytes_def Let_def nth_append list_update_append flip: k_def)
qed

lemma blake_last:
  assumes "length (bl_h S) = 8" "bl_s S = zero_salt" "bl_buflen S = 448" "length (bl_buf S) = 64" "take 56 (bl_buf S) = w"
    "length ml = 8" "counter (blake_count S) c"
  shows "bl_h (blake256_update S ml 64) = spec_compress (bl_h S) zero_salt c (block_words (w @ ml))"
proof -
  have "counter (blake_count (S\<lparr>bl_buf := w @ ml\<rparr>)) c"
    using assms(7) by (simp add: counter_def blake_count_def Let_def)
  then have "blake256_compress (blake_count (S\<lparr>bl_buf := w @ ml\<rparr>)) (w @ ml)
      = (blake_count (S\<lparr>bl_buf := w @ ml\<rparr>))\<lparr>bl_h := spec_compress (bl_h S) zero_salt c (block_words (w @ ml))\<rparr>"
    using assms(1,2) compress_spec [of "blake_count (S\<lparr>bl_buf := w @ ml\<rparr>)" c "w @ ml"]
    by (simp add: blake_count_def Let_def zero_salt_def)
  then show ?thesis
    using update_fill [of S 56 w 8 ml] assms by (simp add: Let_def)
qed

lemma fold_chain:
  assumes "k \<le> length d div 64"
  shows "fold (\<lambda>i h. spec_compress h zero_salt (block_counter d i) (block_words (drop (64 * i) (d @ z)))) [0..<k] iv = chain iv d k"
  using assms
proof (induction k)
  case (Suc k)
  have k: "64 * Suc k \<le> length d"
    using Suc.prems by simp
  then have "block_words (drop (64 * k) (d @ z)) = block_words (drop (64 * k) d)"
    by (intro block_words_cong) simp_all
  moreover have "block_counter d k = bit_length (64 * (k + 1))"
    using k by (simp add: block_counter_def min_def)
  ultimately show ?case
    using Suc by simp
qed simp

lemma length_bytes_8: "length (length_bytes n) = 8"
  by (simp add: length_bytes_def)

lemma length_pad_bytes: "length (pad_bytes pb n) = 64 - (n + 8) mod 64"
  by (simp add: pad_bytes_def Let_def)

text \<open>The blocks of the padded message after the full ones.\<close>

lemma spec_blake_blocks:
  assumes "length (pad_bytes pb (length d) @ length_bytes (length d)) + length d mod 64 = 64 * k"
  shows "spec_blake iv pb d =
    (let z = tail 64 d @ pad_bytes pb (length d) @ length_bytes (length d); n = length d div 64
     in concat (map be_bytes (fold (\<lambda>i h. spec_compress h zero_salt (block_counter d (n + i)) (block_words (drop (64 * i) z)))
         [0..<k] (chain iv d n))))"
proof -
  let ?z = "pad_bytes pb (length d) @ length_bytes (length d)" and ?n = "length d div 64"
  let ?f = "\<lambda>i h. spec_compress h zero_salt (block_counter d i) (block_words (drop (64 * i) (d @ ?z)))"
  have d: "length d = 64 * ?n + length d mod 64"
    by simp
  have "a + b = 64 * (n + k)" if "b + r = 64 * k" "a = 64 * n + r" for a b n r :: nat
    using that by simp
  from this [OF assms d] have "length (d @ ?z) = 64 * (?n + k)"
    by simp
  then have "length (d @ ?z) div 64 = ?n + k"
    by simp
  moreover have "[0..<?n + k] = [0..<?n] @ map (\<lambda>i. ?n + i) [0..<k]"
    using upt_add_eq_append [of 0 ?n k] by (simp add: map_add_upt add.commute)
  moreover have "drop (64 * (?n + i)) (d @ ?z) = drop (64 * i) (tail 64 d @ ?z)" for i
    unfolding tail_def by (simp add: distrib_left add.commute flip: drop_drop)
  ultimately show ?thesis
    using fold_chain [of ?n d ?z iv] by (simp add: spec_blake_def blake_pad_def Let_def fold_map comp_def)
qed

lemma spec_blake_short:
  assumes "length d mod 64 \<le> 55"
  shows "spec_blake iv pb d = concat (map be_bytes (spec_compress (chain iv d (length d div 64)) zero_salt
    (if length d mod 64 = 0 then 0 else bit_length (length d))
    (block_words (tail 64 d @ pad_bytes pb (length d) @ length_bytes (length d)))))"
proof -
  have "(length d + 8) mod 64 = length d mod 64 + 8"
    using assms mod_add_left_eq [of "length d" 64 8] by simp
  then have "length (pad_bytes pb (length d) @ length_bytes (length d)) + length d mod 64 = 64 * 1"
    using assms by (simp add: length_pad_bytes length_bytes_8)
  moreover have "64 * (length d div 64) = length d - length d mod 64" "length d mod 64 \<le> length d"
    by (simp_all add: minus_mod_eq_mult_div)
  then have "block_counter d (length d div 64) = (if length d mod 64 = 0 then 0 else bit_length (length d))"
    using assms unfolding block_counter_def by auto
  ultimately show ?thesis
    using spec_blake_blocks [of pb d 1 iv] by (simp add: Let_def)
qed

lemma spec_blake_long:
  assumes "55 < length d mod 64"
  shows "spec_blake iv pb d = concat (map be_bytes (spec_compress
    (spec_compress (chain iv d (length d div 64)) zero_salt (bit_length (length d))
      (block_words (tail 64 d @ 0x80 # replicate (63 - length d mod 64) 0)))
    zero_salt 0 (block_words (replicate 55 0 @ [pb] @ length_bytes (length d)))))"
proof -
  let ?r = "length d mod 64" and ?n = "length d div 64"
  have r: "?r < 64"
    by simp
  have "(q + 8) mod 64 = q - 56" if "55 < q" "q < 64" for q :: nat
    using that by (simp add: le_mod_geq)
  from this [OF assms r] have m: "(length d + 8) mod 64 = ?r - 56"
    using mod_add_left_eq [of "length d" 64 8] by simp
  then have p: "pad_bytes pb (length d) = (0x80 # replicate (63 - ?r) 0) @ replicate 55 0 @ [pb]"
    using assms r pad_bytes_eq [of "length d" pb] by (simp flip: replicate_add append_assoc)
  have "64 - q = Suc (63 - q)" if "q < 64" for q :: nat
    using that by simp
  from this [OF r] have r64: "64 - ?r = Suc (63 - ?r)" .
  let ?z = "tail 64 d @ pad_bytes pb (length d) @ length_bytes (length d)"
  have "length (pad_bytes pb (length d) @ length_bytes (length d)) + ?r = 64 * 2"
    using assms r m by (simp add: length_pad_bytes length_bytes_8)
  moreover have "64 * ?n = length d - ?r" "?r \<le> length d"
    by (simp_all add: minus_mod_eq_mult_div)
  then have "block_counter d ?n = bit_length (length d)" "block_counter d (?n + 1) = 0"
    using assms r unfolding block_counter_def by auto
  moreover have "block_words ?z = block_words (tail 64 d @ 0x80 # replicate (63 - ?r) 0)"
    using assms by (intro block_words_cong) (simp_all add: p length_tail r64)
  moreover have "drop 64 ?z = replicate 55 0 @ [pb] @ length_bytes (length d)"
    by (simp add: p length_tail r64)
  ultimately show ?thesis
    using spec_blake_blocks [of pb d 2 iv] by (simp add: Let_def numeral_2_eq_2)
qed

lemma blake_digest: "length h = 8 \<Longrightarrow> concat (map (\<lambda>i. U32TO8 (h ! i)) [0..<8]) = concat (map be_bytes h)"
proof -
  assume "length h = 8"
  then have "map be_bytes (map (\<lambda>i. h ! i) [0..<8]) = map be_bytes h"
    using map_nth [of h] by simp
  then show ?thesis
    by (simp add: comp_def U32TO8_be)
qed

lemma blake_rep_fields:
  assumes "blake_rep iv S d"
  shows "length (bl_h S) = 8" "bl_h S = chain iv d (length d div 64)" "bl_s S = zero_salt" "bl_nullt S = 0"
    "bl_t S = halves (bit_length (64 * (length d div 64)))" "bl_buflen S = 8 * (length d mod 64)" "length (bl_buf S) = 64"
    "take (length d mod 64) (bl_buf S) = tail 64 d"
  using assms by (auto simp: blake_rep_def blake_at_def)

text \<open>The length that is written into the last block.\<close>

lemma final_length:
  assumes "blake_rep iv S d"
  defines "lo \<equiv> bl_t S ! 0 + word_of_nat (bl_buflen S)"
  shows "U32TO8 (if lo < word_of_nat (bl_buflen S) then bl_t S ! 1 + 1 else bl_t S ! 1) @ U32TO8 lo = length_bytes (length d)"
proof -
  note f = blake_rep_fields [OF assms(1)]
  have "halves (bit_length (64 * (length d div 64) + length d mod 64)) = [lo, bl_t S ! 1]"
    using halves_short [of "length d mod 64" "length d div 64"] by (simp add: lo_def f(5,6))
  then have "halves (bit_length (length d)) = [lo, bl_t S ! 1]"
    by simp
  moreover have "\<not> lo < word_of_nat (bl_buflen S)"
    using halves_add_short(2) [of "length d mod 64" "length d div 64"] by (simp add: lo_def f(5,6))
  ultimately show ?thesis
    by (simp add: length_bytes_words halves_def)
qed

text \<open>The counters that the subtractions before the last updates leave.\<close>

lemma final_counter:
  assumes "bl_nullt S = 0" "bl_t S = [halves (bit_length (64 * n)) ! 0 + word_of_nat (8 * r) - 512, halves (bit_length (64 * n)) ! 1]"
    "0 < r" "r < 64"
  shows "counter (blake_count S) (bit_length (64 * n + r))"
proof -
  have "halves (bit_length (64 * n)) ! 0 + word_of_nat (8 * r) \<noteq> 0"
    using halves_add_short(1) [of r n] assms(3,4) by simp
  then have "bl_t (blake_count S) = halves (bit_length (64 * n + r))"
    using halves_short [OF assms(4), of n] assms(2) by (simp add: blake_count_def Let_def)
  then show ?thesis
    using assms(1) by (simp add: counter_def halves_def blake_count_def Let_def)
qed

lemma null_counter: "bl_nullt S = 1 \<Longrightarrow> counter (blake_count S) 0"
  by (simp add: counter_def blake_count_def Let_def)

lemma uncount_fields [simp]:
  "bl_h (blake_uncount S k) = bl_h S" "bl_s (blake_uncount S k) = bl_s S" "bl_nullt (blake_uncount S k) = bl_nullt S"
  "bl_buflen (blake_uncount S k) = bl_buflen S" "bl_buf (blake_uncount S k) = bl_buf S"
  "bl_t (blake_uncount S k) = (bl_t S)[0 := bl_t S ! 0 - word_of_nat k]"
  by (simp_all add: blake_uncount_def)

lemma count_fields [simp]:
  "bl_h (blake_count S) = bl_h S" "bl_s (blake_count S) = bl_s S" "bl_nullt (blake_count S) = bl_nullt S"
  "bl_buflen (blake_count S) = bl_buflen S" "bl_buf (blake_count S) = bl_buf S"
  by (simp_all add: blake_count_def Let_def)

lemma final_55:
  assumes "blake_rep iv S d" "length d mod 64 = 55"
  shows "snd (blake256_final_h S (0x80 OR pb) pb) = spec_blake iv pb d"
proof -
  note f = blake_rep_fields [OF assms(1)]
  let ?S = "blake_uncount S 8"
  obtain b where b: "blake256_update ?S [0x80 OR pb] (8 * 1) = ?S\<lparr>bl_buf := b, bl_buflen := 8 * (55 + 1)\<rparr>"
    "length b = 64" "take (55 + 1) b = tail 64 d @ take 1 [0x80 OR pb]"
    using update_short [of ?S 55 "tail 64 d" 1 "[0x80 OR pb]"] f assms(2) by auto
  let ?S' = "blake_uncount (?S\<lparr>bl_buf := b, bl_buflen := 448\<rparr>) 64"
  have "counter (blake_count ?S') (bit_length (64 * (length d div 64) + 55))"
    using f assms(2) by (intro final_counter) (simp_all add: halves_def)
  moreover have "64 * (length d div 64) + 55 = length d"
    using assms(2) div_mult_mod_eq [of "length d" 64] by simp
  moreover have "pad_bytes pb (length d) = [0x80 OR pb]"
    using assms(2) mod_add_left_eq [of "length d" 64 8] by (simp add: pad_bytes_def)
  ultimately have "bl_h (blake256_update ?S' (length_bytes (length d)) 64) = spec_compress (chain iv d (length d div 64)) zero_salt
      (bit_length (length d)) (block_words (tail 64 d @ pad_bytes pb (length d) @ length_bytes (length d)))"
    using blake_last [of ?S' "tail 64 d @ [0x80 OR pb]" "length_bytes (length d)"] f b by (simp add: length_bytes_8)
  moreover have "snd (blake256_final_h S (0x80 OR pb) pb)
      = concat (map (\<lambda>i. U32TO8 (bl_h (blake256_update ?S' (length_bytes (length d)) 64) ! i)) [0..<8])"
    unfolding blake256_final_h_def Let_def final_length [OF assms(1)] using f(6) assms(2) b(1) by simp
  ultimately show ?thesis
    using spec_blake_short [of d iv pb] assms(2) by (simp add: blake_digest)
qed

text \<open>The last byte of the padding and the length, after 55 bytes of the last block.\<close>

lemma final_tail:
  assumes "length (bl_h S) = 8" "bl_s S = zero_salt" "bl_buflen S = 440" "length (bl_buf S) = 64" "take 55 (bl_buf S) = w"
    "length ml = 8" "counter (blake_count (blake_uncount (blake_uncount S 8) 64)) c"
  shows "bl_h (blake256_update (blake_uncount (blake_uncount (blake256_update S [pb] 8) 8) 64) ml 64)
    = spec_compress (bl_h S) zero_salt c (block_words (w @ [pb] @ ml))"
proof -
  obtain b where b: "blake256_update S [pb] 8 = S\<lparr>bl_buf := b, bl_buflen := 448\<rparr>" "length b = 64"
    "take 56 b = w @ [pb]"
    using update_short [of S 55 w 1 "[pb]"] assms(3-5) by auto
  let ?S = "blake_uncount (blake_uncount (S\<lparr>bl_buf := b, bl_buflen := 448\<rparr>) 8) 64"
  have "counter (blake_count ?S) c"
    using assms(7) by (simp add: counter_def blake_count_def Let_def)
  then show ?thesis
    using blake_last [of ?S "w @ [pb]" ml c] assms b by simp
qed

lemma final_short:
  assumes "blake_rep iv S d" "length d mod 64 < 55"
  shows "snd (blake256_final_h S pa pb) = spec_blake iv pb d"
proof -
  note f = blake_rep_fields [OF assms(1)]
  let ?r = "length d mod 64" and ?n = "length d div 64"
  define S1 where "S1 = (if bl_buflen S = 0 then S\<lparr>bl_nullt := 1\<rparr> else S)"
  have g: "bl_h S1 = bl_h S" "bl_s S1 = bl_s S" "bl_t S1 = bl_t S" "bl_buflen S1 = 8 * ?r" "bl_buf S1 = bl_buf S"
    "bl_nullt S1 = (if ?r = 0 then 1 else 0)"
    using f(4,6) by (simp_all add: S1_def)
  let ?S2 = "blake_uncount S1 (440 - 8 * ?r)"
  let ?c = "if ?r = 0 then 0 else bit_length (length d)"
  have k: "440 - 8 * ?r = 8 * (55 - ?r)"
    by (simp add: diff_mult_distrib2)
  obtain b where b: "blake256_update ?S2 blake_padding (8 * (55 - ?r)) = ?S2\<lparr>bl_buf := b, bl_buflen := 440\<rparr>" "length b = 64"
    "take 55 b = tail 64 d @ take (55 - ?r) blake_padding"
    using update_short [of ?S2 ?r "tail 64 d" "55 - ?r" blake_padding] f(7,8) g assms(2) by (auto simp: blake_padding_def)
  let ?S3 = "?S2\<lparr>bl_buf := b, bl_buflen := 440\<rparr>"
  have "counter (blake_count (blake_uncount (blake_uncount ?S3 8) 64)) ?c"
  proof (cases "?r = 0")
    case True
    then show ?thesis
      using g(6) by (simp add: null_counter)
  next
    case False
    have "(word_of_nat (440 - 8 * ?r) :: u32) = word_of_nat 440 - word_of_nat (8 * ?r)"
      using assms(2) by (intro of_nat_diff) simp
    then have "counter (blake_count (blake_uncount (blake_uncount ?S3 8) 64)) (bit_length (64 * ?n + ?r))"
      using f(5) g assms(2) False by (intro final_counter) (simp_all add: halves_def)
    then show ?thesis
      using False by simp
  qed
  moreover have "pad_bytes pb (length d) = take (55 - ?r) blake_padding @ [pb]"
  proof -
    have "(length d + 8) mod 64 = ?r + 8"
      using assms(2) mod_add_left_eq [of "length d" 64 8] by simp
    moreover have "55 - ?r = Suc (54 - ?r)"
      using assms(2) by (simp add: Suc_diff_le)
    ultimately show ?thesis
      using assms(2) pad_bytes_eq [of "length d" pb] by (simp add: blake_padding_def take_replicate min_def)
  qed
  ultimately have "bl_h (blake256_update (blake_uncount (blake_uncount (blake256_update ?S3 [pb] 8) 8) 64) (length_bytes (length d)) 64)
      = spec_compress (chain iv d ?n) zero_salt ?c (block_words (tail 64 d @ pad_bytes pb (length d) @ length_bytes (length d)))"
    using final_tail [of ?S3 "tail 64 d @ take (55 - ?r) blake_padding" "length_bytes (length d)" ?c pb] f(1-3) g b
    by (simp add: length_bytes_8)
  moreover have "snd (blake256_final_h S pa pb) = concat (map (\<lambda>i. U32TO8 (bl_h (blake256_update
      (blake_uncount (blake_uncount (blake256_update ?S3 [pb] 8) 8) 64) (length_bytes (length d)) 64) ! i)) [0..<8])"
    unfolding blake256_final_h_def Let_def final_length [OF assms(1)] S1_def [symmetric] using f(6) g(4) assms(2) b(1) k
    by simp
  ultimately show ?thesis
    using spec_blake_short [of d iv pb] assms(2) by (simp add: blake_digest)
qed

lemma length_padding: "length blake_padding = 64"
  by (simp add: blake_padding_def)

lemma final_long:
  assumes "blake_rep iv S d" "55 < length d mod 64"
  shows "snd (blake256_final_h S pa pb) = spec_blake iv pb d"
proof -
  note f = blake_rep_fields [OF assms(1)]
  let ?r = "length d mod 64" and ?n = "length d div 64"
  let ?S1 = "blake_uncount S (512 - 8 * ?r)"
  let ?w = "tail 64 d @ take (64 - ?r) blake_padding"
  let ?S1' = "?S1\<lparr>bl_buf := ?w\<rparr>"
  have r: "?r < 64"
    by simp
  have k: "512 - 8 * ?r = 8 * (64 - ?r)"
    by (simp add: diff_mult_distrib2)
  have w: "?w = tail 64 d @ 0x80 # replicate (63 - ?r) 0" "length ?w = 64"
  proof -
    have "64 - q = Suc (63 - q)" if "q < 64" for q :: nat
      using that by simp
    from this [OF r] show "?w = tail 64 d @ 0x80 # replicate (63 - ?r) 0" "length ?w = 64"
      by (simp_all add: blake_padding_def length_tail take_replicate min_def)
  qed
  have "(word_of_nat (512 - 8 * ?r) :: u32) = word_of_nat 512 - word_of_nat (8 * ?r)"
    using r by (intro of_nat_diff) simp
  then have "counter (blake_count ?S1') (bit_length (64 * ?n + ?r))"
    using f assms(2) r by (intro final_counter) (simp_all add: halves_def)
  then have c: "counter (blake_count ?S1') (bit_length (length d))"
    by simp
  let ?h = "spec_compress (chain iv d ?n) zero_salt (bit_length (length d)) (block_words ?w)"
  have "blake256_compress (blake_count ?S1') ?w = (blake_count ?S1')\<lparr>bl_h := ?h\<rparr>"
    using compress_spec [OF _ _ c, of ?w] f by (simp add: zero_salt_def)
  then have S2: "blake256_update ?S1 blake_padding (8 * (64 - ?r)) = (blake_count ?S1')\<lparr>bl_h := ?h, bl_buflen := 0\<rparr>"
    using update_fill [of ?S1 ?r "tail 64 d" "64 - ?r" blake_padding] f assms(2) r
    by (simp add: Let_def length_padding)
  let ?S3 = "blake_uncount ((blake_count ?S1')\<lparr>bl_h := ?h, bl_buflen := 0\<rparr>) 440"
  obtain b where b: "blake256_update ?S3 (drop 1 blake_padding) 440 = ?S3\<lparr>bl_buf := b, bl_buflen := 440\<rparr>" "length b = 64"
    "take 55 b = take 55 (drop 1 blake_padding)"
    using update_short [of ?S3 0 "[]" 55 "drop 1 blake_padding"] w(2) by (auto simp: length_padding)
  let ?S4 = "?S3\<lparr>bl_buf := b, bl_buflen := 440, bl_nullt := 1\<rparr>"
  have "counter (blake_count (blake_uncount (blake_uncount ?S4 8) 64)) 0"
    by (simp add: null_counter)
  then have "bl_h (blake256_update (blake_uncount (blake_uncount (blake256_update ?S4 [pb] 8) 8) 64) (length_bytes (length d)) 64)
      = spec_compress ?h zero_salt 0 (block_words (replicate 55 0 @ [pb] @ length_bytes (length d)))"
    using final_tail [of ?S4 "replicate 55 0" "length_bytes (length d)" 0 pb] f b
    by (simp add: length_bytes_8 blake_padding_def take_replicate)
  moreover have "snd (blake256_final_h S pa pb) = concat (map (\<lambda>i. U32TO8 (bl_h (blake256_update
      (blake_uncount (blake_uncount (blake256_update ?S4 [pb] 8) 8) 64) (length_bytes (length d)) 64) ! i)) [0..<8])"
    unfolding blake256_final_h_def Let_def final_length [OF assms(1)] using f(6) assms(2) b(1) k S2 by simp
  ultimately show ?thesis
    using spec_blake_long [OF assms(2), of iv pb] w(1) by (simp add: blake_digest)
qed

lemma blake_final_rep: "blake_rep iv S d \<Longrightarrow> snd (blake256_final_h S (0x80 OR pb) pb) = spec_blake iv pb d"
  using final_short [of iv S d] final_55 [of iv S d] final_long [of iv S d] by (cases "length d mod 64" "55 :: nat" rule: linorder_cases) auto

section \<open>The hash functions\<close>

interpretation blake: absorbing "\<lambda>_ S x. Inr (blake256_update S x (8 * length x))" "blake_rep iv" "\<lambda>x. x \<noteq> []" "2 ^ 61"
  for iv
  by unfold_locales (simp add: blake_update_rep)

lemma blake_init_rep:
  assumes "length (bl_buf S) = 64"
  shows "blake_rep iv256 (blake256_init S) []" "blake_rep iv224 (blake224_init S) []"
  using assms
  by (simp_all add: blake_rep_def blake_at_def blake256_init_def blake224_init_def iv256_eq iv224_eq zero_salt_def halves_def
      bit_length_def tail_def)

lemma blake_final:
  "blake_rep iv S d \<Longrightarrow> snd (blake256_final S) = spec_blake iv 1 d"
  "blake_rep iv S d \<Longrightarrow> snd (blake224_final S) = spec_blake iv 0 d"
  using blake_final_rep [of iv S d 1] blake_final_rep [of iv S d 0] by (simp_all add: blake256_final_def blake224_final_def)

lemma blake_hash_spec:
  assumes "length (bl_buf S) = 64" "length m < 2 ^ 61"
  shows "blake256_hash S m = spec_blake iv256 1 m" "blake224_hash S m = spec_blake iv224 0 m"
proof -
  have "length m * 8 mod 2 ^ 64 = 8 * length m"
    using assms(2) by simp
  then show "blake256_hash S m = spec_blake iv256 1 m" "blake224_hash S m = spec_blake iv224 0 m"
    using blake_final(1) [OF blake_update_rep [OF blake_init_rep(1)]] blake_final(2) [OF blake_update_rep [OF blake_init_rep(2)]]
      assms(1) by (simp_all add: blake256_hash_def blake224_hash_def blake224_update_def)
qed

lemma length_spec_blake: "length iv = 8 \<Longrightarrow> length (spec_blake iv pb m) = 32"
proof -
  assume iv: "length iv = 8"
  have "length (fold (\<lambda>i h. spec_compress h s (t i) (b i)) is iv) = 8" for s t b "is"
    using iv by (induction "is" rule: rev_induct) simp_all
  moreover have "length (concat (map be_bytes h)) = 4 * length h" for h
    by (induction h) (simp_all add: be_bytes_def)
  ultimately show ?thesis
    by (simp add: spec_blake_def Let_def)
qed

lemma empty_update_rep:
  assumes "blake_rep iv S d"
  shows "blake_rep iv (blake256_update S [] 0) (take (64 * (length d div 64)) d)"
proof -
  let ?n = "length d div 64"
  let ?d = "take (64 * ?n) d"
  have "chain iv d ?n = chain iv ?d ?n"
    using chain_append [of ?n ?d iv "drop (64 * ?n) d"] by simp
  moreover have "blake256_update S [] 0 = S\<lparr>bl_buflen := 0\<rparr>"
  proof -
    have "bl_buflen S div 8 < 64"
      by (simp add: blake_rep_fields(6) [OF assms])
    then have "\<not> (drop_bit 3 (bl_buflen S) \<noteq> 0 \<and> 64 - drop_bit 3 (bl_buflen S) \<le> drop_bit 3 (0 :: nat))"
      by (simp add: drop_bit_eq_div)
    then show ?thesis
      by (simp only: blake256_update_def Let_def if_False) (simp add: blake_blocks.simps [of S])
  qed
  ultimately show ?thesis
    using assms length_tail [of 64 ?d] by (simp add: blake_rep_def blake_at_def)
qed

section \<open>HMAC\<close>

definition spec_hmac_pad :: "byte \<Rightarrow> byte list \<Rightarrow> byte list" where
  "spec_hmac_pad v key = map (\<lambda>b. v XOR b) (key @ replicate (64 - length key) 0)"

definition spec_hmac :: "(byte list \<Rightarrow> byte list) \<Rightarrow> byte list \<Rightarrow> byte list \<Rightarrow> byte list" where
  "spec_hmac H key m = H (spec_hmac_pad 0x5c key @ H (spec_hmac_pad 0x36 key @ m))"

lemma hmac_pad_spec:
  assumes "length key \<le> 64"
  shows "hmac_pad v key = spec_hmac_pad v key"
proof -
  have "n \<le> length key \<Longrightarrow> foldl (\<lambda>pad i. pad[i := pad ! i XOR key ! i]) (replicate 64 v) [0..<n]
      = map (\<lambda>b. v XOR b) (take n key) @ replicate (64 - n) v" for n
  proof (induction n)
    case (Suc n)
    have "64 - n = Suc (64 - Suc n)"
      using Suc.prems assms by simp
    then show ?case
      using Suc by (simp add: list_update_append nth_append take_Suc_conv_app_nth)
  qed simp
  from this [of "length key"] show ?thesis
    by (simp add: hmac_pad_def spec_hmac_pad_def)
qed

lemma length_hmac_pad [simp]: "length key \<le> 64 \<Longrightarrow> length (spec_hmac_pad v key) = 64"
  by (simp add: spec_hmac_pad_def)

text \<open>A context that was fed a pad of 64 bytes, and the outer context after the digest of the inner one.\<close>

lemma hmac_start:
  assumes "blake_rep iv S []" "length key \<le> 64"
  shows "blake_rep iv (blake256_update S (hmac_pad v key) 512) (spec_hmac_pad v key)"
  using blake_update_rep [OF assms(1), of "spec_hmac_pad v key"] assms(2) by (simp add: hmac_pad_spec)

lemma hmac_inner:
  assumes "blake_rep iv S (spec_hmac_pad v key)" "length key \<le> 64"
  shows "blake_rep iv (blake256_update S m (8 * length m)) (spec_hmac_pad v key @ m)"
  using blake_update_rep [OF assms(1), of m] assms(2) by simp

lemma hmac_outer:
  assumes "blake_rep iv S (spec_hmac_pad v key)" "length key \<le> 64" "0 < k" "k \<le> length y" "k < 64"
  shows "blake_rep iv (blake256_update S y (8 * k)) (spec_hmac_pad v key @ take k y)"
proof -
  have "bl_buflen S = 8 * 0"
    using blake_rep_fields(6) [OF assms(1)] assms(2) by simp
  then have "blake256_update S y (8 * k) = blake256_update S (take k y) (8 * k)"
    using update_short_eq [of S 0 k y] update_short_eq [of S 0 k "take k y"] assms(3-5) by simp
  then show ?thesis
    using blake_update_rep [OF assms(1), of "take k y"] assms(2-5) by simp
qed

lemma hmac_spec_256:
  assumes "length (bl_buf S0) = 64" "length (bl_buf (hm_inner S)) = 64" "length (bl_buf (hm_outer S)) = 64"
    and "length key < 2 ^ 61" "length m < 2 ^ 61"
  shows "hmac_blake256_hash S0 S key m
    = spec_hmac (spec_blake iv256 1) (if 64 < length key then spec_blake iv256 1 key else key) m"
proof -
  define k where "k = (if 64 < length key then spec_blake iv256 1 key else key)"
  have k: "length k \<le> 64" "(if 64 < length key then blake256_hash S0 key else key) = k"
    using length_spec_blake [of iv256] blake_hash_spec(1) [OF assms(1,4)] by (simp_all add: k_def)
  let ?i = "blake256_update (blake256_update (blake256_init (hm_inner S)) (hmac_pad 0x36 k) 512) m (8 * length m)"
  let ?h = "spec_blake iv256 1 (spec_hmac_pad 0x36 k @ m)"
  have i: "snd (blake256_final ?i) = ?h"
    by (intro blake_final(1) hmac_inner hmac_start blake_init_rep) (simp_all add: assms k)
  have h: "length ?h = 32"
    using length_spec_blake [of iv256] by simp
  have "snd (blake256_final (blake256_update (blake256_update (blake256_init (hm_outer S)) (hmac_pad 0x5c k) 512) ?h (8 * 32)))
      = spec_blake iv256 1 (spec_hmac_pad 0x5c k @ take 32 ?h)"
    by (intro blake_final(1) hmac_outer hmac_start blake_init_rep) (simp_all add: assms k h)
  then show ?thesis
    using i h assms(5) unfolding k_def [symmetric]
    by (simp add: hmac_blake256_hash_def hmac_blake256_final_def hmac_blake256_update_def hmac_blake256_init_def k Let_def
        spec_hmac_def mult.commute case_prod_unfold)
qed

lemma hmac_spec_224:
  assumes "length (bl_buf S0) = 64" "length (bl_buf (hm_inner S)) = 64" "length (bl_buf (hm_outer S)) = 64"
    and "length key < 2 ^ 61" "length m < 2 ^ 61"
  shows "take 28 (hmac_blake224_hash S0 S key m)
    = spec_hmac (\<lambda>x. take 28 (spec_blake iv224 0 x)) (if 64 < length key then take 28 (spec_blake iv256 1 key) else key) m"
proof -
  define k where "k = (if 64 < length key then take 28 (spec_blake iv256 1 key) else key)"
  have k: "length k \<le> 64" "(if 64 < length key then take 28 (blake256_hash S0 key) else key) = k"
    using length_spec_blake [of iv256] blake_hash_spec(1) [OF assms(1,4)] by (simp_all add: k_def)
  let ?i = "blake256_update (blake256_update (blake224_init (hm_inner S)) (hmac_pad 0x36 k) 512) m (8 * length m)"
  let ?h = "spec_blake iv224 0 (spec_hmac_pad 0x36 k @ m)"
  have i: "snd (blake224_final ?i) = ?h"
    by (intro blake_final(2) hmac_inner hmac_start blake_init_rep) (simp_all add: assms k)
  have h: "length ?h = 32"
    using length_spec_blake [of iv224] by simp
  have "snd (blake224_final (blake256_update (blake256_update (blake224_init (hm_outer S)) (hmac_pad 0x5c k) 512) ?h (8 * 28)))
      = spec_blake iv224 0 (spec_hmac_pad 0x5c k @ take 28 ?h)"
    by (intro blake_final(2) hmac_outer hmac_start blake_init_rep) (simp_all add: assms k h)
  then show ?thesis
    using i h assms(5) unfolding k_def [symmetric]
    by (simp add: hmac_blake224_hash_def hmac_blake224_final_def hmac_blake224_update_def hmac_blake224_init_def k Let_def
        blake224_update_def spec_hmac_def mult.commute case_prod_unfold)
qed

section \<open>Correctness of BLAKE\<close>

text \<open>
  C8. For messages of less than \<open>2 ^ 64\<close> bits, \<^verbatim>\<open>blake256_hash\<close> computes BLAKE-256 of the message, and the first 28 of the 32 bytes
  that \<^verbatim>\<open>blake224_hash\<close> writes are BLAKE-224 of it: the tables, the rounds, the counter tricks before the last blocks, the two
  padding cases and the carry between the counter words are right, and nothing depends on the uninitialised context.
\<close>

theorem blake_hash_correct:
  assumes "length (bl_buf S) = 64" "length m < 2 ^ 61"
  shows "blake256_hash S m = spec_blake256 m \<and> take 28 (blake224_hash S m) = spec_blake224 m
    \<and> length (blake256_hash S m) = 32 \<and> length (blake224_hash S m) = 32 \<and> length (spec_blake224 m) = 28"
  using blake_hash_spec [OF assms] length_spec_blake [of iv256] length_spec_blake [of iv224]
  by (simp add: spec_blake256_def spec_blake224_def)

theorem blake_hash_witness:
  "blake256_hash \<lparr>bl_h = [], bl_s = [], bl_t = [], bl_buflen = 9, bl_nullt = 7, bl_buf = replicate 64 3\<rparr> (replicate 60 5)
    = spec_blake256 (replicate 60 5)"
  using blake_hash_correct [of "\<lparr>bl_h = [], bl_s = [], bl_t = [], bl_buflen = 9, bl_nullt = 7, bl_buf = replicate 64 3\<rparr>"
      "replicate 60 5"] by simp

text \<open>
  C19. However a message is cut into nonempty pieces, updating with one piece after the other and finishing gives the hash
  of the whole message.
\<close>

theorem blake_incremental:
  assumes "length (bl_buf S) = 64" "[] \<notin> snd ` set ps" "length (pieces ps) < 2 ^ 61"
  shows "\<exists>c. feed (\<lambda>_ S x. Inr (blake256_update S x (8 * length x))) (blake256_init S) ps = Inr c
    \<and> snd (blake256_final c) = blake256_hash S (pieces ps)"
proof -
  have "accepts \<noteq> []" if "accepts \<in> snd ` set ps" for accepts
    using that assms(2) by metis
  then show ?thesis
    using blake.feed_from [OF blake_init_rep(1) [OF assms(1)], of ps] blake_final(1) blake_hash_spec(1) [OF assms(1,3)] assms(3)
    by fastforce
qed

theorem blake_incremental_witness:
  "\<exists>c. feed (\<lambda>_ S x. Inr (blake256_update S x (8 * length x)))
      (blake256_init \<lparr>bl_h = [], bl_s = [], bl_t = [], bl_buflen = 0, bl_nullt = 0, bl_buf = replicate 64 3\<rparr>)
      [((), replicate 70 1), ((), [2, 3])] = (Inr c :: unit + blake_state)
    \<and> snd (blake256_final c) = blake256_hash \<lparr>bl_h = [], bl_s = [], bl_t = [], bl_buflen = 0, bl_nullt = 0,
        bl_buf = replicate 64 3\<rparr> (replicate 70 1 @ [2, 3])"
  using blake_incremental [of "\<lparr>bl_h = [], bl_s = [], bl_t = [], bl_buflen = 0, bl_nullt = 0, bl_buf = replicate 64 3\<rparr>"
      "[((), replicate 70 1), ((), [2, 3])]"] by simp

text \<open>
  C32. An update with an empty piece drops the bytes in the buffer: the hash that follows is that of the message without its last,
  incomplete block.
\<close>

theorem blake_empty_update:
  assumes "length (bl_buf S) = 64" "length m < 2 ^ 61"
  shows "snd (blake256_final (blake256_update (blake256_update (blake256_init S) m (8 * length m)) [] 0))
    = blake256_hash S (take (64 * (length m div 64)) m)"
proof -
  let ?S = "blake256_update (blake256_init S) m (8 * length m)" and ?d = "take (64 * (length m div 64)) m"
  have "blake_rep iv256 ?S m"
    using blake_update_rep [OF blake_init_rep(1) [OF assms(1)], of m] by simp
  then have "blake_rep iv256 (blake256_update ?S [] 0) ?d"
    by (rule empty_update_rep)
  then show ?thesis
    using blake_final(1) blake_hash_spec(1) [OF assms(1), of ?d] assms(2) by simp
qed

theorem blake_empty_update_witness:
  "snd (blake256_final (blake256_update (blake256_update (blake256_init
      \<lparr>bl_h = [], bl_s = [], bl_t = [], bl_buflen = 0, bl_nullt = 0, bl_buf = replicate 64 3\<rparr>) [1, 2, 3] 24) [] 0))
    = blake256_hash \<lparr>bl_h = [], bl_s = [], bl_t = [], bl_buflen = 0, bl_nullt = 0, bl_buf = replicate 64 3\<rparr> []"
  using blake_empty_update [of "\<lparr>bl_h = [], bl_s = [], bl_t = [], bl_buflen = 0, bl_nullt = 0, bl_buf = replicate 64 3\<rparr>"
      "[1, 2, 3]"] by simp

text \<open>
  C20. \<^verbatim>\<open>hmac_blake256_hash\<close> is HMAC of RFC 2104 with BLAKE-256 for keys of every length.  \<^verbatim>\<open>hmac_blake224_hash\<close> is HMAC
  with BLAKE-224 for keys of up to 64 bytes; a longer key is replaced by the first 28 bytes of its BLAKE-256 hash and not by
  its BLAKE-224 hash.
\<close>

theorem hmac_blake_correct:
  assumes "length (bl_buf S0) = 64" "length (bl_buf (hm_inner S)) = 64" "length (bl_buf (hm_outer S)) = 64"
    and "length key < 2 ^ 61" "length m < 2 ^ 61"
  shows "hmac_blake256_hash S0 S key m
      = spec_hmac spec_blake256 (if 64 < length key then spec_blake256 key else key) m
    \<and> take 28 (hmac_blake224_hash S0 S key m)
      = spec_hmac spec_blake224 (if 64 < length key then take 28 (spec_blake256 key) else key) m"
  using hmac_spec_256 [OF assms] hmac_spec_224 [OF assms] by (simp add: spec_hmac_def spec_blake256_def spec_blake224_def)

theorem hmac_blake_witness:
  "let S = \<lparr>bl_h = [], bl_s = [], bl_t = [], bl_buflen = 0, bl_nullt = 0, bl_buf = replicate 64 3\<rparr>
   in hmac_blake256_hash S \<lparr>hm_inner = S, hm_outer = S\<rparr> (replicate 20 11) (replicate 70 5)
     = spec_hmac spec_blake256 (replicate 20 11) (replicate 70 5)"
  using hmac_blake_correct [of "\<lparr>bl_h = [], bl_s = [], bl_t = [], bl_buflen = 0, bl_nullt = 0, bl_buf = replicate 64 3\<rparr>"
      "\<lparr>hm_inner = \<lparr>bl_h = [], bl_s = [], bl_t = [], bl_buflen = 0, bl_nullt = 0, bl_buf = replicate 64 3\<rparr>,
        hm_outer = \<lparr>bl_h = [], bl_s = [], bl_t = [], bl_buflen = 0, bl_nullt = 0, bl_buf = replicate 64 3\<rparr>\<rparr>"
      "replicate 20 11" "replicate 70 5"] by (simp add: Let_def)

end
