(* ===== verification/Aes.thy ===== *)
theory Aes
  imports ByteWords
begin

text \<open>
  The AES rounds of \<^verbatim>\<open>aesb.c\<close>, which look up four tables of words per column, against the byte-wise definition of the
  round: \<open>SubBytes\<close>, \<open>ShiftRows\<close>, \<open>MixColumns\<close> and \<open>AddRoundKey\<close>.
\<close>

section \<open>The program\<close>

definition sb_data :: "u32 list" where
  "sb_data =
     [0x63, 0x7c, 0x77, 0x7b, 0xf2, 0x6b, 0x6f, 0xc5,
      0x30, 0x01, 0x67, 0x2b, 0xfe, 0xd7, 0xab, 0x76,
      0xca, 0x82, 0xc9, 0x7d, 0xfa, 0x59, 0x47, 0xf0,
      0xad, 0xd4, 0xa2, 0xaf, 0x9c, 0xa4, 0x72, 0xc0,
      0xb7, 0xfd, 0x93, 0x26, 0x36, 0x3f, 0xf7, 0xcc,
      0x34, 0xa5, 0xe5, 0xf1, 0x71, 0xd8, 0x31, 0x15,
      0x04, 0xc7, 0x23, 0xc3, 0x18, 0x96, 0x05, 0x9a,
      0x07, 0x12, 0x80, 0xe2, 0xeb, 0x27, 0xb2, 0x75,
      0x09, 0x83, 0x2c, 0x1a, 0x1b, 0x6e, 0x5a, 0xa0,
      0x52, 0x3b, 0xd6, 0xb3, 0x29, 0xe3, 0x2f, 0x84,
      0x53, 0xd1, 0x00, 0xed, 0x20, 0xfc, 0xb1, 0x5b,
      0x6a, 0xcb, 0xbe, 0x39, 0x4a, 0x4c, 0x58, 0xcf,
      0xd0, 0xef, 0xaa, 0xfb, 0x43, 0x4d, 0x33, 0x85,
      0x45, 0xf9, 0x02, 0x7f, 0x50, 0x3c, 0x9f, 0xa8,
      0x51, 0xa3, 0x40, 0x8f, 0x92, 0x9d, 0x38, 0xf5,
      0xbc, 0xb6, 0xda, 0x21, 0x10, 0xff, 0xf3, 0xd2,
      0xcd, 0x0c, 0x13, 0xec, 0x5f, 0x97, 0x44, 0x17,
      0xc4, 0xa7, 0x7e, 0x3d, 0x64, 0x5d, 0x19, 0x73,
      0x60, 0x81, 0x4f, 0xdc, 0x22, 0x2a, 0x90, 0x88,
      0x46, 0xee, 0xb8, 0x14, 0xde, 0x5e, 0x0b, 0xdb,
      0xe0, 0x32, 0x3a, 0x0a, 0x49, 0x06, 0x24, 0x5c,
      0xc2, 0xd3, 0xac, 0x62, 0x91, 0x95, 0xe4, 0x79,
      0xe7, 0xc8, 0x37, 0x6d, 0x8d, 0xd5, 0x4e, 0xa9,
      0x6c, 0x56, 0xf4, 0xea, 0x65, 0x7a, 0xae, 0x08,
      0xba, 0x78, 0x25, 0x2e, 0x1c, 0xa6, 0xb4, 0xc6,
      0xe8, 0xdd, 0x74, 0x1f, 0x4b, 0xbd, 0x8b, 0x8a,
      0x70, 0x3e, 0xb5, 0x66, 0x48, 0x03, 0xf6, 0x0e,
      0x61, 0x35, 0x57, 0xb9, 0x86, 0xc1, 0x1d, 0x9e,
      0xe1, 0xf8, 0x98, 0x11, 0x69, 0xd9, 0x8e, 0x94,
      0x9b, 0x1e, 0x87, 0xe9, 0xce, 0x55, 0x28, 0xdf,
      0x8c, 0xa1, 0x89, 0x0d, 0xbf, 0xe6, 0x42, 0x68,
      0x41, 0x99, 0x2d, 0x0f, 0xb0, 0x54, 0xbb, 0x16]"

text \<open>The macros on bytes; their arguments are the constants of the table, of type \<^verbatim>\<open>int\<close>.\<close>

definition f2 :: "u32 \<Rightarrow> u32" where
  "f2 x = push_bit 1 x XOR (drop_bit 7 x AND 1) * 0x011b"

definition f3 :: "u32 \<Rightarrow> u32" where
  "f3 x = f2 x XOR x"

definition bytes2word :: "u32 \<Rightarrow> u32 \<Rightarrow> u32 \<Rightarrow> u32 \<Rightarrow> u32" where
  "bytes2word b0 b1 b2 b3 = push_bit 24 b3 OR push_bit 16 b2 OR push_bit 8 b1 OR b0"

definition u0 :: "u32 \<Rightarrow> u32" where
  "u0 p = bytes2word (f2 p) p p (f3 p)"

definition u1 :: "u32 \<Rightarrow> u32" where
  "u1 p = bytes2word (f3 p) (f2 p) p p"

definition u2 :: "u32 \<Rightarrow> u32" where
  "u2 p = bytes2word p (f3 p) (f2 p) p"

definition u3 :: "u32 \<Rightarrow> u32" where
  "u3 p = bytes2word p p (f3 p) (f2 p)"

definition t_fn :: "u32 list list" where
  "t_fn = [map u0 sb_data, map u1 sb_data, map u2 sb_data, map u3 sb_data]"

definition bval :: "u32 \<Rightarrow> nat \<Rightarrow> nat" where
  "bval x n = unat (drop_bit (8 * n) x AND 0xff)"

definition fwd_var :: "u32 list \<Rightarrow> nat \<Rightarrow> nat \<Rightarrow> u32" where
  "fwd_var x r c =
     (if r = 0 then if c = 0 then x ! 0 else if c = 1 then x ! 1 else if c = 2 then x ! 2 else x ! 3
      else if r = 1 then if c = 0 then x ! 1 else if c = 1 then x ! 2 else if c = 2 then x ! 3 else x ! 0
      else if r = 2 then if c = 0 then x ! 2 else if c = 1 then x ! 3 else if c = 2 then x ! 0 else x ! 1
      else if c = 0 then x ! 3 else if c = 1 then x ! 0 else if c = 2 then x ! 1 else x ! 2)"

definition four_tables :: "u32 list \<Rightarrow> nat \<Rightarrow> u32" where
  "four_tables x c =
     t_fn ! 0 ! bval (fwd_var x 0 c) 0 XOR t_fn ! 1 ! bval (fwd_var x 1 c) 1
     XOR t_fn ! 2 ! bval (fwd_var x 2 c) 2 XOR t_fn ! 3 ! bval (fwd_var x 3 c) 3"

definition fwd_rnd :: "u32 list \<Rightarrow> u32 list \<Rightarrow> nat \<Rightarrow> u32" where
  "fwd_rnd x k c = k ! c XOR four_tables x c"

definition aes_round :: "u32 list \<Rightarrow> u32 list \<Rightarrow> u32 list" where
  "aes_round x k = [fwd_rnd x k 0, fwd_rnd x k 1, fwd_rnd x k 2, fwd_rnd x k 3]"

definition state_in :: "byte list \<Rightarrow> u32 list" where
  "state_in x = [load32_le x 0, load32_le x 4, load32_le x 8, load32_le x 12]"

definition state_out :: "u32 list \<Rightarrow> byte list" where
  "state_out x = store32_le (x ! 0) @ store32_le (x ! 1) @ store32_le (x ! 2) @ store32_le (x ! 3)"

text \<open>The four words of the expanded key from word \<open>4 i\<close> on.\<close>

definition key_words :: "byte list \<Rightarrow> nat \<Rightarrow> u32 list" where
  "key_words expandedKey i = state_in (drop (16 * i) expandedKey)"

definition aesb_single_round :: "byte list \<Rightarrow> byte list \<Rightarrow> byte list" where
  "aesb_single_round inp expandedKey = state_out (aes_round (state_in inp) (key_words expandedKey 0))"

definition aesb_pseudo_round :: "byte list \<Rightarrow> byte list \<Rightarrow> byte list" where
  "aesb_pseudo_round inp expandedKey =
     (let b0 = state_in inp;
          b1 = aes_round b0 (key_words expandedKey 0);
          b0 = aes_round b1 (key_words expandedKey 1);
          b1 = aes_round b0 (key_words expandedKey 2);
          b0 = aes_round b1 (key_words expandedKey 3);
          b1 = aes_round b0 (key_words expandedKey 4);
          b0 = aes_round b1 (key_words expandedKey 5);
          b1 = aes_round b0 (key_words expandedKey 6);
          b0 = aes_round b1 (key_words expandedKey 7);
          b1 = aes_round b0 (key_words expandedKey 8);
          b0 = aes_round b1 (key_words expandedKey 9)
      in state_out b0)"

section \<open>The specification\<close>

text \<open>Multiplication in the field of 256 elements with the polynomial \<open>x ^ 8 + x ^ 4 + x ^ 3 + x + 1\<close>.\<close>

definition xtime :: "byte \<Rightarrow> byte" where
  "xtime a = push_bit 1 a XOR (if bit a 7 then 0x1b else 0)"

primrec gf_mul_bits :: "nat \<Rightarrow> byte \<Rightarrow> byte \<Rightarrow> byte" where
  "gf_mul_bits 0 a b = 0"
| "gf_mul_bits (Suc n) a b = (if bit b 0 then a else 0) XOR gf_mul_bits n (xtime a) (drop_bit 1 b)"

definition gf_mul :: "byte \<Rightarrow> byte \<Rightarrow> byte" where
  "gf_mul a b = gf_mul_bits 8 a b"

definition rotl8 :: "nat \<Rightarrow> byte \<Rightarrow> byte" where
  "rotl8 k b = push_bit k b OR drop_bit (8 - k) b"

definition aes_affine :: "byte \<Rightarrow> byte" where
  "aes_affine b = b XOR rotl8 1 b XOR rotl8 2 b XOR rotl8 3 b XOR rotl8 4 b XOR 0x63"

text \<open>The substitution: the affine map after the inverse in the field, with 0 for the inverse of 0.\<close>

definition aes_sbox :: "(byte \<Rightarrow> byte) \<Rightarrow> bool" where
  "aes_sbox S \<longleftrightarrow> (\<exists>inv. inv 0 = 0 \<and> (\<forall>x. x \<noteq> 0 \<longrightarrow> gf_mul x (inv x) = 1) \<and> (\<forall>x. S x = aes_affine (inv x)))"

text \<open>A round on a state of 16 bytes, byte \<open>r + 4 c\<close> in row \<open>r\<close> and column \<open>c\<close>.\<close>

definition sub_shift :: "(byte \<Rightarrow> byte) \<Rightarrow> byte list \<Rightarrow> nat \<Rightarrow> nat \<Rightarrow> byte" where
  "sub_shift S s r c = S (s ! (r + 4 * ((c + r) mod 4)))"

definition mix_column :: "(nat \<Rightarrow> byte) \<Rightarrow> nat \<Rightarrow> byte" where
  "mix_column a r = gf_mul (a r) 2 XOR gf_mul (a ((r + 1) mod 4)) 3 XOR a ((r + 2) mod 4) XOR a ((r + 3) mod 4)"

definition spec_aes_round :: "(byte \<Rightarrow> byte) \<Rightarrow> byte list \<Rightarrow> byte list \<Rightarrow> byte list" where
  "spec_aes_round S s k =
     map (\<lambda>i. mix_column (\<lambda>r. sub_shift S s r (i div 4)) (i mod 4) XOR k ! i) [0..<16]"

text \<open>The substitution that the tables contain.\<close>

definition sbox :: "byte \<Rightarrow> byte" where
  "sbox b = ucast (sb_data ! unat b)"

section \<open>The substitution\<close>

lemma length_sb_data: "length sb_data = 256"
  by (simp add: sb_data_def)

text \<open>The inverse of the affine map.\<close>

definition inv_affine :: "byte \<Rightarrow> byte" where
  "inv_affine b = rotl8 1 b XOR rotl8 3 b XOR rotl8 6 b XOR 5"

definition sbox_entry :: "byte \<Rightarrow> u32 \<Rightarrow> bool" where
  "sbox_entry x s \<longleftrightarrow>
     (let i = inv_affine (ucast s) in s = ucast (aes_affine i) \<and> (if x = 0 then i = 0 else gf_mul x i = 1))"

primrec sbox_entries :: "byte \<Rightarrow> u32 list \<Rightarrow> bool" where
  "sbox_entries x [] = True"
| "sbox_entries x (s # ss) = (sbox_entry x s \<and> sbox_entries (x + 1) ss)"

lemma sbox_entries_append:
  "sbox_entries x (ss @ ts) \<longleftrightarrow> sbox_entries x ss \<and> sbox_entries (x + word_of_nat (length ss)) ts"
  by (induction ss arbitrary: x) (simp_all add: ac_simps)

text \<open>The table is checked in eight parts.\<close>

lemma sbox_part_0: "sbox_entries 0 (take 32 (drop 0 sb_data))"
  by code_simp

lemma sbox_part_1: "sbox_entries 32 (take 32 (drop 32 sb_data))"
  by code_simp

lemma sbox_part_2: "sbox_entries 64 (take 32 (drop 64 sb_data))"
  by code_simp

lemma sbox_part_3: "sbox_entries 96 (take 32 (drop 96 sb_data))"
  by code_simp

lemma sbox_part_4: "sbox_entries 128 (take 32 (drop 128 sb_data))"
  by code_simp

lemma sbox_part_5: "sbox_entries 160 (take 32 (drop 160 sb_data))"
  by code_simp

lemma sbox_part_6: "sbox_entries 192 (take 32 (drop 192 sb_data))"
  by code_simp

lemma sbox_part_7: "sbox_entries 224 (take 32 (drop 224 sb_data))"
  by code_simp

lemma sbox_table: "sbox_entries 0 sb_data"
proof -
  have split: "sbox_entries x ss \<longleftrightarrow> sbox_entries x (take 32 ss) \<and> sbox_entries (x + 32) (drop 32 ss)" if "32 \<le> length ss" for x ss
    using sbox_entries_append [of x "take 32 ss" "drop 32 ss"] that by simp
  show ?thesis
    using sbox_part_0 sbox_part_1 sbox_part_2 sbox_part_3 sbox_part_4 sbox_part_5 sbox_part_6 sbox_part_7
      split [of sb_data 0] split [of "drop 32 sb_data" 32] split [of "drop 64 sb_data" 64] split [of "drop 96 sb_data" 96]
      split [of "drop 128 sb_data" 128] split [of "drop 160 sb_data" 160] split [of "drop 192 sb_data" 192]
    by (simp add: length_sb_data)
qed

lemma sbox_entries_nth:
  "sbox_entries x ss \<Longrightarrow> k < length ss \<Longrightarrow> sbox_entry (x + word_of_nat k) (ss ! k)"
proof (induction ss arbitrary: x k)
  case (Cons s ss)
  show ?case
  proof (cases k)
    case (Suc j)
    then show ?thesis
      using Cons.IH [of "x + 1" j] Cons.prems by (simp add: ac_simps)
  qed (use Cons.prems in simp)
qed simp

lemma sbox_entry: "sbox_entry b (sb_data ! unat b)"
  using sbox_entries_nth [OF sbox_table, of "unat b"] length_sb_data unsigned_less [of b] by simp

lemma ucast_byte [simp]: "(ucast (ucast (b :: byte) :: u32) :: byte) = b"
  by (rule bit_word_eqI) (simp add: bit_simps)

lemma sbox_affine: "sb_data ! unat b = ucast (sbox b)" "sbox b = aes_affine (inv_affine (sbox b))"
  "if b = 0 then inv_affine (sbox b) = 0 else gf_mul b (inv_affine (sbox b)) = 1"
proof -
  have *: "sb_data ! unat b = ucast (aes_affine (inv_affine (sbox b)))"
    using sbox_entry [of b] by (simp add: sbox_entry_def sbox_def Let_def)
  then have "sbox b = ucast (ucast (aes_affine (inv_affine (sbox b))) :: u32)"
    unfolding sbox_def by simp
  then show "sbox b = aes_affine (inv_affine (sbox b))"
    by simp
  with * show "sb_data ! unat b = ucast (sbox b)"
    by simp
  show "if b = 0 then inv_affine (sbox b) = 0 else gf_mul b (inv_affine (sbox b)) = 1"
    using sbox_entry [of b] unfolding sbox_entry_def sbox_def Let_def by blast
qed

lemma aes_sbox_sbox: "aes_sbox sbox"
  unfolding aes_sbox_def using sbox_affine(2,3) by (intro exI [of _ "\<lambda>x. inv_affine (sbox x)"]) metis

section \<open>Bytes of words\<close>

definition byte_of :: "u32 \<Rightarrow> nat \<Rightarrow> byte" where
  "byte_of w r = ucast (drop_bit (8 * r) w)"

lemma byte_of_xor: "byte_of (v XOR w) r = byte_of v r XOR byte_of w r"
  by (rule bit_word_eqI) (simp add: byte_of_def bit_simps)

lemma store32_le_byte_of: "store32_le w = [byte_of w 0, byte_of w 1, byte_of w 2, byte_of w 3]"
  by (simp add: store32_le_def byte_of_def)

lemma byte_of_load:
  assumes "k + 4 \<le> length s" "r < 4"
  shows "byte_of (load32_le s k) r = s ! (k + r)"
proof (rule bit_word_eqI)
  fix n
  assume n: "n < LENGTH(8)"
  then have "(8 * r + n) div 8 = r" "(8 * r + n) mod 8 = n" "8 * r + n < 32"
    using assms(2) by simp_all
  then show "bit (byte_of (load32_le s k) r) n = bit (s ! (k + r)) n"
    using bit_load32_le [OF assms(1), of "8 * r + n"] n by (simp add: byte_of_def bit_simps)
qed

lemma bval_byte_of: "n < 4 \<Longrightarrow> bval w n = unat (byte_of w n)"
proof -
  assume "n < 4"
  have "drop_bit (8 * n) w AND 0xff = ucast (byte_of w n)"
    using bit_mask_iff [where 'a = "32 word", of 8]
    by (intro bit_word_eqI) (auto simp: byte_of_def bit_simps mask_eq_exp_minus_1)
  moreover have "unat (byte_of w n) < 2 ^ LENGTH(8)"
    by (rule unsigned_less)
  ultimately show ?thesis
    by (simp add: bval_def unsigned_ucast_eq take_bit_nat_eq_self_iff)
qed

lemma byte_of_bytes2word:
  fixes b0 b1 b2 b3 :: byte
  defines "w \<equiv> bytes2word (ucast b0) (ucast b1) (ucast b2) (ucast b3)"
  shows "byte_of w 0 = b0" "byte_of w 1 = b1" "byte_of w 2 = b2" "byte_of w 3 = b3"
  unfolding w_def by (rule bit_word_eqI; auto simp: byte_of_def bytes2word_def bit_simps dest: bit_imp_le_length)+

lemma f2_xtime: "f2 (ucast p) = ucast (xtime p)"
proof -
  have b: "drop_bit 7 (ucast p :: u32) AND 1 = (if bit p 7 then 1 else 0)"
    by (rule bit_word_eqI) (auto simp: bit_simps intro: gr0I dest: bit_imp_le_length)
  have p: "push_bit 1 (ucast p :: u32) = (if bit p 7 then push_bit 8 1 else 0) XOR ucast (push_bit 1 p)"
  proof (rule bit_word_eqI)
    fix n
    assume n: "n < LENGTH(32)"
    have "bit p (n - 1) = (n < 9 \<and> bit p (n - 1))"
      using bit_imp_le_length [of p "n - 1"] by auto
    moreover have "n < 9 \<Longrightarrow> n < 8 \<or> n = 8"
      by linarith
    ultimately show "bit (push_bit 1 (ucast p :: u32)) n
        = bit ((if bit p 7 then push_bit 8 1 else 0) XOR ucast (push_bit 1 p) :: u32) n"
      using n by (auto simp only: bit_push_bit_iff bit_xor_iff bit_ucast_iff bit_1_iff possible_bit_word split: if_splits)
        (auto simp: bit_push_bit_iff bit_1_iff)
  qed
  have "((256 :: u32) XOR a) XOR 283 = a XOR (256 XOR 283)" for a
    by (simp only: ac_simps)
  then show ?thesis
    unfolding f2_def b xtime_def p by (simp add: unsigned_xor_eq)
qed

lemma gf_mul_2_3: "gf_mul p 2 = xtime p" "gf_mul p 3 = p XOR xtime p"
proof -
  have eight: "8 = Suc (Suc (Suc (Suc (Suc (Suc (Suc (Suc 0)))))))"
    by simp
  show "gf_mul p 2 = xtime p" "gf_mul p 3 = p XOR xtime p"
    unfolding gf_mul_def eight gf_mul_bits.simps by simp_all
qed

lemma table_bytes:
  fixes p :: byte
  shows "byte_of (u0 (ucast p)) 0 = gf_mul p 2" "byte_of (u0 (ucast p)) 1 = p" "byte_of (u0 (ucast p)) 2 = p" "byte_of (u0 (ucast p)) 3 = gf_mul p 3"
    "byte_of (u1 (ucast p)) 0 = gf_mul p 3" "byte_of (u1 (ucast p)) 1 = gf_mul p 2" "byte_of (u1 (ucast p)) 2 = p" "byte_of (u1 (ucast p)) 3 = p"
    "byte_of (u2 (ucast p)) 0 = p" "byte_of (u2 (ucast p)) 1 = gf_mul p 3" "byte_of (u2 (ucast p)) 2 = gf_mul p 2" "byte_of (u2 (ucast p)) 3 = p"
    "byte_of (u3 (ucast p)) 0 = p" "byte_of (u3 (ucast p)) 1 = p" "byte_of (u3 (ucast p)) 2 = gf_mul p 3" "byte_of (u3 (ucast p)) 3 = gf_mul p 2"
proof -
  have f3: "f3 (ucast p) = ucast (gf_mul p 3)" and f2: "f2 (ucast p) = ucast (gf_mul p 2)"
    by (simp_all add: f3_def f2_xtime gf_mul_2_3 unsigned_xor_eq ac_simps)
  show "byte_of (u0 (ucast p)) 0 = gf_mul p 2" "byte_of (u0 (ucast p)) 1 = p" "byte_of (u0 (ucast p)) 2 = p" "byte_of (u0 (ucast p)) 3 = gf_mul p 3"
    "byte_of (u1 (ucast p)) 0 = gf_mul p 3" "byte_of (u1 (ucast p)) 1 = gf_mul p 2" "byte_of (u1 (ucast p)) 2 = p" "byte_of (u1 (ucast p)) 3 = p"
    "byte_of (u2 (ucast p)) 0 = p" "byte_of (u2 (ucast p)) 1 = gf_mul p 3" "byte_of (u2 (ucast p)) 2 = gf_mul p 2" "byte_of (u2 (ucast p)) 3 = p"
    "byte_of (u3 (ucast p)) 0 = p" "byte_of (u3 (ucast p)) 1 = p" "byte_of (u3 (ucast p)) 2 = gf_mul p 3" "byte_of (u3 (ucast p)) 3 = gf_mul p 2"
    unfolding u0_def u1_def u2_def u3_def f2 f3 by (rule byte_of_bytes2word)+
qed

lemma t_fn_nth:
  "t_fn ! 0 ! unat b = u0 (ucast (sbox b))" "t_fn ! 1 ! unat b = u1 (ucast (sbox b))"
  "t_fn ! 2 ! unat b = u2 (ucast (sbox b))" "t_fn ! 3 ! unat b = u3 (ucast (sbox b))"
proof -
  have "unat b < 2 ^ LENGTH(8)"
    by (rule unsigned_less)
  then have "unat b < length sb_data"
    by (simp add: length_sb_data)
  then show "t_fn ! 0 ! unat b = u0 (ucast (sbox b))" "t_fn ! 1 ! unat b = u1 (ucast (sbox b))"
    "t_fn ! 2 ! unat b = u2 (ucast (sbox b))" "t_fn ! 3 ! unat b = u3 (ucast (sbox b))"
    by (simp_all add: t_fn_def sbox_affine(1))
qed

section \<open>The rounds\<close>

lemma aes_round_spec:
  assumes "length s = 16" "16 \<le> length k"
  shows "state_out (aes_round (state_in s) (state_in k)) = spec_aes_round sbox s k"
proof -
  have s: "byte_of (load32_le s 0) r = s ! r" "byte_of (load32_le s 4) r = s ! (4 + r)"
    "byte_of (load32_le s 8) r = s ! (8 + r)" "byte_of (load32_le s 12) r = s ! (12 + r)"
    "byte_of (load32_le k 0) r = k ! r" "byte_of (load32_le k 4) r = k ! (4 + r)"
    "byte_of (load32_le k 8) r = k ! (8 + r)" "byte_of (load32_le k 12) r = k ! (12 + r)" if "r < 4" for r
    using that assms by (simp_all add: byte_of_load)
  have u: "[0..<16] = [0, 1, 2, 3, 4, 5, 6, 7, 8, 9, 10, 11, 12, 13, 14, 15]"
    by (simp add: upt_rec)
  show ?thesis
    unfolding spec_aes_round_def u state_out_def aes_round_def store32_le_byte_of
    by (simp add: fwd_rnd_def four_tables_def fwd_var_def state_in_def bval_byte_of t_fn_nth [simplified] byte_of_xor table_bytes [simplified]
        s s [of "Suc 0", simplified] mix_column_def sub_shift_def ac_simps
        flip: numeral_2_eq_2 numeral_3_eq_3)
qed

lemma length_spec_aes_round [simp]: "length (spec_aes_round S s k) = 16"
  by (simp add: spec_aes_round_def)

lemma length_aes_round: "length (aes_round x k) = 4"
  by (simp add: aes_round_def)

lemma word_bytes_eqI:
  assumes "\<And>r. r < 4 \<Longrightarrow> byte_of v r = byte_of w r"
  shows "v = w"
proof (rule bit_word_eqI)
  fix n
  assume "n < LENGTH(32)"
  then have "n div 8 < 4" "8 * (n div 8) + n mod 8 = n" "n mod 8 < 8"
    by simp_all
  then show "bit v n = bit w n"
    using arg_cong [OF assms [of "n div 8"], of "\<lambda>b. bit b (n mod 8)"] by (simp add: byte_of_def bit_simps)
qed

lemma load_store: "k = length xs \<Longrightarrow> load32_le (xs @ store32_le w @ ys) k = w"
proof (rule word_bytes_eqI)
  fix r :: nat
  assume *: "k = length xs" "r < 4"
  then have "byte_of (load32_le (xs @ store32_le w @ ys) k) r = store32_le w ! r"
    by (simp add: byte_of_load nth_append)
  then show "byte_of (load32_le (xs @ store32_le w @ ys) k) r = byte_of w r"
    using * by (simp add: nth_store32_le byte_of_def)
qed

lemma state_in_out: "length x = 4 \<Longrightarrow> state_in (state_out x) = x"
proof -
  assume "length x = 4"
  then obtain a b c d where x: "x = [a, b, c, d]"
    by (auto simp: numeral_eq_Suc length_Suc_conv)
  show ?thesis
    using load_store [of 0 "[]" a] load_store [of 4 "store32_le a" b] load_store [of 8 "store32_le a @ store32_le b" c]
      load_store [of 12 "store32_le a @ store32_le b @ store32_le c" d "[]"]
    by (simp add: state_in_def state_out_def x)
qed

lemma state_out_in: "length s = 16 \<Longrightarrow> state_out (state_in s) = s"
proof -
  assume l: "length s = 16"
  then obtain a b c d e f g h i j k m n p u v where s: "s = [a, b, c, d, e, f, g, h, i, j, k, m, n, p, u, v]"
    by (rule length_16)
  have "byte_of (load32_le s 0) r = s ! r" "byte_of (load32_le s 4) r = s ! (4 + r)"
    "byte_of (load32_le s 8) r = s ! (8 + r)" "byte_of (load32_le s 12) r = s ! (12 + r)" if "r < 4" for r
    using that l by (simp_all add: byte_of_load)
  then show ?thesis
    unfolding state_out_def state_in_def store32_le_byte_of by (simp add: s)
qed

text \<open>
  C10. The substitution of the tables in \<^verbatim>\<open>aesb.c\<close> is the substitution of AES, the affine map of the inverse in the field of
  256 elements; \<^verbatim>\<open>aesb_single_round\<close> computes one round of AES, with \<open>SubBytes\<close>, \<open>ShiftRows\<close>, \<open>MixColumns\<close> and \<open>AddRoundKey\<close>; and
  \<^verbatim>\<open>aesb_pseudo_round\<close> computes ten such rounds with the ten round keys.
\<close>

theorem aes_round_correct:
  assumes "length s = 16" "160 \<le> length key"
  shows "aes_sbox sbox \<and> aesb_single_round s key = spec_aes_round sbox s key
    \<and> aesb_pseudo_round s key = fold (\<lambda>i s. spec_aes_round sbox s (drop (16 * i) key)) [0..<10] s"
proof -
  have one: "state_out (aes_round (state_in t) (key_words key i)) = spec_aes_round sbox t (drop (16 * i) key)"
    if "length t = 16" "i < 10" for t i
    using that assms(2) by (simp add: key_words_def aes_round_spec)
  then have step: "aes_round (state_in t) (key_words key i) = state_in (spec_aes_round sbox t (drop (16 * i) key))"
    if "length t = 16" "i < 10" for t i
    using state_in_out [OF length_aes_round, of "state_in t" "key_words key i"] that by metis
  have "aesb_pseudo_round s key = fold (\<lambda>i s. spec_aes_round sbox s (drop (16 * i) key)) [0..<10] s"
    using assms(1) by (simp add: aesb_pseudo_round_def Let_def step state_out_in upt_rec)
  then show ?thesis
    using aes_sbox_sbox one [OF assms(1), of 0] by (simp add: aesb_single_round_def)
qed

theorem aes_round_witness:
  "aesb_single_round (replicate 16 0) (replicate 160 1) = spec_aes_round sbox (replicate 16 0) (replicate 160 1)"
  using aes_round_correct [of "replicate 16 0" "replicate 160 1"] by simp

end
