(* ===== verification/GroestlTable.thy ===== *)
theory GroestlTable
  imports Groestl
begin

text \<open>
  The table of \<^verbatim>\<open>groestl_tables.h\<close>: the products of the substituted bytes with the constants of the matrix, checked in eight parts.
\<close>

text \<open>The products of a byte with the constants of the matrix.\<close>

definition T_words :: "u32 \<Rightarrow> u32 list" where
  "T_words s = (let s2 = f2 s; s4 = f2 s2
     in [bytes2word s2 (s4 XOR s2 XOR s) (s4 XOR s) (s2 XOR s), bytes2word (s4 XOR s) s4 (s2 XOR s) s2])"

definition T_part :: "nat \<Rightarrow> bool" where
  "T_part k \<longleftrightarrow> take 64 (drop (64 * k) groestl_T) = concat (map T_words (take 32 (drop (32 * k) sb_data)))"

lemma T_part_0: "T_part 0"
  by code_simp

lemma T_part_1: "T_part 1"
  by code_simp

lemma T_part_2: "T_part 2"
  by code_simp

lemma T_part_3: "T_part 3"
  by code_simp

lemma T_part_4: "T_part 4"
  by code_simp

lemma T_part_5: "T_part 5"
  by code_simp

lemma T_part_6: "T_part 6"
  by code_simp

lemma T_part_7: "T_part 7"
  by code_simp

lemma T_parts: "groestl_T = concat (map T_words sb_data)"
proof -
  have u: "[0..<8] = [0, 1, 2, 3, 4, 5, 6, 7]"
    by (simp add: upt_rec)
  have "length groestl_T = 64 * 8"
    by (simp add: groestl_T_def)
  then have "groestl_T = concat (map (\<lambda>k. take 64 (drop (64 * k) groestl_T)) [0..<8])"
    by (simp only: concat_blocks) simp
  also have "\<dots> = concat (map (\<lambda>k. concat (map T_words (take 32 (drop (32 * k) sb_data)))) [0..<8])"
    unfolding u using T_part_0 T_part_1 T_part_2 T_part_3 T_part_4 T_part_5 T_part_6 T_part_7 by (simp only: T_part_def list.map)
  also have "\<dots> = concat (map T_words (concat (map (\<lambda>k. take 32 (drop (32 * k) sb_data)) [0..<8])))"
    unfolding u by (simp only: list.map concat.simps map_append concat_append append_Nil2)
  also have "\<dots> = concat (map T_words sb_data)"
    unfolding concat_blocks by (simp add: length_sb_data)
  finally show ?thesis .
qed

end
