(* ===== verification/GroestlPerm.thy ===== *)
theory GroestlPerm
  imports GroestlTable
begin

text \<open>
  The table-driven rounds of \<^verbatim>\<open>groestl.c\<close> against the byte-wise definition of the permutations P and Q of Groestl-256:
  \<open>AddRoundConstant\<close>, \<open>SubBytes\<close>, \<open>ShiftBytes\<close> and \<open>MixBytes\<close> on a state of eight rows and eight columns.
\<close>

section \<open>The specification\<close>

text \<open>\<open>MixBytes\<close> multiplies every column with a circulant matrix over the field of 256 elements.\<close>

definition circ :: "byte list" where
  "circ = [2, 2, 3, 4, 5, 3, 5, 7]"

definition mix_bytes :: "(nat \<Rightarrow> byte) \<Rightarrow> nat \<Rightarrow> byte" where
  "mix_bytes a i = foldr (\<lambda>j b. gf_mul (a j) (circ ! ((j + 8 - i) mod 8)) XOR b) [0..<8] 0"

text \<open>The constants of round \<open>r\<close> at column \<open>j\<close> and row \<open>k\<close>.\<close>

definition constant_P :: "byte \<Rightarrow> nat \<Rightarrow> nat \<Rightarrow> byte" where
  "constant_P r j k = (if k = 0 then push_bit 4 (word_of_nat j) XOR r else 0)"

definition constant_Q :: "byte \<Rightarrow> nat \<Rightarrow> nat \<Rightarrow> byte" where
  "constant_Q r j k = (if k = 7 then 0xff XOR push_bit 4 (word_of_nat j) XOR r else 0xff)"

text \<open>A round: byte \<open>8 j + k\<close> of the state is in column \<open>j\<close> and row \<open>k\<close>; row \<open>k\<close> is rotated left by \<open>sh ! k\<close> columns.\<close>

definition spec_round :: "(nat \<Rightarrow> nat \<Rightarrow> byte) \<Rightarrow> nat list \<Rightarrow> byte list \<Rightarrow> byte list" where
  "spec_round const sh s =
     map (\<lambda>i. mix_bytes (\<lambda>k. let j = (i div 8 + sh ! k) mod 8 in sbox (s ! (8 * j + k) XOR const j k)) (i mod 8)) [0..<64]"

definition spec_P :: "byte list \<Rightarrow> byte list" where
  "spec_P s = fold (\<lambda>r. spec_round (constant_P (word_of_nat r)) (shift_Values ! 0)) [0..<10] s"

definition spec_Q :: "byte list \<Rightarrow> byte list" where
  "spec_Q s = fold (\<lambda>r. spec_round (constant_Q (word_of_nat r)) (shift_Values ! 1)) [0..<10] s"

section \<open>The table\<close>

lemma T_nth: "groestl_T ! (2 * unat b) = T_words (ucast (sbox b)) ! 0" "groestl_T ! (2 * unat b + 1) = T_words (ucast (sbox b)) ! 1"
proof -
  have "unat b < 2 ^ LENGTH(8)"
    by (rule unsigned_less)
  then have *: "2 * unat b < 2 * length sb_data" "2 * unat b + 1 < 2 * length sb_data"
    by (simp_all add: length_sb_data)
  have "(2 * unat b + 1) mod 2 = 1" "(2 * unat b + 1) div 2 = unat b"
    by simp_all
  with * show "groestl_T ! (2 * unat b) = T_words (ucast (sbox b)) ! 0" "groestl_T ! (2 * unat b + 1) = T_words (ucast (sbox b)) ! 1"
    unfolding T_parts using nth_concat_uniform [of T_words 2 "2 * unat b" sb_data] nth_concat_uniform [of T_words 2 "2 * unat b + 1" sb_data]
    by (simp_all add: T_words_def Let_def sbox_affine(1) del: length_sb_data)
qed

text \<open>The byte in row \<open>r\<close> of a column that is given by two words.\<close>

definition col_byte :: "u32 \<Rightarrow> u32 \<Rightarrow> nat \<Rightarrow> byte" where
  "col_byte u l r = (if r < 4 then byte_of u r else byte_of l (r - 4))"

lemma gf_mul_4_5_7: "gf_mul p 4 = xtime (xtime p)" "gf_mul p 5 = p XOR xtime (xtime p)" "gf_mul p 7 = p XOR xtime p XOR xtime (xtime p)"
proof -
  have eight: "8 = Suc (Suc (Suc (Suc (Suc (Suc (Suc (Suc 0)))))))"
    by simp
  show "gf_mul p 4 = xtime (xtime p)" "gf_mul p 5 = p XOR xtime (xtime p)" "gf_mul p 7 = p XOR xtime p XOR xtime (xtime p)"
    unfolding gf_mul_def eight gf_mul_bits.simps by simp_all
qed

lemma T_words_bytes:
  fixes p :: byte
  assumes "r < 8"
  shows "col_byte (T_words (ucast p) ! 0) (T_words (ucast p) ! 1) r = gf_mul p (circ ! ((8 - r) mod 8))"
proof -
  let ?s2 = "gf_mul p 2" and ?s4 = "gf_mul p 4"
  have m: "f2 (ucast p) = ucast ?s2" "f2 (ucast ?s2) = ucast ?s4"
    by (simp_all add: f2_xtime gf_mul_2_3 gf_mul_4_5_7)
  have "T_words (ucast p) = [bytes2word (ucast (gf_mul p 2)) (ucast (gf_mul p 7)) (ucast (gf_mul p 5)) (ucast (gf_mul p 3)),
      bytes2word (ucast (gf_mul p 5)) (ucast (gf_mul p 4)) (ucast (gf_mul p 3)) (ucast (gf_mul p 2))]"
    unfolding T_words_def m Let_def by (simp add: gf_mul_2_3 gf_mul_4_5_7 unsigned_xor_eq ac_simps)
  then have "\<forall>r < 8. col_byte (T_words (ucast p) ! 0) (T_words (ucast p) ! 1) r = gf_mul p (circ ! ((8 - r) mod 8))"
    unfolding all_less_8 by (simp add: col_byte_def circ_def byte_of_bytes2word byte_of_bytes2word [simplified])
  then show ?thesis
    using assms by blast
qed

section \<open>A column\<close>

lemma byte_of_shifted:
  assumes "r < 4" "n < 4"
  shows "byte_of (push_bit (8 * n) v OR drop_bit (8 * (4 - n)) w) r = (if n \<le> r then byte_of v (r - n) else byte_of w (4 + r - n))"
proof (rule bit_word_eqI)
  fix m
  assume m: "m < LENGTH(8)"
  show "bit (byte_of (push_bit (8 * n) v OR drop_bit (8 * (4 - n)) w) r) m
      = bit (if n \<le> r then byte_of v (r - n) else byte_of w (4 + r - n)) m"
  proof (cases "n \<le> r")
    case True
    then have "\<not> bit w (8 * (4 - n) + (8 * r + m))" "8 * r + m - 8 * n = 8 * (r - n) + m" "8 * r + m < 32" "8 * n \<le> 8 * r + m"
      using assms m bit_imp_le_length [of w "8 * (4 - n) + (8 * r + m)"] by auto
    then show ?thesis
      using True m by (simp add: byte_of_def bit_simps)
  next
    case False
    then have "8 * r + 8 * (4 - n) + m = 8 * (4 + r - n) + m" "\<not> 8 * n \<le> 8 * r + m"
      using assms m by auto
    then show ?thesis
      using False m by (simp add: byte_of_def bit_simps)
  qed
qed

text \<open>A rotation moves the bytes down, and exchanging the words moves them by four rows.\<close>

lemma col_byte_rotate:
  assumes "n < 4" "r < 8"
  shows "col_byte (fst (ROTATE_COLUMN_DOWN u l n)) (snd (ROTATE_COLUMN_DOWN u l n)) r = col_byte u l ((r + 8 - n) mod 8)"
proof -
  let ?up = "\<lambda>v w. push_bit (8 * n) v OR drop_bit (8 * (4 - n)) w"
  have b: "byte_of (?up v w) q = (if n \<le> q then byte_of v (q - n) else byte_of w (4 + q - n))" if "q < 4" for v w q
    using byte_of_shifted [OF that assms(1)] .
  have "(r + 8 - n) mod 8 = (if n \<le> r then r - n else r + 8 - n)"
    using assms mod_add_self2 [of "r - n" 8] by (cases "n \<le> r") simp_all
  moreover have "4 + (r - 4) - n = r - n" if "4 \<le> r"
    using that by simp
  moreover have "r + 8 - n - 4 = 4 + r - n"
    using assms(1) by simp
  ultimately show ?thesis
    using assms unfolding ROTATE_COLUMN_DOWN_def Let_def fst_conv snd_conv col_byte_def by (auto simp only: b split: if_splits) (auto simp: add.commute)
qed

lemma col_byte_swap: "r < 8 \<Longrightarrow> col_byte l u r = col_byte u l ((r + 8 - 4) mod 8)"
  by (auto simp: col_byte_def mod_if)

lemma col_byte_xor: "col_byte (u XOR u') (l XOR l') r = col_byte u l r XOR col_byte u' l' r"
  by (simp add: col_byte_def byte_of_xor)

abbreviation state_bytes :: "u32 list \<Rightarrow> byte list" where
  "state_bytes ws \<equiv> concat (map store32_le ws)"

lemma x8_state_bytes: "i < 4 * length x \<Longrightarrow> x8 x i = unat (state_bytes x ! i)"
  by (simp add: x8_def bval_byte_of nth_concat_store nth_store32_le byte_of_def)

lemma state_bytes_column: "r < 8 \<Longrightarrow> state_bytes [u, l] ! r = col_byte u l r"
  using nth_concat_store [of r "[u, l]"] by (auto simp: col_byte_def nth_store32_le byte_of_def div_if mod_if)

lemma mod_8_rows:
  fixes q n :: nat
  shows "q < 8 \<Longrightarrow> n < 8 \<Longrightarrow> (8 - (q + 8 - n) mod 8) mod 8 = (n + 8 - q) mod 8"
    "q < 8 \<Longrightarrow> (n + 8 - (q + 8 - 4) mod 8) mod 8 = (n + 4 + 8 - q) mod 8"
proof -
  assume q: "q < 8"
  show "(8 - (q + 8 - n) mod 8) mod 8 = (n + 8 - q) mod 8" if "n < 8"
  proof (cases "n \<le> q")
    case True
    then have "(q + 8 - n) mod 8 = q - n" "8 - (q - n) = n + 8 - q"
      using q mod_add_self2 [of "q - n" 8] by simp_all
    then show ?thesis
      by simp
  next
    case False
    then have "(n + 8 - q) mod 8 = (n - q) mod 8" "(q + 8 - n) mod 8 = q + 8 - n" "8 - (q + 8 - n) = n - q"
      using that mod_add_self2 [of "n - q" 8] by simp_all
    then show ?thesis
      by simp
  qed
  show "(n + 8 - (q + 8 - 4) mod 8) mod 8 = (n + 4 + 8 - q) mod 8"
  proof (cases "q < 4")
    case True
    then have "(q + 8 - 4) mod 8 = q + 4" "n + 8 - (q + 4) + 8 = n + 4 + 8 - q"
      by simp_all
    then show ?thesis
      using mod_add_self2 [of "n + 8 - (q + 4)" 8] by simp
  next
    case False
    then have "(q + 8 - 4) mod 8 = q - 4" "n + 8 - (q - 4) = n + 4 + 8 - q"
      using q mod_add_self2 [of "q - 4" 8] by simp_all
    then show ?thesis
      by simp
  qed
qed

text \<open>The two words that the code adds for the byte in row \<open>k\<close>.\<close>

definition T_rot :: "byte \<Rightarrow> nat \<Rightarrow> u32 \<times> u32" where
  "T_rot b k = ROTATE_COLUMN_DOWN (groestl_T ! (2 * unat b)) (groestl_T ! (2 * unat b + 1)) (k mod 4)"

lemma T_rot_col:
  assumes "r < 8"
  shows "k < 4 \<Longrightarrow> col_byte (fst (T_rot b k)) (snd (T_rot b k)) r = gf_mul (sbox b) (circ ! ((k + 8 - r) mod 8))"
    "4 \<le> k \<Longrightarrow> k < 8 \<Longrightarrow> col_byte (snd (T_rot b k)) (fst (T_rot b k)) r = gf_mul (sbox b) (circ ! ((k + 8 - r) mod 8))"
proof -
  have *: "col_byte (fst (T_rot b k)) (snd (T_rot b k)) q = gf_mul (sbox b) (circ ! ((n + 8 - q) mod 8))" if "q < 8" "n = k mod 4" for q n
  proof -
    have "n < 4"
      using that(2) by simp
    then show ?thesis
      using col_byte_rotate [of n q] T_words_bytes [of "(q + 8 - n) mod 8" "sbox b"] that
      unfolding T_rot_def that(2) [symmetric] by (simp only: T_nth mod_8_rows)
  qed
  show "k < 4 \<Longrightarrow> col_byte (fst (T_rot b k)) (snd (T_rot b k)) r = gf_mul (sbox b) (circ ! ((k + 8 - r) mod 8))"
    using * [OF assms, of k] by simp
  assume "4 \<le> k" "k < 8"
  then have k: "k mod 4 + 4 = k"
    using le_mod_geq [of 4 k] by simp
  show "col_byte (snd (T_rot b k)) (fst (T_rot b k)) r = gf_mul (sbox b) (circ ! ((k + 8 - r) mod 8))"
    using * [of "(r + 8 - 4) mod 8", OF _ refl] mod_8_rows(2) [OF assms, of "k mod 4"] unfolding k
    by (simp only: col_byte_swap [OF assms, of "snd (T_rot b k)"])
qed

lemma COLUMN_words:
  assumes "x8 x (4 * c0 + 0) = unat b0" "x8 x (4 * c1 + 1) = unat b1" "x8 x (4 * c2 + 2) = unat b2" "x8 x (4 * c3 + 3) = unat b3"
    "x8 x (4 * c4 + 0) = unat b4" "x8 x (4 * c5 + 1) = unat b5" "x8 x (4 * c6 + 2) = unat b6" "x8 x (4 * c7 + 3) = unat b7"
  shows "COLUMN x c0 c1 c2 c3 c4 c5 c6 c7 =
    [fst (T_rot b0 0) XOR fst (T_rot b1 1) XOR fst (T_rot b2 2) XOR fst (T_rot b3 3)
       XOR snd (T_rot b4 4) XOR snd (T_rot b5 5) XOR snd (T_rot b6 6) XOR snd (T_rot b7 7),
     snd (T_rot b0 0) XOR snd (T_rot b1 1) XOR snd (T_rot b2 2) XOR snd (T_rot b3 3)
       XOR fst (T_rot b4 4) XOR fst (T_rot b5 5) XOR fst (T_rot b6 6) XOR fst (T_rot b7 7)]"
proof -
  have "drop_bit 32 v = 0" for v :: u32
    by (rule bit_word_eqI) (auto simp: bit_simps dest: bit_imp_le_length)
  then have "ROTATE_COLUMN_DOWN u l 0 = (u, l)" for u l
    by (simp add: ROTATE_COLUMN_DOWN_def)
  then have *: "T_rot b 0 = (groestl_T ! (2 * unat b), groestl_T ! (2 * unat b + 1))"
    "T_rot b 4 = (groestl_T ! (2 * unat b), groestl_T ! (2 * unat b + 1))"
    "ROTATE_COLUMN_DOWN (groestl_T ! (2 * unat b)) (groestl_T ! (2 * unat b + 1)) 1 = T_rot b 1"
    "ROTATE_COLUMN_DOWN (groestl_T ! (2 * unat b)) (groestl_T ! (2 * unat b + 1)) 2 = T_rot b 2"
    "ROTATE_COLUMN_DOWN (groestl_T ! (2 * unat b)) (groestl_T ! (2 * unat b + 1)) 3 = T_rot b 3"
    "T_rot b 5 = T_rot b 1" "T_rot b 6 = T_rot b 2" "T_rot b 7 = T_rot b 3" for b
    by (simp_all add: T_rot_def)
  show ?thesis
    unfolding COLUMN_def Let_def assms case_prod_unfold * fst_conv snd_conv by (simp only: xor.assoc)
qed

lemma COLUMN_bytes:
  assumes "length x = 16" "r < 8" "\<And>k. k < 8 \<Longrightarrow> c k < 16"
  shows "state_bytes (COLUMN x (c 0) (c 1) (c 2) (c 3) (c 4) (c 5) (c 6) (c 7)) ! r
    = mix_bytes (\<lambda>k. sbox (state_bytes x ! (4 * c k + k mod 4))) r"
proof -
  define b where "b = (\<lambda>k. state_bytes x ! (4 * c k + k mod 4))"
  have x: "x8 x (4 * c k + k mod 4) = unat (b k)" if "k < 8" for k
    unfolding b_def using assms(1) assms(3) [OF that] by (intro x8_state_bytes) linarith
  have w: "COLUMN x (c 0) (c 1) (c 2) (c 3) (c 4) (c 5) (c 6) (c 7) =
    [fst (T_rot (b 0) 0) XOR fst (T_rot (b 1) 1) XOR fst (T_rot (b 2) 2) XOR fst (T_rot (b 3) 3)
       XOR snd (T_rot (b 4) 4) XOR snd (T_rot (b 5) 5) XOR snd (T_rot (b 6) 6) XOR snd (T_rot (b 7) 7),
     snd (T_rot (b 0) 0) XOR snd (T_rot (b 1) 1) XOR snd (T_rot (b 2) 2) XOR snd (T_rot (b 3) 3)
       XOR fst (T_rot (b 4) 4) XOR fst (T_rot (b 5) 5) XOR fst (T_rot (b 6) 6) XOR fst (T_rot (b 7) 7)]"
    using x [of 0] x [of 1] x [of 2] x [of 3] x [of 4] x [of 5] x [of 6] x [of 7] by (intro COLUMN_words) simp_all
  have u: "[0..<8] = [0, 1, 2, 3, 4, 5, 6, 7]"
    by (simp add: upt_rec)
  show ?thesis
    unfolding w state_bytes_column [OF assms(2)] col_byte_xor mix_bytes_def u b_def [symmetric, THEN fun_cong]
    by (simp add: T_rot_col [OF assms(2)] T_rot_col [OF assms(2), of 1, simplified])
qed

section \<open>The rounds\<close>

text \<open>The columns of the input that column \<open>j\<close> of the output is made of: the index of the word that holds row \<open>k\<close>.\<close>

definition source_word :: "nat list \<Rightarrow> nat \<Rightarrow> nat \<Rightarrow> nat" where
  "source_word sh j k = 2 * ((j + sh ! k) mod 8) + k div 4"

definition all_columns :: "nat list \<Rightarrow> u32 list \<Rightarrow> u32 list" where
  "all_columns sh x = concat (map (\<lambda>j. let c = source_word sh j in
     COLUMN x (c 0) (c 1) (c 2) (c 3) (c 4) (c 5) (c 6) (c 7)) [0..<8])"

lemma length_COLUMN [simp]: "length (COLUMN x c0 c1 c2 c3 c4 c5 c6 c7) = 2"
  by (simp add: COLUMN_def Let_def case_prod_unfold)

lemma length_all_columns [simp]: "length (all_columns sh x) = 16"
  unfolding all_columns_def by (subst length_concat_uniform [where n = 2]) (simp_all add: Let_def)

lemma state_bytes_concat: "state_bytes (concat xs) = concat (map state_bytes xs)"
  by (induction xs) simp_all

lemma all_columns_bytes:
  assumes "length x = 16"
  shows "state_bytes (all_columns sh x) =
    map (\<lambda>i. mix_bytes (\<lambda>k. let j = (i div 8 + sh ! k) mod 8 in sbox (state_bytes x ! (8 * j + k))) (i mod 8)) [0..<64]"
proof (rule nth_equalityI)
  fix i
  assume "i < length (state_bytes (all_columns sh x))"
  then have i: "i < 64"
    by (simp add: length_concat_store)
  let ?C = "\<lambda>j. let c = source_word sh j in COLUMN x (c 0) (c 1) (c 2) (c 3) (c 4) (c 5) (c 6) (c 7)"
  let ?c = "source_word sh (i div 8)"
  have len: "length (?C j) = 2" for j
    by (simp add: Let_def)
  have "state_bytes (all_columns sh x) = concat (map (\<lambda>j. state_bytes (?C j)) [0..<8])"
    by (simp add: all_columns_def state_bytes_concat comp_def)
  then have "state_bytes (all_columns sh x) ! i = state_bytes (?C (i div 8)) ! (i mod 8)"
    using nth_concat_uniform [of "\<lambda>j. state_bytes (?C j)" 8 i "[0..<8]"] i len by (simp add: length_concat_store)
  also have "\<dots> = mix_bytes (\<lambda>k. sbox (state_bytes x ! (4 * ?c k + k mod 4))) (i mod 8)"
    using COLUMN_bytes [OF assms, of "i mod 8" ?c] by (simp add: source_word_def Let_def)
  also have "\<dots> = mix_bytes (\<lambda>k. sbox (state_bytes x ! (8 * ((i div 8 + sh ! k) mod 8) + k))) (i mod 8)"
    by (intro arg_cong2 [where f = mix_bytes] ext arg_cong [where f = "\<lambda>i. sbox (state_bytes x ! i)"]) (simp_all add: source_word_def)
  finally show "state_bytes (all_columns sh x) ! i
      = map (\<lambda>i. mix_bytes (\<lambda>k. let j = (i div 8 + sh ! k) mod 8 in sbox (state_bytes x ! (8 * j + k))) (i mod 8)) [0..<64] ! i"
    using i by (simp add: Let_def)
qed (simp add: length_concat_store)

text \<open>The words with the constants.\<close>

definition words_P :: "byte \<Rightarrow> nat \<Rightarrow> u32" where
  "words_P r i = (if even i then 0x8 * word_of_nat i XOR ucast r else 0)"

definition words_Q :: "byte \<Rightarrow> nat \<Rightarrow> u32" where
  "words_Q r i = (if even i then 0xffffffff else (0xffffffff - push_bit 27 (word_of_nat (i - 1))) XOR push_bit 24 (ucast r))"

lemma RND512P_columns:
  assumes "length x = 16"
  shows "RND512P x (ucast r) = all_columns (shift_Values ! 0) (map (\<lambda>i. x ! i XOR words_P r i) [0..<16])"
proof -
  obtain a b c d e f g h i j k l m n u v where x: "x = [a, b, c, d, e, f, g, h, i, j, k, l, m, n, u, v]"
    using assms by (rule length_16)
  have up: "[0..<16] = [0, 1, 2, 3, 4, 5, 6, 7, 8, 9, 10, 11, 12, 13, 14, 15]" "[0..<8] = [0, 1, 2, 3, 4, 5, 6, 7]"
    by (simp_all add: upt_rec)
  show ?thesis
    unfolding x RND512P_def all_columns_def up by (simp add: Let_def words_P_def source_word_def shift_Values_def)
qed

lemma RND512Q_columns:
  assumes "length x = 16"
  shows "RND512Q x (push_bit 24 (ucast r)) = all_columns (shift_Values ! 1) (map (\<lambda>i. x ! i XOR words_Q r i) [0..<16])"
proof -
  obtain a b c d e f g h i j k l m n u v where x: "x = [a, b, c, d, e, f, g, h, i, j, k, l, m, n, u, v]"
    using assms by (rule length_16)
  have up: "[0..<16] = [0, 1, 2, 3, 4, 5, 6, 7, 8, 9, 10, 11, 12, 13, 14, 15]" "[0..<8] = [0, 1, 2, 3, 4, 5, 6, 7]"
    by (simp_all add: upt_rec)
  have not: "NOT w = w XOR 0xffffffff" for w :: u32
  proof -
    have "(0xffffffff :: u32) = - 1"
      by simp
    then show ?thesis
      by (simp only:) (rule bit_word_eqI, auto simp: bit_simps)
  qed
  show ?thesis
    unfolding x RND512Q_def all_columns_def up by (simp add: Let_def words_Q_def source_word_def shift_Values_def not)
qed

lemma state_bytes_nth: "i < 4 * length x \<Longrightarrow> state_bytes x ! i = byte_of (x ! (i div 4)) (i mod 4)"
  by (simp add: nth_concat_store nth_store32_le byte_of_def)

lemma byte_of_ucast: "m < 4 \<Longrightarrow> byte_of (ucast (r :: byte)) m = (if m = 0 then r else 0)"
  by (rule bit_word_eqI) (auto simp: byte_of_def bit_simps dest: bit_imp_le_length)

lemma byte_of_top: "m < 4 \<Longrightarrow> byte_of (push_bit 24 (ucast (r :: byte))) m = (if m = 3 then r else 0)"
  by (rule bit_word_eqI) (auto simp: byte_of_def bit_simps dest: bit_imp_le_length)

lemma words_P_bytes:
  assumes "j < 8" "k < 8"
  shows "byte_of (words_P r (2 * j + k div 4)) (k mod 4) = constant_P r j k"
proof -
  have "\<forall>j < 8. \<forall>k < 8. byte_of (words_P r (2 * j + k div 4)) (k mod 4) = constant_P r j k"
    unfolding all_less_8 words_P_def constant_P_def by (simp add: byte_of_xor byte_of_ucast byte_of_top) (simp add: byte_of_def)
  then show ?thesis
    using assms by blast
qed

lemma words_Q_bytes:
  assumes "j < 8" "k < 8"
  shows "byte_of (words_Q r (2 * j + k div 4)) (k mod 4) = constant_Q r j k"
proof -
  have "\<forall>j < 8. \<forall>k < 8. byte_of (words_Q r (2 * j + k div 4)) (k mod 4) = constant_Q r j k"
    unfolding all_less_8 words_Q_def constant_Q_def by (simp add: byte_of_xor byte_of_ucast byte_of_top) (simp add: byte_of_def flip: xor.assoc)
  then show ?thesis
    using assms by blast
qed

lemma mix_bytes_cong: "(\<And>k. k < 8 \<Longrightarrow> a k = b k) \<Longrightarrow> mix_bytes a i = mix_bytes b i"
  unfolding mix_bytes_def by (intro foldr_cong) simp_all

text \<open>Constants that are added to the words, and the columns: a round.\<close>

lemma columns_spec:
  assumes "length x = 16" "\<And>j k. j < 8 \<Longrightarrow> k < 8 \<Longrightarrow> byte_of (w (2 * j + k div 4)) (k mod 4) = const j k"
  shows "state_bytes (all_columns sh (map (\<lambda>i. x ! i XOR w i) [0..<16])) = spec_round const sh (state_bytes x)"
proof -
  let ?y = "map (\<lambda>i. x ! i XOR w i) [0..<16]"
  have "state_bytes ?y ! (8 * j + k) = state_bytes x ! (8 * j + k) XOR const j k" if "j < 8" "k < 8" for j k
  proof -
    have "k div 4 < 2"
      using that(2) by (simp add: div_less_iff_less_mult)
    then have "8 * j + k < 64" "(8 * j + k) div 4 = 2 * j + k div 4" "2 * j + k div 4 < 16"
      using that by linarith+
    moreover have "(8 * j + k) mod 4 = k mod 4"
      using mod_mult_self4 [of 4 "2 * j" k] by simp
    ultimately show ?thesis
      using assms(1) assms(2) [OF that] by (simp add: state_bytes_nth byte_of_xor del: map_map)
  qed
  then have "mix_bytes (\<lambda>k. let j = (i div 8 + sh ! k) mod 8 in sbox (state_bytes ?y ! (8 * j + k))) (i mod 8)
      = mix_bytes (\<lambda>k. let j = (i div 8 + sh ! k) mod 8 in sbox (state_bytes x ! (8 * j + k) XOR const j k)) (i mod 8)" for i
    by (intro mix_bytes_cong) (simp add: Let_def)
  then show ?thesis
    using all_columns_bytes [of ?y sh] by (simp add: spec_round_def)
qed

lemma RND512P_spec:
  assumes "length x = 16"
  shows "state_bytes (RND512P x (ucast r)) = spec_round (constant_P r) (shift_Values ! 0) (state_bytes x)"
    "length (RND512P x (ucast r)) = 16"
  using assms columns_spec [OF assms words_P_bytes] by (simp_all add: RND512P_columns)

lemma RND512Q_spec:
  assumes "length x = 16"
  shows "state_bytes (RND512Q x (push_bit 24 (ucast r))) = spec_round (constant_Q r) (shift_Values ! 1) (state_bytes x)"
    "length (RND512Q x (push_bit 24 (ucast r))) = 16"
  using assms columns_spec [OF assms words_Q_bytes] by (simp_all add: RND512Q_columns)

section \<open>The compression function and the output transformation\<close>

abbreviation xor_bytes :: "byte list \<Rightarrow> byte list \<Rightarrow> byte list" where
  "xor_bytes \<equiv> map2 (XOR)"

definition groestl_f :: "byte list \<Rightarrow> byte list \<Rightarrow> byte list" where
  "groestl_f h m = xor_bytes h (xor_bytes (spec_P (xor_bytes h m)) (spec_Q m))"

definition rounds_P :: "u32 list \<Rightarrow> u32 list" where
  "rounds_P x = fold (\<lambda>r x. RND512P x (ucast (word_of_nat r :: byte))) [0..<10] x"

definition rounds_Q :: "u32 list \<Rightarrow> u32 list" where
  "rounds_Q x = fold (\<lambda>r x. RND512Q x (push_bit 24 (ucast (word_of_nat r :: byte)))) [0..<10] x"

lemma rounds_P_spec: "length x = 16 \<Longrightarrow> state_bytes (rounds_P x) = spec_P (state_bytes x) \<and> length (rounds_P x) = 16"
proof -
  assume x: "length x = 16"
  have "state_bytes (fold (\<lambda>r x. RND512P x (ucast (word_of_nat r :: byte))) rs x)
      = fold (\<lambda>r. spec_round (constant_P (word_of_nat r)) (shift_Values ! 0)) rs (state_bytes x)
      \<and> length (fold (\<lambda>r x. RND512P x (ucast (word_of_nat r :: byte))) rs x) = 16" for rs
    using x by (induction rs arbitrary: x) (simp_all add: RND512P_spec del: length_concat map_eq_conv)
  then show ?thesis
    by (simp add: rounds_P_def spec_P_def)
qed

lemma rounds_Q_spec: "length x = 16 \<Longrightarrow> state_bytes (rounds_Q x) = spec_Q (state_bytes x) \<and> length (rounds_Q x) = 16"
proof -
  assume x: "length x = 16"
  have "state_bytes (fold (\<lambda>r x. RND512Q x (push_bit 24 (ucast (word_of_nat r :: byte)))) rs x)
      = fold (\<lambda>r. spec_round (constant_Q (word_of_nat r)) (shift_Values ! 1)) rs (state_bytes x)
      \<and> length (fold (\<lambda>r x. RND512Q x (push_bit 24 (ucast (word_of_nat r :: byte)))) rs x) = 16" for rs
    using x by (induction rs arbitrary: x) (simp_all add: RND512Q_spec del: length_concat map_eq_conv)
  then show ?thesis
    by (simp add: rounds_Q_def spec_Q_def)
qed

lemma state_bytes_xor:
  assumes "length x = n" "length y = n"
  shows "state_bytes (map (\<lambda>i. x ! i XOR y ! i) [0..<n]) = xor_bytes (state_bytes x) (state_bytes y)"
proof -
  have "i div 4 < n" if "i < 4 * n" for i
    using that by (simp add: div_less_iff_less_mult mult.commute)
  then show ?thesis
    using assms by (intro nth_equalityI) (simp_all add: length_concat_store state_bytes_nth byte_of_xor del: map_map)
qed

lemma F512_spec:
  assumes "length h = 16" "length m = 16"
  shows "state_bytes (F512 h m) = groestl_f (state_bytes h) (state_bytes m)" "length (F512 h m) = 16"
proof -
  let ?x = "map (\<lambda>i. h ! i XOR m ! i) [0..<16]"
  let ?y = "map (\<lambda>i. rounds_P ?x ! i XOR rounds_Q m ! i) [0..<16]"
  have u: "[0..<10] = [0, 1, 2, 3, 4, 5, 6, 7, 8, 9]"
    by (simp add: upt_rec)
  have m: "map (\<lambda>i. m ! i) [0..<16] = m"
    using map_nth [of m] assms(2) by simp
  have F: "F512 h m = map (\<lambda>i. h ! i XOR ?y ! i) [0..<16]"
    unfolding F512_def Let_def rounds_P_def rounds_Q_def u m by (rule map_cong) simp_all
  have "length ?x = 16"
    by simp
  from rounds_P_spec [OF this] rounds_Q_spec [OF assms(2)] assms
  show "state_bytes (F512 h m) = groestl_f (state_bytes h) (state_bytes m)"
    unfolding F groestl_f_def by (simp only: state_bytes_xor [of h 16] state_bytes_xor [of "rounds_P ?x" 16] length_map length_upt)
  show "length (F512 h m) = 16"
    by (simp add: F)
qed

lemma OutputTransformation_spec:
  assumes "length (chaining ctx) = 16"
  shows "\<exists>h. OutputTransformation ctx = ctx\<lparr>chaining := h\<rparr> \<and> length h = 16
    \<and> state_bytes h = xor_bytes (state_bytes (chaining ctx)) (spec_P (state_bytes (chaining ctx)))"
proof -
  let ?x = "chaining ctx"
  have u: "[0..<10] = [0, 1, 2, 3, 4, 5, 6, 7, 8, 9]"
    by (simp add: upt_rec)
  have m: "map (\<lambda>i. ?x ! i) [0..<16] = ?x"
    using map_nth [of ?x] assms by simp
  have "OutputTransformation ctx = ctx\<lparr>chaining := map (\<lambda>i. ?x ! i XOR rounds_P ?x ! i) [0..<16]\<rparr>"
    unfolding OutputTransformation_def Let_def rounds_P_def u m by simp
  then show ?thesis
    using rounds_P_spec [OF assms] state_bytes_xor [of ?x 16 "rounds_P ?x"] assms by auto
qed

end
