(* ===== verification/GroestlHash.thy ===== *)
theory GroestlHash
  imports GroestlPerm Streaming
begin

text \<open>
  The context functions of \<^verbatim>\<open>groestl.c\<close> against the definition of Groestl-256 on the padded message: the buffer, the 64-bit
  block counter in two halves, messages whose length is not a multiple of eight bits, and the output transformation.
\<close>

section \<open>The specification\<close>

text \<open>A one bit, zeros, and the number of blocks of the padded message.\<close>

definition groestl_pad :: "byte list \<Rightarrow> nat \<Rightarrow> byte list" where
  "groestl_pad m n = (let d = take (n div 8) m @ [last_byte m n]; z = (120 - length d mod 64) mod 64
     in d @ replicate z 0 @ be64 (word_of_nat ((length d + z + 8) div 64)))"

definition groestl_iv :: "byte list" where
  "groestl_iv = replicate 62 0 @ [1, 0]"

definition spec_groestl :: "byte list \<Rightarrow> nat \<Rightarrow> byte list" where
  "spec_groestl m n = (let h = blocks groestl_f 64 groestl_iv (groestl_pad m n) in drop 32 (xor_bytes h (spec_P h)))"

section \<open>Blocks\<close>

definition groestl_at :: "groestl_ctx \<Rightarrow> byte list \<Rightarrow> u64 \<Rightarrow> bool" where
  "groestl_at ctx h n \<longleftrightarrow> length (chaining ctx) = 16 \<and> state_bytes (chaining ctx) = h
     \<and> block_counter1 ctx = ucast n \<and> block_counter2 ctx = ucast (drop_bit 32 n)"

lemma state_bytes_block: "64 \<le> length b \<Longrightarrow> state_bytes (block_words32 b) = take 64 b"
proof (rule nth_equalityI)
  fix i
  assume *: "64 \<le> length b" "i < length (state_bytes (block_words32 b))"
  then have i: "i < 64" "i div 4 < 16"
    by (simp_all add: length_concat_store block_words32_def del: map_map)
  then have "state_bytes (block_words32 b) ! i = byte_of (load32_le b (4 * (i div 4))) (i mod 4)"
    by (simp add: block_words32_def state_bytes_nth del: map_map)
  also have "4 * (i div 4) + 4 \<le> length b"
    using i *(1) by linarith
  then have "byte_of (load32_le b (4 * (i div 4))) (i mod 4) = b ! i"
    by (simp add: byte_of_load)
  finally show "state_bytes (block_words32 b) ! i = take 64 b ! i"
    using i by simp
qed (simp add: length_concat_store block_words32_def del: map_map)

lemma length_block_words32 [simp]: "length (block_words32 b) = 16"
  by (simp add: block_words32_def)

lemma count_block_eq:
  assumes "block_counter1 ctx = ucast (n :: u64)" "block_counter2 ctx = ucast (drop_bit 32 n)"
  shows "count_block ctx = ctx\<lparr>block_counter1 := ucast (n + 1), block_counter2 := ucast (drop_bit 32 (n + 1))\<rparr>"
proof -
  have "uint n mod 2 ^ 32 + 1 \<le> 2 ^ 32"
    using pos_mod_bound [of "2 ^ 32" "uint n"] by simp
  from split_add [OF this] show ?thesis
    by (simp add: count_block_def Let_def assms)
qed

text \<open>The fields of the context that the digestion of blocks keeps.\<close>

definition same_buffer :: "groestl_ctx \<Rightarrow> groestl_ctx \<Rightarrow> bool" where
  "same_buffer c d \<longleftrightarrow> gbuffer c = gbuffer d \<and> buf_ptr c = buf_ptr d \<and> bits_in_last_byte c = bits_in_last_byte d"

lemma Transform_at:
  assumes "groestl_at ctx h n" "msglen \<le> length inp"
  shows "groestl_at (Transform ctx inp msglen) (blocks groestl_f 64 h (take msglen inp)) (n + word_of_nat (msglen div 64))
    \<and> same_buffer (Transform ctx inp msglen) ctx"
  using assms
proof (induction ctx inp msglen arbitrary: h n rule: Transform.induct)
  case (1 ctx inp msglen)
  show ?case
  proof (cases "64 \<le> msglen")
    case True
    let ?c = "count_block (ctx\<lparr>chaining := F512 (chaining ctx) (block_words32 inp)\<rparr>)"
    have f: "F512 (chaining ctx) (block_words32 inp) = F512 (chaining ctx) (block_words32 inp)
        \<and> state_bytes (F512 (chaining ctx) (block_words32 inp)) = groestl_f h (take 64 inp)
        \<and> length (F512 (chaining ctx) (block_words32 inp)) = 16"
      using 1(2,3) True F512_spec [of "chaining ctx" "block_words32 inp"] by (simp add: groestl_at_def state_bytes_block)
    have c: "?c = ctx\<lparr>chaining := F512 (chaining ctx) (block_words32 inp), block_counter1 := ucast (n + 1),
        block_counter2 := ucast (drop_bit 32 (n + 1))\<rparr>"
      using 1(2) by (subst count_block_eq [of _ n]) (simp_all add: groestl_at_def)
    then have at: "groestl_at ?c (groestl_f h (take 64 inp)) (n + 1)" and same: "same_buffer ?c ctx"
      using f unfolding c by (simp_all add: groestl_at_def same_buffer_def)
    have t: "take 64 (take msglen inp) = take 64 inp" "drop 64 (take msglen inp) = take (msglen - 64) (drop 64 inp)"
      using True by (simp_all add: drop_take min_def)
    have "blocks groestl_f 64 h (take msglen inp)
        = blocks groestl_f 64 (groestl_f h (take 64 inp)) (take (msglen - 64) (drop 64 inp))"
      using True 1(3) blocks_step [of 64 "take msglen inp" groestl_f h] by (simp add: t)
    moreover have "n + word_of_nat (msglen div 64) = n + 1 + word_of_nat ((msglen - 64) div 64)"
      using True by (simp add: le_div_geq)
    moreover have "Transform ctx inp msglen = Transform ?c (drop 64 inp) (msglen - 64)"
      using True by (simp add: Transform.simps [of ctx])
    ultimately show ?thesis
      using 1(1) [OF True at] 1(3) same by (simp add: same_buffer_def add.assoc)
  next
    case False
    then show ?thesis
      using 1(2) by (simp add: Transform.simps [of ctx] blocks_short same_buffer_def)
  qed
qed

section \<open>The buffer\<close>

lemma put_bytes:
  assumes "buf_ptr ctx + length bs \<le> length (gbuffer ctx)"
  shows "foldl put_byte ctx bs = ctx\<lparr>gbuffer := memcpy (gbuffer ctx) (buf_ptr ctx) bs, buf_ptr := buf_ptr ctx + length bs\<rparr>"
  using assms
proof (induction bs arbitrary: ctx)
  case Nil
  then show ?case
    by (simp add: memcpy_def)
next
  case (Cons b bs)
  have "memcpy ((gbuffer ctx)[buf_ptr ctx := b]) (Suc (buf_ptr ctx)) bs = memcpy (gbuffer ctx) (buf_ptr ctx) (b # bs)"
    using Cons.prems by (simp add: memcpy_def take_Suc_conv_app_nth)
  then show ?case
    using Cons.IH [of "put_byte ctx b"] Cons.prems by (simp add: put_byte_def)
qed

lemma fill_buffer_eq:
  assumes "msglen \<le> length inp" "buf_ptr ctx \<le> 64" "index \<le> msglen"
  shows "fill_buffer ctx inp index msglen = (let k = min (64 - buf_ptr ctx) (msglen - index)
    in (foldl put_byte ctx (take k (drop index inp)), index + k))"
  using assms
proof (induction ctx inp index msglen rule: fill_buffer.induct)
  case (1 ctx inp index msglen)
  show ?case
  proof (cases "buf_ptr ctx < 64 \<and> index < msglen")
    case True
    then have "drop index inp = inp ! index # drop (Suc index) inp"
      using 1(2) by (simp add: Cons_nth_drop_Suc)
    moreover have "min (64 - buf_ptr ctx) (msglen - index) = Suc (min (64 - Suc (buf_ptr ctx)) (msglen - Suc index))"
      using True by (auto simp: min_def)
    ultimately show ?thesis
      using 1 True by (simp add: fill_buffer.simps [of ctx] Let_def put_byte_def)
  next
    case False
    then have "min (64 - buf_ptr ctx) (msglen - index) = 0"
      by auto
    then show ?thesis
      using False by (auto simp: fill_buffer.simps [of ctx])
  qed
qed

lemma store_rest_eq:
  assumes "msglen \<le> length inp" "index \<le> msglen"
  shows "store_rest ctx inp index msglen = (foldl put_byte ctx (take (msglen - index) (drop index inp)), msglen)"
  using assms
proof (induction ctx inp index msglen rule: store_rest.induct)
  case (1 ctx inp index msglen)
  show ?case
  proof (cases "index < msglen")
    case True
    then have "drop index inp = inp ! index # drop (Suc index) inp" "msglen - index = Suc (msglen - Suc index)"
      using 1(2) by (simp_all add: Cons_nth_drop_Suc)
    then show ?thesis
      using 1 True by (simp add: store_rest.simps [of ctx])
  qed (use 1 in \<open>simp add: store_rest.simps [of ctx]\<close>)
qed

lemma zero_buffer_eq: "zero_buffer ctx n = foldl put_byte ctx (replicate (n - buf_ptr ctx) 0)"
proof (induction ctx n rule: zero_buffer.induct)
  case (1 ctx n)
  show ?case
  proof (cases "buf_ptr ctx < n")
    case True
    then have "n - buf_ptr ctx = Suc (n - Suc (buf_ptr ctx))"
      by simp
    then show ?thesis
      using 1 True by (simp add: zero_buffer.simps [of ctx] put_byte_def)
  qed (simp add: zero_buffer.simps [of ctx])
qed

section \<open>Updates\<close>

definition groestl_rep :: "groestl_ctx \<Rightarrow> byte list \<Rightarrow> bool" where
  "groestl_rep ctx d \<longleftrightarrow> groestl_at ctx (blocks groestl_f 64 groestl_iv d) (word_of_nat (length d div 64))
     \<and> buf_ptr ctx = length d mod 64 \<and> length (gbuffer ctx) = 64 \<and> take (length d mod 64) (gbuffer ctx) = tail 64 d
     \<and> bits_in_last_byte ctx = 0"

lemma groestl_at_put: "groestl_at (ctx\<lparr>gbuffer := b, buf_ptr := p\<rparr>) h n = groestl_at ctx h n"
  by (simp add: groestl_at_def)

lemma bulk_rep:
  assumes rep: "groestl_rep ctx d" "length d mod 64 = 0" and i: "index \<le> msglen" "msglen \<le> length inp"
  defines "x \<equiv> take (msglen - index) (drop index inp)"
  shows "\<exists>c. store_rest (Transform ctx (drop index inp) (msglen - index)) inp (index + (msglen - index) div 64 * 64) msglen
    = (c, msglen) \<and> groestl_rep c (d @ x)"
proof -
  let ?T = "Transform ctx (drop index inp) (msglen - index)" and ?n = "(msglen - index) div 64 * 64"
  have lx: "length x = msglen - index"
    using i by (simp add: x_def)
  have n: "?n \<le> msglen - index"
    by simp
  have T: "groestl_at ?T (blocks groestl_f 64 (blocks groestl_f 64 groestl_iv d) x)
      (word_of_nat (length d div 64) + word_of_nat ((msglen - index) div 64))" "same_buffer ?T ctx"
    using Transform_at [of ctx "blocks groestl_f 64 groestl_iv d" "word_of_nat (length d div 64)" "msglen - index" "drop index inp"] rep i
    by (simp_all add: groestl_rep_def x_def)
  have rest: "take (msglen - (index + ?n)) (drop (index + ?n) inp) = tail 64 x"
    unfolding x_def tail_def using i n by (simp add: drop_take mult.commute add.commute)
  have buf: "buf_ptr ?T = 0" "length (gbuffer ?T) = 64" "bits_in_last_byte ?T = 0"
    using T(2) rep by (simp_all add: same_buffer_def groestl_rep_def)
  have "length (tail 64 x) < 64"
    by (simp add: length_tail)
  then have put: "foldl put_byte ?T (tail 64 x) = ?T\<lparr>gbuffer := memcpy (gbuffer ?T) 0 (tail 64 x), buf_ptr := length (tail 64 x)\<rparr>"
    using put_bytes [of ?T "tail 64 x"] buf by simp
  have "length (d @ x) div 64 = length d div 64 + length x div 64" "length (d @ x) mod 64 = length x mod 64"
    using rep(2) div_add1_eq [of "length d" "length x" 64] mod_add_eq [of "length d" 64 "length x"] by simp_all
  moreover have "blocks groestl_f 64 groestl_iv (d @ x) = blocks groestl_f 64 (blocks groestl_f 64 groestl_iv d) x"
    "tail 64 (d @ x) = tail 64 x"
    using tail_full [OF rep(2)] by (simp_all add: blocks_append [of groestl_f 64 groestl_iv d] tail_append [of 64 d])
  moreover have "take (length x mod 64) (memcpy (gbuffer ?T) 0 (tail 64 x)) = tail 64 x"
    "length (memcpy (gbuffer ?T) 0 (tail 64 x)) = 64"
    using buf take_memcpy [of 0 "gbuffer ?T" "tail 64 x"] length_memcpy [of 0 "tail 64 x" "gbuffer ?T"] length_tail [of 64 x]
      mod_less_divisor [of 64 "length x"] by simp_all
  ultimately have "groestl_rep (foldl put_byte ?T (tail 64 x)) (d @ x)"
    unfolding put groestl_rep_def using T(1) buf lx by (simp add: groestl_at_put length_tail)
  then show ?thesis
    using store_rest_eq [of msglen inp "index + ?n" ?T] i n rest by simp
qed

text \<open>The first bytes complete the block in the buffer.\<close>

lemma add_64: "r + y = 64 \<Longrightarrow> 64 * n + r = l \<Longrightarrow> l + y = 64 * (n + 1)" for r y n l :: nat
  by simp

lemma fill_rep:
  assumes "groestl_rep ctx d" "length d mod 64 + length y = 64"
  shows "groestl_rep (let c = foldl put_byte ctx y\<lparr>buf_ptr := 0\<rparr> in Transform c (gbuffer c) 64) (d @ y)"
proof -
  let ?r = "length d mod 64" and ?b = "tail 64 d @ y"
  let ?c = "ctx\<lparr>gbuffer := ?b, buf_ptr := 0\<rparr>"
  have "foldl put_byte ctx y = ctx\<lparr>gbuffer := ?b, buf_ptr := 64\<rparr>"
    using put_bytes [of ctx y] assms by (simp add: groestl_rep_def memcpy_def)
  then have c: "(let c = foldl put_byte ctx y\<lparr>buf_ptr := 0\<rparr> in Transform c (gbuffer c) 64) = Transform ?c ?b 64"
    by (simp add: Let_def)
  have l: "length ?b = 64"
    using assms(2) by (simp add: length_tail)
  have "groestl_at (Transform ?c ?b 64) (blocks groestl_f 64 (blocks groestl_f 64 groestl_iv d) ?b)
      (word_of_nat (length d div 64) + 1)" "same_buffer (Transform ?c ?b 64) ?c"
    using Transform_at [of ?c "blocks groestl_f 64 groestl_iv d" "word_of_nat (length d div 64)" 64 ?b] assms(1) l
    by (simp_all add: groestl_rep_def groestl_at_put)
  moreover have "length (d @ y) = 64 * (length d div 64 + 1)"
    using add_64 [OF assms(2) mult_div_mod_eq] by simp
  then have "length (d @ y) div 64 = length d div 64 + 1" "length (d @ y) mod 64 = 0"
    by simp_all
  ultimately show ?thesis
    using assms(1) l tail_full [of "d @ y" 64]
    by (simp add: c groestl_rep_def same_buffer_def blocks_append [of groestl_f 64 groestl_iv d] add.commute)
qed

lemma short_rep:
  assumes "groestl_rep ctx d" "length d mod 64 + length y < 64"
  shows "groestl_rep (foldl put_byte ctx y) (d @ y)"
proof -
  let ?r = "length d mod 64"
  have "foldl put_byte ctx y = ctx\<lparr>gbuffer := memcpy (gbuffer ctx) ?r y, buf_ptr := ?r + length y\<rparr>"
    using put_bytes [of ctx y] assms by (simp add: groestl_rep_def)
  moreover have "length (d @ y) div 64 = length d div 64" "length (d @ y) mod 64 = ?r + length y"
    using assms(2) div_add1_eq [of "length d" "length y" 64] mod_add_eq [of "length d" 64 "length y"] by simp_all
  moreover have "tail 64 (d @ y) = tail 64 d @ y" "blocks groestl_f 64 groestl_iv (d @ y) = blocks groestl_f 64 groestl_iv d"
    using assms(2) by (simp_all add: tail_append [of 64 d] blocks_append [of groestl_f 64 groestl_iv d] tail_short blocks_short length_tail)
  ultimately show ?thesis
    using assms take_memcpy [of ?r "gbuffer ctx" y] by (simp add: groestl_rep_def groestl_at_put length_memcpy)
qed

lemma groestl_update:
  fixes n :: u64
  assumes "groestl_rep ctx d" "unat (n div 8) < 2 ^ 31" "unat (n div 8) \<le> length inp"
  shows "\<exists>c. groestl_rep c (d @ take (unat (n div 8)) inp)
    \<and> groestl_Update ctx inp n = Some (store_bits c inp (unat (n div 8)) (unat (n mod 8)))"
proof -
  define m where "m = unat (n div 8)"
  have m: "m < 2 ^ 31" "m \<le> length inp"
    using assms(2,3) by (simp_all add: m_def)
  have "\<exists>c. groestl_rep c (d @ take m inp) \<and> groestl_Update ctx inp n = Some (store_bits c inp m (unat (n mod 8)))"
  proof (cases "length d mod 64 = 0")
    case True
    then have "buf_ptr ctx = 0"
      using assms(1) by (simp add: groestl_rep_def)
    with bulk_rep [OF assms(1) True, of 0 m inp] m show ?thesis
      by (auto simp: groestl_Update_def Let_def m_def [symmetric])
  next
    case False
    define r where "r = length d mod 64"
    define k where "k = min (64 - r) m"
    have p: "buf_ptr ctx = r" "buf_ptr ctx \<noteq> 0" "buf_ptr ctx \<le> 64" "length (gbuffer ctx) = 64" "r < 64"
      using assms(1) False by (simp_all add: groestl_rep_def r_def less_imp_le)
    have f: "fill_buffer ctx inp 0 m = (foldl put_byte ctx (take k inp), k)"
      using fill_buffer_eq [OF m(2) p(3), of 0] p(1) by (simp add: Let_def k_def)
    have k: "length (take k inp) = k" "r + k \<le> 64" "k \<le> m"
      using m(2) p(5) by (simp_all add: k_def)
    have b: "buf_ptr (foldl put_byte ctx (take k inp)) = r + k"
      using put_bytes [of ctx "take k inp"] k p(1,4) by simp
    show ?thesis
    proof (cases "r + k < 64")
      case True
      then have km: "k = m"
        using p(5) by (auto simp: k_def min_def split: if_splits)
      have "groestl_Update ctx inp n = Some (store_bits (foldl put_byte ctx (take m inp)) inp m (unat (n mod 8)))"
        unfolding groestl_Update_def Let_def m_def [symmetric] f using True m p b by (simp add: km)
      then show ?thesis
        using short_rep [OF assms(1), of "take m inp"] True m by (auto simp: km r_def)
    next
      case False
      then have full: "r + length (take k inp) = 64"
        using k(1,2) by linarith
      let ?c = "let c = foldl put_byte ctx (take k inp)\<lparr>buf_ptr := 0\<rparr> in Transform c (gbuffer c) 64"
      have "length (d @ take k inp) mod 64 = 0"
        using add_64 [OF full [unfolded r_def] mult_div_mod_eq] by (simp del: length_take)
      from bulk_rep [OF fill_rep [OF assms(1) full [unfolded r_def]] this k(3) m(2)] obtain c where
        c: "store_rest (Transform ?c (drop k inp) (m - k)) inp (k + (m - k) div 64 * 64) m = (c, m)"
        "groestl_rep c ((d @ take k inp) @ take (m - k) (drop k inp))"
        by blast
      have "take k inp @ take (m - k) (drop k inp) = take m inp"
        using take_add [of k "m - k" inp] k(3) by simp
      moreover have "groestl_Update ctx inp n = Some (store_bits c inp m (unat (n mod 8)))"
        using m p b False c(1) unfolding groestl_Update_def Let_def m_def [symmetric] f by simp
      ultimately show ?thesis
        using c(2) by auto
    qed
  qed
  then show ?thesis
    by (simp add: m_def)
qed

section \<open>The last blocks\<close>

definition holds :: "groestl_ctx \<Rightarrow> byte list \<Rightarrow> bool" where
  "holds ctx w \<longleftrightarrow> length (gbuffer ctx) = 64 \<and> buf_ptr ctx = length w \<and> take (length w) (gbuffer ctx) = w"

lemma holds_full: "holds ctx w \<Longrightarrow> length w = 64 \<Longrightarrow> gbuffer ctx = w"
  by (auto simp: holds_def)

lemma holds_put:
  assumes "holds ctx w" "length w + length y \<le> 64"
  shows "holds (foldl put_byte ctx y) (w @ y)" "groestl_at (foldl put_byte ctx y) h n = groestl_at ctx h n"
  using assms put_bytes [of ctx y] take_memcpy [of "length w" "gbuffer ctx" y] length_memcpy [of "length w" y "gbuffer ctx"]
  by (simp_all add: holds_def groestl_at_put)

lemma holds_zero:
  assumes "holds ctx w" "length w \<le> n" "n \<le> 64"
  shows "holds (zero_buffer ctx n) (w @ replicate (n - length w) 0)" "groestl_at (zero_buffer ctx n) h k = groestl_at ctx h k"
  using holds_put [OF assms(1), of "replicate (n - length w) 0"] assms by (simp_all add: zero_buffer_eq holds_def)

lemma mask_bits:
  fixes b :: byte
  assumes "0 < r" "r < 8"
  shows "(b AND ucast (push_bit (8 - r) (push_bit r 1 - 1 :: u32))) XOR ucast (push_bit (7 - r) (1 :: u32))
    = push_bit (8 - r) (drop_bit (8 - r) b) OR push_bit (7 - r) 1"
proof (rule bit_word_eqI)
  fix n
  assume n: "n < LENGTH(8)"
  have m: "push_bit r 1 - 1 = (mask r :: u32)"
    by (simp add: mask_eq_exp_minus_1)
  have "7 - r < 8" "n < 8" "8 - r \<le> n \<Longrightarrow> n - (8 - r) < r" "\<not> 8 - r \<le> 7 - r"
    using assms n by auto
  then show "bit ((b AND ucast (push_bit (8 - r) (push_bit r 1 - 1 :: u32))) XOR ucast (push_bit (7 - r) (1 :: u32))) n
      = bit (push_bit (8 - r) (drop_bit (8 - r) b) OR push_bit (7 - r) 1) n"
    unfolding m by (auto simp: bit_simps)
qed

lemma close_rep:
  assumes "groestl_rep c d" "n mod 8 < 8"
  shows "holds (close_last_byte (store_bits c inp (n div 8) (n mod 8))) (tail 64 d @ [last_byte inp n])
    \<and> groestl_at (close_last_byte (store_bits c inp (n div 8) (n mod 8)))
        (blocks groestl_f 64 groestl_iv d) (word_of_nat (length d div 64))"
proof -
  let ?w = "tail 64 d" and ?r = "n mod 8"
  have w: "holds c ?w" "length ?w < 64" "bits_in_last_byte c = 0"
    using assms(1) by (simp_all add: groestl_rep_def holds_def length_tail)
  have at: "groestl_at c (blocks groestl_f 64 groestl_iv d) (word_of_nat (length d div 64))"
    using assms(1) by (simp add: groestl_rep_def)
  show ?thesis
  proof (cases "?r = 0")
    case True
    then show ?thesis
      using holds_put [OF w(1), of "[0x80]"] w(2,3) at by (simp add: store_bits_def close_last_byte_def last_byte_def)
  next
    case False
    let ?b = "(inp ! (n div 8) AND ucast (push_bit (8 - ?r) (push_bit ?r 1 - 1 :: u32))) XOR ucast (push_bit (7 - ?r) (1 :: u32))"
    have "close_last_byte (store_bits c inp (n div 8) ?r) = put_byte c ?b"
      using False w by (simp add: close_last_byte_def store_bits_def put_byte_def holds_def Let_def)
    moreover have "?b = last_byte inp n"
      using False mask_bits [of ?r "inp ! (n div 8)"] by (simp add: last_byte_def Let_def)
    ultimately show ?thesis
      using holds_put [OF w(1), of "[last_byte inp n]"] w(2) at by simp
  qed
qed

lemma be64_halves: "be64 n = (let h = ucast (drop_bit 32 n) :: u32; l = ucast n :: u32 in
  [ucast (drop_bit 24 h), ucast (drop_bit 16 h), ucast (drop_bit 8 h), ucast h,
   ucast (drop_bit 24 l), ucast (drop_bit 16 l), ucast (drop_bit 8 l), ucast l])"
proof -
  have "(ucast (drop_bit k (ucast n :: u32)) :: byte) = ucast (drop_bit k n)"
    "(ucast (drop_bit k (ucast (drop_bit 32 n) :: u32)) :: byte) = ucast (drop_bit (32 + k) n)" if "k \<le> 24" for k
    by (rule bit_word_eqI; use that in \<open>auto simp: bit_simps add.assoc\<close>)+
  from this [of 0] this [of 8] this [of 16] this [of 24] show ?thesis
    by (simp add: be64_def Let_def)
qed

lemma length_8_bytes:
  assumes "length x = 8"
  obtains a b c d e f g h where "x = [a, b, c, d, e, f, g, h]"
  using assms by (auto simp: numeral_eq_Suc length_Suc_conv)

lemma store_counters:
  assumes "length (gbuffer c) = 64" "take 56 (gbuffer c) = w" "buf_ptr c = 64"
    "block_counter1 c = ucast n" "block_counter2 c = ucast (drop_bit 32 n)"
  shows "gbuffer (store_counter2 (store_counter1 c)) = w @ be64 n \<and> chaining (store_counter2 (store_counter1 c)) = chaining c"
proof -
  have "length (drop 56 (gbuffer c)) = 8"
    using assms(1) by simp
  then obtain b0 b1 b2 b3 b4 b5 b6 b7 where "drop 56 (gbuffer c) = [b0, b1, b2, b3, b4, b5, b6, b7]"
    by (rule length_8_bytes)
  then have g: "gbuffer c = w @ [b0, b1, b2, b3, b4, b5, b6, b7]" "length w = 56"
    using append_take_drop_id [of 56 "gbuffer c"] assms(1,2) by auto
  show ?thesis
    using assms(3-5) unfolding be64_halves
    by (simp add: store_counter1.simps store_counter2.simps g list_update_append Let_def drop_bit_drop_bit)
qed

lemma final_block:
  assumes "holds c w" "length w = 56" "groestl_at c h n"
  shows "let c = count_block c; c = c\<lparr>buf_ptr := 64\<rparr>; c = store_counter1 c; c = store_counter2 c; c = Transform c (gbuffer c) 64
    in length (chaining c) = 16 \<and> state_bytes (chaining c) = groestl_f h (w @ be64 (n + 1))"
proof -
  let ?c = "count_block c\<lparr>buf_ptr := 64\<rparr>"
  let ?d = "store_counter2 (store_counter1 ?c)"
  have "count_block c = c\<lparr>block_counter1 := ucast (n + 1), block_counter2 := ucast (drop_bit 32 (n + 1))\<rparr>"
    using assms(3) by (intro count_block_eq) (simp_all add: groestl_at_def)
  then have d: "gbuffer ?d = w @ be64 (n + 1)" "chaining ?d = chaining c"
    using store_counters [of ?c w "n + 1"] assms(1,2) by (simp_all add: holds_def)
  have l: "length (gbuffer ?d) = 64"
    using assms(2) by (simp add: d be64_def)
  have "Transform ?d (gbuffer ?d) 64 = count_block (?d\<lparr>chaining := F512 (chaining c) (block_words32 (gbuffer ?d))\<rparr>)"
    by (simp add: Transform.simps d(2))
  moreover have "chaining (count_block x) = chaining x" for x
    by (simp add: count_block_def Let_def)
  ultimately have "chaining (Transform ?d (gbuffer ?d) 64) = F512 (chaining c) (block_words32 (gbuffer ?d))"
    by simp
  then show ?thesis
    using F512_spec [of "chaining c" "block_words32 (gbuffer ?d)"] assms(3) l d(1) by (simp add: Let_def groestl_at_def state_bytes_block)
qed

lemma drop_nths: "map (\<lambda>i. xs ! i) [k..<length xs] = drop k xs"
  by (rule nth_equalityI) simp_all

lemma groestl_final:
  assumes "holds (close_last_byte ctx) w" "groestl_at (close_last_byte ctx) h n" "length w \<le> 64"
  shows "snd (groestl_Final ctx) = (let H = (if length w \<le> 56 then groestl_f h (w @ replicate (56 - length w) 0 @ be64 (n + 1))
      else groestl_f (groestl_f h (w @ replicate (64 - length w) 0)) (replicate 56 0 @ be64 (n + 2)))
    in drop 32 (xor_bytes H (spec_P H)))"
proof -
  let ?c1 = "close_last_byte ctx"
  let ?c2 = "if buf_ptr ?c1 > 56 then (let c = zero_buffer ?c1 64; c = Transform c (gbuffer c) 64 in c\<lparr>buf_ptr := 0\<rparr>) else ?c1"
  let ?c3 = "zero_buffer ?c2 56"
  define w' where "w' = (if length w \<le> 56 then w @ replicate (56 - length w) 0 else replicate 56 0)"
  define h' where "h' = (if length w \<le> 56 then h else groestl_f h (w @ replicate (64 - length w) 0))"
  define n' where "n' = (if length w \<le> 56 then n else n + 1)"
  have c3: "holds ?c3 w'" "groestl_at ?c3 h' n'"
  proof -
    have p: "buf_ptr ?c1 = length w"
      using assms(1) by (simp add: holds_def)
    have "holds ?c3 w' \<and> groestl_at ?c3 h' n'"
    proof (cases "length w \<le> 56")
      case True
      then show ?thesis
        using holds_zero [OF assms(1), of 56] assms(2) p by (simp add: w'_def h'_def n'_def)
    next
      case False
      let ?z = "zero_buffer ?c1 64" and ?y = "w @ replicate (64 - length w) 0"
      let ?t = "Transform ?z (gbuffer ?z) 64\<lparr>buf_ptr := 0\<rparr>"
      have z: "holds ?z ?y" "groestl_at ?z h n" "length ?y = 64"
        using holds_zero [OF assms(1,3)] assms(2,3) by simp_all
      then have g: "gbuffer ?z = ?y"
        by (intro holds_full)
      have t: "groestl_at ?t (groestl_f h ?y) (n + 1)" "holds ?t []"
        using Transform_at [OF z(2), of 64 ?y] z(3) blocks_one [of 64 ?y groestl_f h] unfolding g
        by (simp_all add: groestl_at_def holds_def same_buffer_def g)
      have "?c2 = ?t"
        using False p by (simp add: Let_def)
      then show ?thesis
        using holds_zero [OF t(2), of 56] t(1) False by (simp add: w'_def h'_def n'_def)
    qed
    then show "holds ?c3 w'" "groestl_at ?c3 h' n'"
      by simp_all
  qed
  define c where "c = (let c = count_block ?c3; c = c\<lparr>buf_ptr := 64\<rparr>; c = store_counter1 c; c = store_counter2 c in Transform c (gbuffer c) 64)"
  let ?H = "groestl_f h' (w' @ be64 (n' + 1))"
  have c: "length (chaining c) = 16" "state_bytes (chaining c) = ?H"
    using final_block [OF c3(1) _ c3(2)] by (simp_all add: c_def Let_def w'_def)
  obtain x where x: "OutputTransformation c = c\<lparr>chaining := x\<rparr>" "length x = 16" "state_bytes x = xor_bytes ?H (spec_P ?H)"
    using OutputTransformation_spec [OF c(1)] c(2) by auto
  from drop_nths [of "state_bytes x" 32] have "snd (groestl_Final ctx) = drop 32 (state_bytes x)"
    unfolding groestl_Final_def using x(1,2) by (simp add: c_def Let_def length_concat_store)
  then show ?thesis
    by (simp add: x(3) Let_def w'_def h'_def n'_def add.commute)
qed

section \<open>The hash\<close>

lemma groestl_init: "length (gbuffer ctx) = 64 \<Longrightarrow> groestl_rep (groestl_Init ctx) []"
proof -
  have "state_bytes ((replicate 16 0)[15 := u32BIG 256]) = groestl_iv"
    by code_simp
  then show "length (gbuffer ctx) = 64 \<Longrightarrow> groestl_rep (groestl_Init ctx) []"
    by (simp add: groestl_rep_def groestl_Init_def groestl_at_def blocks_short tail_short)
qed

text \<open>The blocks of the padded message after the full blocks of the message.\<close>

lemma pad_arith:
  fixes a r :: nat
  assumes "r < 64"
  shows "(120 - (64 * a + r + 1) mod 64) mod 64 = (if r < 56 then 55 - r else 119 - r)"
    "(64 * a + r + 1 + (if r < 56 then 55 - r else 119 - r) + 8) div 64 = (if r < 56 then a + 1 else a + 2)"
proof -
  show "(120 - (64 * a + r + 1) mod 64) mod 64 = (if r < 56 then 55 - r else 119 - r)"
  proof (cases "r = 63")
    case False
    then have "(64 * a + (r + 1)) mod 64 = r + 1"
      using assms by simp
    moreover have "(120 - (r + 1)) mod 64 = (if r < 56 then 55 - r else 119 - r)"
      using assms mod_add_self2 [of "55 - r" 64] by (cases "r < 56") simp_all
    ultimately show ?thesis
      by (simp only: add.assoc)
  qed simp
  have "64 * a + r + 1 + (if r < 56 then 55 - r else 119 - r) + 8 = 64 * (if r < 56 then a + 1 else a + 2)"
    using assms by simp
  then show "(64 * a + r + 1 + (if r < 56 then 55 - r else 119 - r) + 8) div 64 = (if r < 56 then a + 1 else a + 2)"
    by simp
qed

lemma groestl_pad_blocks:
  assumes "n div 8 \<le> length m"
  defines "d \<equiv> take (n div 8) m" and "w \<equiv> tail 64 (take (n div 8) m) @ [last_byte m n]"
  shows "blocks groestl_f 64 iv (groestl_pad m n) = (let h = blocks groestl_f 64 iv d; k = word_of_nat (length d div 64) in
    if length w \<le> 56 then groestl_f h (w @ replicate (56 - length w) 0 @ be64 (k + 1))
      else groestl_f (groestl_f h (w @ replicate (64 - length w) 0)) (replicate 56 0 @ be64 (k + 2)))"
proof -
  define a where "a = length d div 64"
  define r where "r = length d mod 64"
  have r: "r < 64" "64 * a + r = length d" "length (tail 64 d) = r" "length w = r + 1"
    by (simp_all add: a_def r_def length_tail w_def d_def [symmetric])
  define z where "z = (if r < 56 then 55 - r else 119 - r)"
  let ?k = "word_of_nat (if r < 56 then a + 1 else a + 2) :: u64"
  have pad: "groestl_pad m n = d @ [last_byte m n] @ replicate z 0 @ be64 ?k"
    using pad_arith [OF r(1), of a] unfolding r(2) z_def groestl_pad_def d_def [symmetric] Let_def by simp
  then have "blocks groestl_f 64 iv (groestl_pad m n)
      = blocks groestl_f 64 (blocks groestl_f 64 iv d) (w @ replicate z 0 @ be64 ?k)"
    unfolding pad w_def d_def [symmetric] by (subst blocks_append) simp
  also have "\<dots> = (if r < 56 then groestl_f (blocks groestl_f 64 iv d) (w @ replicate z 0 @ be64 ?k)
      else groestl_f (groestl_f (blocks groestl_f 64 iv d) (w @ replicate (64 - length w) 0)) (replicate 56 0 @ be64 ?k))"
  proof (cases "r < 56")
    case True
    then show ?thesis
      using r by (simp add: blocks_one z_def be64_def)
  next
    case False
    have z: "replicate z (0 :: byte) = replicate (64 - length w) 0 @ replicate 56 0"
      unfolding replicate_add [symmetric] using False r by (simp add: z_def)
    have "take 64 (w @ replicate z 0 @ be64 ?k) = w @ replicate (64 - length w) 0"
      "drop 64 (w @ replicate z 0 @ be64 ?k) = replicate 56 0 @ be64 ?k"
      unfolding z using r by simp_all
    then show ?thesis
      using False r blocks_step [of 64 "w @ replicate z 0 @ be64 ?k" groestl_f "blocks groestl_f 64 iv d"]
      by (simp add: blocks_one z_def be64_def)
  qed
  finally show ?thesis
    using r by (simp add: Let_def z_def a_def [symmetric] add.commute)
qed

text \<open>
  C11. For every message of \<open>n\<close> bits with fewer than \<open>2 ^ 31\<close> full bytes, and whatever the uninitialised context holds,
  \<^verbatim>\<open>groestl\<close> returns the hash of Groestl-256: the compression function with the permutations P and Q over the blocks of the padded
  message, and the output transformation.
\<close>

theorem groestl_correct:
  assumes "length (gbuffer context) = 64" "unat n div 8 < 2 ^ 31" "unat n div 8 \<le> length data"
  shows "groestl context data n = Some (spec_groestl data (unat n))"
proof -
  let ?n = "unat n"
  have n: "unat (n div 8) = ?n div 8" "unat (n mod 8) = ?n mod 8"
    by (simp_all add: unat_div unat_mod)
  obtain c where c: "groestl_rep c (take (?n div 8) data)"
    "groestl_Update (groestl_Init context) data n = Some (store_bits c data (?n div 8) (?n mod 8))"
    using groestl_update [OF groestl_init [OF assms(1)], of n data] assms(2,3) unfolding n by auto
  let ?w = "tail 64 (take (?n div 8) data) @ [last_byte data ?n]"
  have w: "length ?w \<le> 64"
    using mod_less_divisor [of 64 "length (take (?n div 8) data)"] by (simp add: length_tail Suc_le_eq)
  have close: "holds (close_last_byte (store_bits c data (?n div 8) (?n mod 8))) ?w"
    "groestl_at (close_last_byte (store_bits c data (?n div 8) (?n mod 8))) (blocks groestl_f 64 groestl_iv (take (?n div 8) data))
      (word_of_nat (length (take (?n div 8) data) div 64))"
    using close_rep [OF c(1), of ?n data] by simp_all
  have "snd (groestl_Final (store_bits c data (?n div 8) (?n mod 8))) = spec_groestl data ?n"
    unfolding spec_groestl_def groestl_pad_blocks [OF assms(3)] groestl_final [OF close w] Let_def by (rule refl)
  then show ?thesis
    by (simp add: groestl_def c(2))
qed

definition blank_groestl :: groestl_ctx where
  "blank_groestl = \<lparr>chaining = [], block_counter1 = 0, block_counter2 = 0, gbuffer = replicate 64 0, buf_ptr = 0, bits_in_last_byte = 0\<rparr>"

theorem groestl_correct_witness: "groestl blank_groestl [1, 2, 3] 21 = Some (spec_groestl [1, 2, 3] 21)"
  using groestl_correct [of blank_groestl 21 "[1, 2, 3]"] by (simp add: blank_groestl_def)

end
