(* ===== verification/Jh.thy ===== *)
theory Jh
  imports Keccak
begin

text \<open>
  The program of \<^verbatim>\<open>jh.c\<close> and \<^verbatim>\<open>hash-extra-jh.c\<close>: the bit-sliced permutation, the compression function and the context functions. The state
  \<^verbatim>\<open>x[8][2]\<close> is a list of 16 words, \<^verbatim>\<open>x[i][j]\<close> at index \<open>2 i + j\<close>. The copies between the message and the buffer are checked: a copy that reads
  past the message or writes past the buffer is an error of the model.
\<close>

section \<open>Tables\<close>

definition JH224_H0 :: "byte list" where
  "JH224_H0 =
     [0x2d, 0xfe, 0xdd, 0x62, 0xf9, 0x9a, 0x98, 0xac, 0xae, 0x7c, 0xac, 0xd6, 0x19, 0xd6, 0x34, 0xe7,
      0xa4, 0x83, 0x10, 0x05, 0xbc, 0x30, 0x12, 0x16, 0xb8, 0x60, 0x38, 0xc6, 0xc9, 0x66, 0x14, 0x94,
      0x66, 0xd9, 0x89, 0x9f, 0x25, 0x80, 0x70, 0x6f, 0xce, 0x9e, 0xa3, 0x1b, 0x1d, 0x9b, 0x1a, 0xdc,
      0x11, 0xe8, 0x32, 0x5f, 0x7b, 0x36, 0x6e, 0x10, 0xf9, 0x94, 0x85, 0x7f, 0x02, 0xfa, 0x06, 0xc1,
      0x1b, 0x4f, 0x1b, 0x5c, 0xd8, 0xc8, 0x40, 0xb3, 0x97, 0xf6, 0xa1, 0x7f, 0x6e, 0x73, 0x80, 0x99,
      0xdc, 0xdf, 0x93, 0xa5, 0xad, 0xea, 0xa3, 0xd3, 0xa4, 0x31, 0xe8, 0xde, 0xc9, 0x53, 0x9a, 0x68,
      0x22, 0xb4, 0xa9, 0x8a, 0xec, 0x86, 0xa1, 0xe4, 0xd5, 0x74, 0xac, 0x95, 0x9c, 0xe5, 0x6c, 0xf0,
      0x15, 0x96, 0x0d, 0xea, 0xb5, 0xab, 0x2b, 0xbf, 0x96, 0x11, 0xdc, 0xf0, 0xdd, 0x64, 0xea, 0x6e]"

definition JH256_H0 :: "byte list" where
  "JH256_H0 =
     [0xeb, 0x98, 0xa3, 0x41, 0x2c, 0x20, 0xd3, 0xeb, 0x92, 0xcd, 0xbe, 0x7b, 0x9c, 0xb2, 0x45, 0xc1,
      0x1c, 0x93, 0x51, 0x91, 0x60, 0xd4, 0xc7, 0xfa, 0x26, 0x00, 0x82, 0xd6, 0x7e, 0x50, 0x8a, 0x03,
      0xa4, 0x23, 0x9e, 0x26, 0x77, 0x26, 0xb9, 0x45, 0xe0, 0xfb, 0x1a, 0x48, 0xd4, 0x1a, 0x94, 0x77,
      0xcd, 0xb5, 0xab, 0x26, 0x02, 0x6b, 0x17, 0x7a, 0x56, 0xf0, 0x24, 0x42, 0x0f, 0xff, 0x2f, 0xa8,
      0x71, 0xa3, 0x96, 0x89, 0x7f, 0x2e, 0x4d, 0x75, 0x1d, 0x14, 0x49, 0x08, 0xf7, 0x7d, 0xe2, 0x62,
      0x27, 0x76, 0x95, 0xf7, 0x76, 0x24, 0x8f, 0x94, 0x87, 0xd5, 0xb6, 0x57, 0x47, 0x80, 0x29, 0x6c,
      0x5c, 0x5e, 0x27, 0x2d, 0xac, 0x8e, 0x0d, 0x6c, 0x51, 0x84, 0x50, 0xc6, 0x57, 0x05, 0x7a, 0x0f,
      0x7b, 0xe4, 0xd3, 0x67, 0x70, 0x24, 0x12, 0xea, 0x89, 0xe3, 0xab, 0x13, 0xd3, 0x1c, 0xd7, 0x69]"

definition JH384_H0 :: "byte list" where
  "JH384_H0 =
     [0x48, 0x1e, 0x3b, 0xc6, 0xd8, 0x13, 0x39, 0x8a, 0x6d, 0x3b, 0x5e, 0x89, 0x4a, 0xde, 0x87, 0x9b,
      0x63, 0xfa, 0xea, 0x68, 0xd4, 0x80, 0xad, 0x2e, 0x33, 0x2c, 0xcb, 0x21, 0x48, 0x0f, 0x82, 0x67,
      0x98, 0xae, 0xc8, 0x4d, 0x90, 0x82, 0xb9, 0x28, 0xd4, 0x55, 0xea, 0x30, 0x41, 0x11, 0x42, 0x49,
      0x36, 0xf5, 0x55, 0xb2, 0x92, 0x48, 0x47, 0xec, 0xc7, 0x25, 0x0a, 0x93, 0xba, 0xf4, 0x3c, 0xe1,
      0x56, 0x9b, 0x7f, 0x8a, 0x27, 0xdb, 0x45, 0x4c, 0x9e, 0xfc, 0xbd, 0x49, 0x63, 0x97, 0xaf, 0x0e,
      0x58, 0x9f, 0xc2, 0x7d, 0x26, 0xaa, 0x80, 0xcd, 0x80, 0xc0, 0x8b, 0x8c, 0x9d, 0xeb, 0x2e, 0xda,
      0x8a, 0x79, 0x81, 0xe8, 0xf8, 0xd5, 0x37, 0x3a, 0xf4, 0x39, 0x67, 0xad, 0xdd, 0xd1, 0x7a, 0x71,
      0xa9, 0xb4, 0xd3, 0xbd, 0xa4, 0x75, 0xd3, 0x94, 0x97, 0x6c, 0x3f, 0xba, 0x98, 0x42, 0x73, 0x7f]"

definition JH512_H0 :: "byte list" where
  "JH512_H0 =
     [0x6f, 0xd1, 0x4b, 0x96, 0x3e, 0x00, 0xaa, 0x17, 0x63, 0x6a, 0x2e, 0x05, 0x7a, 0x15, 0xd5, 0x43,
      0x8a, 0x22, 0x5e, 0x8d, 0x0c, 0x97, 0xef, 0x0b, 0xe9, 0x34, 0x12, 0x59, 0xf2, 0xb3, 0xc3, 0x61,
      0x89, 0x1d, 0xa0, 0xc1, 0x53, 0x6f, 0x80, 0x1e, 0x2a, 0xa9, 0x05, 0x6b, 0xea, 0x2b, 0x6d, 0x80,
      0x58, 0x8e, 0xcc, 0xdb, 0x20, 0x75, 0xba, 0xa6, 0xa9, 0x0f, 0x3a, 0x76, 0xba, 0xf8, 0x3b, 0xf7,
      0x01, 0x69, 0xe6, 0x05, 0x41, 0xe3, 0x4a, 0x69, 0x46, 0xb5, 0x8a, 0x8e, 0x2e, 0x6f, 0xe6, 0x5a,
      0x10, 0x47, 0xa7, 0xd0, 0xc1, 0x84, 0x3c, 0x24, 0x3b, 0x6e, 0x71, 0xb1, 0x2d, 0x5a, 0xc1, 0x99,
      0xcf, 0x57, 0xf6, 0xec, 0x9d, 0xb1, 0xf8, 0x56, 0xa7, 0x06, 0x88, 0x7c, 0x57, 0x16, 0xb1, 0x56,
      0xe3, 0xc2, 0xfc, 0xdf, 0xe6, 0x85, 0x17, 0xfb, 0x54, 0x5a, 0x46, 0x78, 0xcc, 0x8c, 0xdd, 0x4b]"

definition E8_bitslice_roundconstant :: "byte list list" where
  "E8_bitslice_roundconstant =
     [[0x72, 0xd5, 0xde, 0xa2, 0xdf, 0x15, 0xf8, 0x67, 0x7b, 0x84, 0x15, 0x0a, 0xb7, 0x23, 0x15, 0x57,
       0x81, 0xab, 0xd6, 0x90, 0x4d, 0x5a, 0x87, 0xf6, 0x4e, 0x9f, 0x4f, 0xc5, 0xc3, 0xd1, 0x2b, 0x40],
      [0xea, 0x98, 0x3a, 0xe0, 0x5c, 0x45, 0xfa, 0x9c, 0x03, 0xc5, 0xd2, 0x99, 0x66, 0xb2, 0x99, 0x9a,
       0x66, 0x02, 0x96, 0xb4, 0xf2, 0xbb, 0x53, 0x8a, 0xb5, 0x56, 0x14, 0x1a, 0x88, 0xdb, 0xa2, 0x31],
      [0x03, 0xa3, 0x5a, 0x5c, 0x9a, 0x19, 0x0e, 0xdb, 0x40, 0x3f, 0xb2, 0x0a, 0x87, 0xc1, 0x44, 0x10,
       0x1c, 0x05, 0x19, 0x80, 0x84, 0x9e, 0x95, 0x1d, 0x6f, 0x33, 0xeb, 0xad, 0x5e, 0xe7, 0xcd, 0xdc],
      [0x10, 0xba, 0x13, 0x92, 0x02, 0xbf, 0x6b, 0x41, 0xdc, 0x78, 0x65, 0x15, 0xf7, 0xbb, 0x27, 0xd0,
       0x0a, 0x2c, 0x81, 0x39, 0x37, 0xaa, 0x78, 0x50, 0x3f, 0x1a, 0xbf, 0xd2, 0x41, 0x00, 0x91, 0xd3],
      [0x42, 0x2d, 0x5a, 0x0d, 0xf6, 0xcc, 0x7e, 0x90, 0xdd, 0x62, 0x9f, 0x9c, 0x92, 0xc0, 0x97, 0xce,
       0x18, 0x5c, 0xa7, 0x0b, 0xc7, 0x2b, 0x44, 0xac, 0xd1, 0xdf, 0x65, 0xd6, 0x63, 0xc6, 0xfc, 0x23],
      [0x97, 0x6e, 0x6c, 0x03, 0x9e, 0xe0, 0xb8, 0x1a, 0x21, 0x05, 0x45, 0x7e, 0x44, 0x6c, 0xec, 0xa8,
       0xee, 0xf1, 0x03, 0xbb, 0x5d, 0x8e, 0x61, 0xfa, 0xfd, 0x96, 0x97, 0xb2, 0x94, 0x83, 0x81, 0x97],
      [0x4a, 0x8e, 0x85, 0x37, 0xdb, 0x03, 0x30, 0x2f, 0x2a, 0x67, 0x8d, 0x2d, 0xfb, 0x9f, 0x6a, 0x95,
       0x8a, 0xfe, 0x73, 0x81, 0xf8, 0xb8, 0x69, 0x6c, 0x8a, 0xc7, 0x72, 0x46, 0xc0, 0x7f, 0x42, 0x14],
      [0xc5, 0xf4, 0x15, 0x8f, 0xbd, 0xc7, 0x5e, 0xc4, 0x75, 0x44, 0x6f, 0xa7, 0x8f, 0x11, 0xbb, 0x80,
       0x52, 0xde, 0x75, 0xb7, 0xae, 0xe4, 0x88, 0xbc, 0x82, 0xb8, 0x00, 0x1e, 0x98, 0xa6, 0xa3, 0xf4],
      [0x8e, 0xf4, 0x8f, 0x33, 0xa9, 0xa3, 0x63, 0x15, 0xaa, 0x5f, 0x56, 0x24, 0xd5, 0xb7, 0xf9, 0x89,
       0xb6, 0xf1, 0xed, 0x20, 0x7c, 0x5a, 0xe0, 0xfd, 0x36, 0xca, 0xe9, 0x5a, 0x06, 0x42, 0x2c, 0x36],
      [0xce, 0x29, 0x35, 0x43, 0x4e, 0xfe, 0x98, 0x3d, 0x53, 0x3a, 0xf9, 0x74, 0x73, 0x9a, 0x4b, 0xa7,
       0xd0, 0xf5, 0x1f, 0x59, 0x6f, 0x4e, 0x81, 0x86, 0x0e, 0x9d, 0xad, 0x81, 0xaf, 0xd8, 0x5a, 0x9f],
      [0xa7, 0x05, 0x06, 0x67, 0xee, 0x34, 0x62, 0x6a, 0x8b, 0x0b, 0x28, 0xbe, 0x6e, 0xb9, 0x17, 0x27,
       0x47, 0x74, 0x07, 0x26, 0xc6, 0x80, 0x10, 0x3f, 0xe0, 0xa0, 0x7e, 0x6f, 0xc6, 0x7e, 0x48, 0x7b],
      [0x0d, 0x55, 0x0a, 0xa5, 0x4a, 0xf8, 0xa4, 0xc0, 0x91, 0xe3, 0xe7, 0x9f, 0x97, 0x8e, 0xf1, 0x9e,
       0x86, 0x76, 0x72, 0x81, 0x50, 0x60, 0x8d, 0xd4, 0x7e, 0x9e, 0x5a, 0x41, 0xf3, 0xe5, 0xb0, 0x62],
      [0xfc, 0x9f, 0x1f, 0xec, 0x40, 0x54, 0x20, 0x7a, 0xe3, 0xe4, 0x1a, 0x00, 0xce, 0xf4, 0xc9, 0x84,
       0x4f, 0xd7, 0x94, 0xf5, 0x9d, 0xfa, 0x95, 0xd8, 0x55, 0x2e, 0x7e, 0x11, 0x24, 0xc3, 0x54, 0xa5],
      [0x5b, 0xdf, 0x72, 0x28, 0xbd, 0xfe, 0x6e, 0x28, 0x78, 0xf5, 0x7f, 0xe2, 0x0f, 0xa5, 0xc4, 0xb2,
       0x05, 0x89, 0x7c, 0xef, 0xee, 0x49, 0xd3, 0x2e, 0x44, 0x7e, 0x93, 0x85, 0xeb, 0x28, 0x59, 0x7f],
      [0x70, 0x5f, 0x69, 0x37, 0xb3, 0x24, 0x31, 0x4a, 0x5e, 0x86, 0x28, 0xf1, 0x1d, 0xd6, 0xe4, 0x65,
       0xc7, 0x1b, 0x77, 0x04, 0x51, 0xb9, 0x20, 0xe7, 0x74, 0xfe, 0x43, 0xe8, 0x23, 0xd4, 0x87, 0x8a],
      [0x7d, 0x29, 0xe8, 0xa3, 0x92, 0x76, 0x94, 0xf2, 0xdd, 0xcb, 0x7a, 0x09, 0x9b, 0x30, 0xd9, 0xc1,
       0x1d, 0x1b, 0x30, 0xfb, 0x5b, 0xdc, 0x1b, 0xe0, 0xda, 0x24, 0x49, 0x4f, 0xf2, 0x9c, 0x82, 0xbf],
      [0xa4, 0xe7, 0xba, 0x31, 0xb4, 0x70, 0xbf, 0xff, 0x0d, 0x32, 0x44, 0x05, 0xde, 0xf8, 0xbc, 0x48,
       0x3b, 0xae, 0xfc, 0x32, 0x53, 0xbb, 0xd3, 0x39, 0x45, 0x9f, 0xc3, 0xc1, 0xe0, 0x29, 0x8b, 0xa0],
      [0xe5, 0xc9, 0x05, 0xfd, 0xf7, 0xae, 0x09, 0x0f, 0x94, 0x70, 0x34, 0x12, 0x42, 0x90, 0xf1, 0x34,
       0xa2, 0x71, 0xb7, 0x01, 0xe3, 0x44, 0xed, 0x95, 0xe9, 0x3b, 0x8e, 0x36, 0x4f, 0x2f, 0x98, 0x4a],
      [0x88, 0x40, 0x1d, 0x63, 0xa0, 0x6c, 0xf6, 0x15, 0x47, 0xc1, 0x44, 0x4b, 0x87, 0x52, 0xaf, 0xff,
       0x7e, 0xbb, 0x4a, 0xf1, 0xe2, 0x0a, 0xc6, 0x30, 0x46, 0x70, 0xb6, 0xc5, 0xcc, 0x6e, 0x8c, 0xe6],
      [0xa4, 0xd5, 0xa4, 0x56, 0xbd, 0x4f, 0xca, 0x00, 0xda, 0x9d, 0x84, 0x4b, 0xc8, 0x3e, 0x18, 0xae,
       0x73, 0x57, 0xce, 0x45, 0x30, 0x64, 0xd1, 0xad, 0xe8, 0xa6, 0xce, 0x68, 0x14, 0x5c, 0x25, 0x67],
      [0xa3, 0xda, 0x8c, 0xf2, 0xcb, 0x0e, 0xe1, 0x16, 0x33, 0xe9, 0x06, 0x58, 0x9a, 0x94, 0x99, 0x9a,
       0x1f, 0x60, 0xb2, 0x20, 0xc2, 0x6f, 0x84, 0x7b, 0xd1, 0xce, 0xac, 0x7f, 0xa0, 0xd1, 0x85, 0x18],
      [0x32, 0x59, 0x5b, 0xa1, 0x8d, 0xdd, 0x19, 0xd3, 0x50, 0x9a, 0x1c, 0xc0, 0xaa, 0xa5, 0xb4, 0x46,
       0x9f, 0x3d, 0x63, 0x67, 0xe4, 0x04, 0x6b, 0xba, 0xf6, 0xca, 0x19, 0xab, 0x0b, 0x56, 0xee, 0x7e],
      [0x1f, 0xb1, 0x79, 0xea, 0xa9, 0x28, 0x21, 0x74, 0xe9, 0xbd, 0xf7, 0x35, 0x3b, 0x36, 0x51, 0xee,
       0x1d, 0x57, 0xac, 0x5a, 0x75, 0x50, 0xd3, 0x76, 0x3a, 0x46, 0xc2, 0xfe, 0xa3, 0x7d, 0x70, 0x01],
      [0xf7, 0x35, 0xc1, 0xaf, 0x98, 0xa4, 0xd8, 0x42, 0x78, 0xed, 0xec, 0x20, 0x9e, 0x6b, 0x67, 0x79,
       0x41, 0x83, 0x63, 0x15, 0xea, 0x3a, 0xdb, 0xa8, 0xfa, 0xc3, 0x3b, 0x4d, 0x32, 0x83, 0x2c, 0x83],
      [0xa7, 0x40, 0x3b, 0x1f, 0x1c, 0x27, 0x47, 0xf3, 0x59, 0x40, 0xf0, 0x34, 0xb7, 0x2d, 0x76, 0x9a,
       0xe7, 0x3e, 0x4e, 0x6c, 0xd2, 0x21, 0x4f, 0xfd, 0xb8, 0xfd, 0x8d, 0x39, 0xdc, 0x57, 0x59, 0xef],
      [0x8d, 0x9b, 0x0c, 0x49, 0x2b, 0x49, 0xeb, 0xda, 0x5b, 0xa2, 0xd7, 0x49, 0x68, 0xf3, 0x70, 0x0d,
       0x7d, 0x3b, 0xae, 0xd0, 0x7a, 0x8d, 0x55, 0x84, 0xf5, 0xa5, 0xe9, 0xf0, 0xe4, 0xf8, 0x8e, 0x65],
      [0xa0, 0xb8, 0xa2, 0xf4, 0x36, 0x10, 0x3b, 0x53, 0x0c, 0xa8, 0x07, 0x9e, 0x75, 0x3e, 0xec, 0x5a,
       0x91, 0x68, 0x94, 0x92, 0x56, 0xe8, 0x88, 0x4f, 0x5b, 0xb0, 0x5c, 0x55, 0xf8, 0xba, 0xbc, 0x4c],
      [0xe3, 0xbb, 0x3b, 0x99, 0xf3, 0x87, 0x94, 0x7b, 0x75, 0xda, 0xf4, 0xd6, 0x72, 0x6b, 0x1c, 0x5d,
       0x64, 0xae, 0xac, 0x28, 0xdc, 0x34, 0xb3, 0x6d, 0x6c, 0x34, 0xa5, 0x50, 0xb8, 0x28, 0xdb, 0x71],
      [0xf8, 0x61, 0xe2, 0xf2, 0x10, 0x8d, 0x51, 0x2a, 0xe3, 0xdb, 0x64, 0x33, 0x59, 0xdd, 0x75, 0xfc,
       0x1c, 0xac, 0xbc, 0xf1, 0x43, 0xce, 0x3f, 0xa2, 0x67, 0xbb, 0xd1, 0x3c, 0x02, 0xe8, 0x43, 0xb0],
      [0x33, 0x0a, 0x5b, 0xca, 0x88, 0x29, 0xa1, 0x75, 0x7f, 0x34, 0x19, 0x4d, 0xb4, 0x16, 0x53, 0x5c,
       0x92, 0x3b, 0x94, 0xc3, 0x0e, 0x79, 0x4d, 0x1e, 0x79, 0x74, 0x75, 0xd7, 0xb6, 0xee, 0xaf, 0x3f],
      [0xea, 0xa8, 0xd4, 0xf7, 0xbe, 0x1a, 0x39, 0x21, 0x5c, 0xf4, 0x7e, 0x09, 0x4c, 0x23, 0x27, 0x51,
       0x26, 0xa3, 0x24, 0x53, 0xba, 0x32, 0x3c, 0xd2, 0x44, 0xa3, 0x17, 0x4a, 0x6d, 0xa6, 0xd5, 0xad],
      [0xb5, 0x1d, 0x3e, 0xa6, 0xaf, 0xf2, 0xc9, 0x08, 0x83, 0x59, 0x3d, 0x98, 0x91, 0x6b, 0x3c, 0x56,
       0x4c, 0xf8, 0x7c, 0xa1, 0x72, 0x86, 0x60, 0x4d, 0x46, 0xe2, 0x3e, 0xcc, 0x08, 0x6e, 0xc7, 0xf6],
      [0x2f, 0x98, 0x33, 0xb3, 0xb1, 0xbc, 0x76, 0x5e, 0x2b, 0xd6, 0x66, 0xa5, 0xef, 0xc4, 0xe6, 0x2a,
       0x06, 0xf4, 0xb6, 0xe8, 0xbe, 0xc1, 0xd4, 0x36, 0x74, 0xee, 0x82, 0x15, 0xbc, 0xef, 0x21, 0x63],
      [0xfd, 0xc1, 0x4e, 0x0d, 0xf4, 0x53, 0xc9, 0x69, 0xa7, 0x7d, 0x5a, 0xc4, 0x06, 0x58, 0x58, 0x26,
       0x7e, 0xc1, 0x14, 0x16, 0x06, 0xe0, 0xfa, 0x16, 0x7e, 0x90, 0xaf, 0x3d, 0x28, 0x63, 0x9d, 0x3f],
      [0xd2, 0xc9, 0xf2, 0xe3, 0x00, 0x9b, 0xd2, 0x0c, 0x5f, 0xaa, 0xce, 0x30, 0xb7, 0xd4, 0x0c, 0x30,
       0x74, 0x2a, 0x51, 0x16, 0xf2, 0xe0, 0x32, 0x98, 0x0d, 0xeb, 0x30, 0xd8, 0xe3, 0xce, 0xf8, 0x9a],
      [0x4b, 0xc5, 0x9e, 0x7b, 0xb5, 0xf1, 0x79, 0x92, 0xff, 0x51, 0xe6, 0x6e, 0x04, 0x86, 0x68, 0xd3,
       0x9b, 0x23, 0x4d, 0x57, 0xe6, 0x96, 0x67, 0x31, 0xcc, 0xe6, 0xa6, 0xf3, 0x17, 0x0a, 0x75, 0x05],
      [0xb1, 0x76, 0x81, 0xd9, 0x13, 0x32, 0x6c, 0xce, 0x3c, 0x17, 0x52, 0x84, 0xf8, 0x05, 0xa2, 0x62,
       0xf4, 0x2b, 0xcb, 0xb3, 0x78, 0x47, 0x15, 0x47, 0xff, 0x46, 0x54, 0x82, 0x23, 0x93, 0x6a, 0x48],
      [0x38, 0xdf, 0x58, 0x07, 0x4e, 0x5e, 0x65, 0x65, 0xf2, 0xfc, 0x7c, 0x89, 0xfc, 0x86, 0x50, 0x8e,
       0x31, 0x70, 0x2e, 0x44, 0xd0, 0x0b, 0xca, 0x86, 0xf0, 0x40, 0x09, 0xa2, 0x30, 0x78, 0x47, 0x4e],
      [0x65, 0xa0, 0xee, 0x39, 0xd1, 0xf7, 0x38, 0x83, 0xf7, 0x5e, 0xe9, 0x37, 0xe4, 0x2c, 0x3a, 0xbd,
       0x21, 0x97, 0xb2, 0x26, 0x01, 0x13, 0xf8, 0x6f, 0xa3, 0x44, 0xed, 0xd1, 0xef, 0x9f, 0xde, 0xe7],
      [0x8b, 0xa0, 0xdf, 0x15, 0x76, 0x25, 0x92, 0xd9, 0x3c, 0x85, 0xf7, 0xf6, 0x12, 0xdc, 0x42, 0xbe,
       0xd8, 0xa7, 0xec, 0x7c, 0xab, 0x27, 0xb0, 0x7e, 0x53, 0x8d, 0x7d, 0xda, 0xaa, 0x3e, 0xa8, 0xde],
      [0xaa, 0x25, 0xce, 0x93, 0xbd, 0x02, 0x69, 0xd8, 0x5a, 0xf6, 0x43, 0xfd, 0x1a, 0x73, 0x08, 0xf9,
       0xc0, 0x5f, 0xef, 0xda, 0x17, 0x4a, 0x19, 0xa5, 0x97, 0x4d, 0x66, 0x33, 0x4c, 0xfd, 0x21, 0x6a],
      [0x35, 0xb4, 0x98, 0x31, 0xdb, 0x41, 0x15, 0x70, 0xea, 0x1e, 0x0f, 0xbb, 0xed, 0xcd, 0x54, 0x9b,
       0x9a, 0xd0, 0x63, 0xa1, 0x51, 0x97, 0x40, 0x72, 0xf6, 0x75, 0x9d, 0xbf, 0x91, 0x47, 0x6f, 0xe2]]"

section \<open>The permutation\<close>

definition SWAP1 :: "u64 \<Rightarrow> u64" where
  "SWAP1 x = push_bit 1 (x AND 0x5555555555555555) OR drop_bit 1 (x AND 0xaaaaaaaaaaaaaaaa)"

definition SWAP2 :: "u64 \<Rightarrow> u64" where
  "SWAP2 x = push_bit 2 (x AND 0x3333333333333333) OR drop_bit 2 (x AND 0xcccccccccccccccc)"

definition SWAP4 :: "u64 \<Rightarrow> u64" where
  "SWAP4 x = push_bit 4 (x AND 0x0f0f0f0f0f0f0f0f) OR drop_bit 4 (x AND 0xf0f0f0f0f0f0f0f0)"

definition SWAP8 :: "u64 \<Rightarrow> u64" where
  "SWAP8 x = push_bit 8 (x AND 0x00ff00ff00ff00ff) OR drop_bit 8 (x AND 0xff00ff00ff00ff00)"

definition SWAP16 :: "u64 \<Rightarrow> u64" where
  "SWAP16 x = push_bit 16 (x AND 0x0000ffff0000ffff) OR drop_bit 16 (x AND 0xffff0000ffff0000)"

definition SWAP32 :: "u64 \<Rightarrow> u64" where
  "SWAP32 x = push_bit 32 x OR drop_bit 32 x"

text \<open>The layers on the eight words of one half of the rows, in the order in which the macros take them.\<close>

type_synonym row8 = "u64 \<times> u64 \<times> u64 \<times> u64 \<times> u64 \<times> u64 \<times> u64 \<times> u64"

definition jh_L :: "row8 \<Rightarrow> row8" where
  "jh_L = (\<lambda>(m0, m1, m2, m3, m4, m5, m6, m7).
     let m4 = m4 XOR m1;
         m5 = m5 XOR m2;
         m6 = m6 XOR (m0 XOR m3);
         m7 = m7 XOR m0;
         m0 = m0 XOR m5;
         m1 = m1 XOR m6;
         m2 = m2 XOR (m4 XOR m7);
         m3 = m3 XOR m4
     in (m0, m1, m2, m3, m4, m5, m6, m7))"

definition SS :: "u64 \<Rightarrow> u64 \<Rightarrow> row8 \<Rightarrow> row8" where
  "SS cc0 cc1 = (\<lambda>(m0, m1, m2, m3, m4, m5, m6, m7).
     let m3 = NOT m3;
         m7 = NOT m7;
         m0 = m0 XOR (NOT m2 AND cc0);
         m4 = m4 XOR (NOT m6 AND cc1);
         temp0 = cc0 XOR (m0 AND m1);
         temp1 = cc1 XOR (m4 AND m5);
         m0 = m0 XOR (m2 AND m3);
         m4 = m4 XOR (m6 AND m7);
         m3 = m3 XOR (NOT m1 AND m2);
         m7 = m7 XOR (NOT m5 AND m6);
         m1 = m1 XOR (m0 AND m2);
         m5 = m5 XOR (m4 AND m6);
         m2 = m2 XOR (m0 AND NOT m3);
         m6 = m6 XOR (m4 AND NOT m7);
         m0 = m0 XOR (m1 OR m3);
         m4 = m4 XOR (m5 OR m7);
         m3 = m3 XOR (m1 AND m2);
         m7 = m7 XOR (m5 AND m6);
         m1 = m1 XOR (temp0 AND m0);
         m5 = m5 XOR (temp1 AND m4);
         m2 = m2 XOR temp0;
         m6 = m6 XOR temp1
     in (m0, m1, m2, m3, m4, m5, m6, m7))"

text \<open>
  The body of the loops over \<open>i\<close>: the constants of round \<open>r\<close>, the substitution, the linear layer, and the exchange of bits within the
  words of the odd rows (none in the last of seven rounds).
\<close>

definition E8_half :: "(u64 \<Rightarrow> u64) \<Rightarrow> nat \<Rightarrow> nat \<Rightarrow> u64 list \<Rightarrow> u64 list" where
  "E8_half swap r i x =
     (let c = E8_bitslice_roundconstant ! r;
          (m0, m1, m2, m3, m4, m5, m6, m7) =
            SS (load64 c i) (load64 c (i + 2)) (x ! (0 + i), x ! (4 + i), x ! (8 + i), x ! (12 + i), x ! (2 + i), x ! (6 + i), x ! (10 + i), x ! (14 + i));
          (m0, m1, m2, m3, m4, m5, m6, m7) = jh_L (m0, m1, m2, m3, m4, m5, m6, m7)
      in x[0 + i := m0, 4 + i := m1, 8 + i := m2, 12 + i := m3, 2 + i := swap m4, 6 + i := swap m5, 10 + i := swap m6, 14 + i := swap m7])"

definition E8_layer :: "(u64 \<Rightarrow> u64) \<Rightarrow> nat \<Rightarrow> u64 list \<Rightarrow> u64 list" where
  "E8_layer swap r x = fold (E8_half swap r) [0, 1] x"

definition swap_halves :: "u64 list \<Rightarrow> u64 list" where
  "swap_halves x = fold (\<lambda>i x. x[2 * i := x ! (2 * i + 1), 2 * i + 1 := x ! (2 * i)]) [1, 3, 5, 7] x"

definition E8_seven :: "nat \<Rightarrow> u64 list \<Rightarrow> u64 list" where
  "E8_seven roundnumber x =
     (let x = E8_layer SWAP1 (roundnumber + 0) x;
          x = E8_layer SWAP2 (roundnumber + 1) x;
          x = E8_layer SWAP4 (roundnumber + 2) x;
          x = E8_layer SWAP8 (roundnumber + 3) x;
          x = E8_layer SWAP16 (roundnumber + 4) x;
          x = E8_layer SWAP32 (roundnumber + 5) x;
          x = E8_layer (\<lambda>w. w) (roundnumber + 6) x
      in swap_halves x)"

definition E8 :: "u64 list \<Rightarrow> u64 list" where
  "E8 x = fold E8_seven [0, 7, 14, 21, 28, 35] x"

section \<open>The context\<close>

record jh_state =
  hashbitlen :: int
  databitlen :: u64
  datasize_in_buffer :: u64
  jh_x :: "u64 list"
  jbuffer :: "byte list"

datatype jh_error = Out_of_bounds

datatype HashReturn = SUCCESS | FAIL | BAD_HASHLEN

definition F8 :: "jh_state \<Rightarrow> jh_state" where
  "F8 state =
     (let b = jbuffer state;
          x = fold (\<lambda>i x. x[i := x ! i XOR load64 b i]) [0..<8] (jh_x state);
          x = E8 x;
          x = fold (\<lambda>i x. x[8 + i := x ! (8 + i) XOR load64 b i]) [0..<8] x
      in state\<lparr>jh_x := x\<rparr>)"

definition load_state :: "byte list \<Rightarrow> u64 list" where
  "load_state b = map (load64 b) [0..<16]"

definition jh_Init :: "jh_state \<Rightarrow> int \<Rightarrow> jh_state" where
  "jh_Init state hbl =
     (let state = state\<lparr>databitlen := 0, datasize_in_buffer := 0, hashbitlen := hbl\<rparr>
      in if hbl = 224 then state\<lparr>jh_x := load_state JH224_H0\<rparr>
         else if hbl = 256 then state\<lparr>jh_x := load_state JH256_H0\<rparr>
         else if hbl = 384 then state\<lparr>jh_x := load_state JH384_H0\<rparr>
         else if hbl = 512 then state\<lparr>jh_x := load_state JH512_H0\<rparr>
         else state)"

text \<open>\<^verbatim>\<open>memcpy(state->buffer + off, data + start, n)\<close>\<close>

definition copy_in :: "jh_state \<Rightarrow> nat \<Rightarrow> byte list \<Rightarrow> nat \<Rightarrow> nat \<Rightarrow> jh_error + jh_state" where
  "copy_in state off data start n =
     (if start + n \<le> length data \<and> off + n \<le> 64
      then Inr (state\<lparr>jbuffer := memcpy (jbuffer state) off (take n (drop start data))\<rparr>) else Inl Out_of_bounds)"

function jh_blocks :: "jh_state \<Rightarrow> byte list \<Rightarrow> u64 \<Rightarrow> u64 \<Rightarrow> jh_error + (jh_state \<times> u64 \<times> u64)" where
  "jh_blocks state data index dbl =
     (if 512 \<le> dbl then
        (case copy_in state 0 data (unat index) 64 of
           Inl e \<Rightarrow> Inl e
         | Inr state \<Rightarrow> jh_blocks (F8 state) data (index + 64) (dbl - 512))
      else Inr (state, index, dbl))"
  by auto
termination
  by (relation "measure (\<lambda>(state, data, index, dbl). unat dbl)") (auto simp: word_le_nat_alt unat_sub)

declare jh_blocks.simps [simp del]

definition jh_rest :: "jh_state \<Rightarrow> byte list \<Rightarrow> u64 \<Rightarrow> u64 \<Rightarrow> jh_error + jh_state" where
  "jh_rest state data index dbl =
     (if 0 < dbl then
        (case (if dbl AND 7 = 0 then copy_in state 0 data (unat index) (unat (drop_bit 3 (dbl AND 0x1ff)))
               else copy_in state 0 data (unat index) (unat (drop_bit 3 (dbl AND 0x1ff)) + 1)) of
           Inl e \<Rightarrow> Inl e
         | Inr state \<Rightarrow> Inr (state\<lparr>datasize_in_buffer := dbl\<rparr>))
      else Inr state)"

text \<open>The two cases in which the buffer has data: the rest of the data, the index and the number of bits that remain.\<close>

definition jh_fill :: "jh_state \<Rightarrow> byte list \<Rightarrow> u64 \<Rightarrow> jh_error + (jh_state \<times> u64 \<times> u64)" where
  "jh_fill state data dbl =
     (let n = datasize_in_buffer state in
      if 0 < n \<and> n + dbl < 512 then
        (case (if dbl AND 7 = 0 then copy_in state (unat (drop_bit 3 n)) data 0 (unat (64 - drop_bit 3 n))
               else copy_in state (unat (drop_bit 3 n)) data 0 (unat (64 - drop_bit 3 n + 1))) of
           Inl e \<Rightarrow> Inl e
         | Inr state \<Rightarrow> Inr (state\<lparr>datasize_in_buffer := n + dbl\<rparr>, 0, 0))
      else if 0 < n \<and> 512 \<le> n + dbl then
        (case copy_in state (unat (drop_bit 3 n)) data 0 (unat (64 - drop_bit 3 n)) of
           Inl e \<Rightarrow> Inl e
         | Inr state \<Rightarrow> Inr ((F8 state)\<lparr>datasize_in_buffer := 0\<rparr>, 64 - drop_bit 3 n, dbl - (512 - n)))
      else Inr (state, 0, dbl))"

definition jh_Update :: "jh_state \<Rightarrow> byte list \<Rightarrow> u64 \<Rightarrow> jh_error + jh_state" where
  "jh_Update state data dbl =
     (let state = state\<lparr>databitlen := databitlen state + dbl\<rparr> in
      case jh_fill state data dbl of
        Inl e \<Rightarrow> Inl e
      | Inr (state, index, dbl) \<Rightarrow>
          (case jh_blocks state data index dbl of
             Inl e \<Rightarrow> Inl e
           | Inr (state, index, dbl) \<Rightarrow> jh_rest state data index dbl))"

definition length_block :: "u64 \<Rightarrow> byte list \<Rightarrow> byte list" where
  "length_block n b =
     b[63 := ucast (n AND 0xff), 62 := ucast (drop_bit 8 n AND 0xff), 61 := ucast (drop_bit 16 n AND 0xff),
       60 := ucast (drop_bit 24 n AND 0xff), 59 := ucast (drop_bit 32 n AND 0xff), 58 := ucast (drop_bit 40 n AND 0xff),
       57 := ucast (drop_bit 48 n AND 0xff), 56 := ucast (drop_bit 56 n AND 0xff)]"

definition zero_from :: "nat \<Rightarrow> byte list \<Rightarrow> byte list" where
  "zero_from k b = fold (\<lambda>i b. b[i := 0]) [k..<64] b"

definition jh_digest :: "jh_state \<Rightarrow> byte list option" where
  "jh_digest state =
     (let x = concat (map store64 (jh_x state))
      in if hashbitlen state = 224 then Some (take 28 (drop (64 + 36) x))
         else if hashbitlen state = 256 then Some (take 32 (drop (64 + 32) x))
         else if hashbitlen state = 384 then Some (take 48 (drop (64 + 16) x))
         else if hashbitlen state = 512 then Some (take 64 (drop 64 x))
         else None)"

text \<open>The digest is \<^const>\<open>None\<close> when nothing is written.\<close>

definition jh_Final :: "jh_state \<Rightarrow> jh_state \<times> byte list option" where
  "jh_Final state =
     (let n = databitlen state; k = unat (drop_bit 3 (n AND 0x1ff)) in
      if n AND 0x1ff = 0 then
        (let b = (replicate 64 0)[0 := 0x80];
             state = F8 (state\<lparr>jbuffer := length_block n b\<rparr>)
         in (state, jh_digest state))
      else
        (let b = (if datasize_in_buffer state AND 7 = 0 then zero_from k (jbuffer state) else zero_from (k + 1) (jbuffer state));
             b = b[k := b ! k OR push_bit (unat (7 - (n AND 7))) 1];
             state = F8 (state\<lparr>jbuffer := b\<rparr>);
             state = F8 (state\<lparr>jbuffer := length_block n (replicate 64 0)\<rparr>)
         in (state, jh_digest state)))"

definition jh_hash :: "jh_state \<Rightarrow> int \<Rightarrow> byte list \<Rightarrow> u64 \<Rightarrow> jh_error + (HashReturn \<times> byte list option)" where
  "jh_hash state hbl data dbl =
     (if hbl = 224 \<or> hbl = 256 \<or> hbl = 384 \<or> hbl = 512 then
        (case jh_Update (jh_Init state hbl) data dbl of
           Inl e \<Rightarrow> Inl e
         | Inr state \<Rightarrow> Inr (SUCCESS, snd (jh_Final state)))
      else Inr (BAD_HASHLEN, None))"

text \<open>The assertion that the hash succeeds is the outer option.\<close>

definition hash_extra_jh :: "jh_state \<Rightarrow> byte list \<Rightarrow> u64 \<Rightarrow> (jh_error + byte list option) option" where
  "hash_extra_jh state data len =
     (case jh_hash state (32 * 8) data (8 * len) of
        Inl e \<Rightarrow> Some (Inl e)
      | Inr (r, h) \<Rightarrow> (if r = SUCCESS then Some (Inr h) else None))"

end
