(* ===== verification/JhSpec.thy ===== *)
theory JhSpec
  imports Prelude
begin

text \<open>
  The definition of JH: a state of 256 elements of four bits, the two substitutions that the bits of the round constants select, the linear
  transformation of pairs of elements over the field of 16 elements, the permutation of the elements, and the round constants, which a smaller
  instance of the round generates from the fractional part of the square root of two.
\<close>

section \<open>Elements\<close>

type_synonym nibble = "bool \<times> bool \<times> bool \<times> bool"

definition nibble_of :: "nat \<Rightarrow> nibble" where
  "nibble_of n = (bit n 3, bit n 2, bit n 1, bit n 0)"

definition nibble_val :: "nibble \<Rightarrow> nat" where
  "nibble_val = (\<lambda>(a, b, c, d). 8 * of_bool a + 4 * of_bool b + 2 * of_bool c + of_bool d)"

text \<open>The substitutions \<open>S\<^sub>0\<close> and \<open>S\<^sub>1\<close>.\<close>

definition S_tables :: "bool \<Rightarrow> nat list" where
  "S_tables k = (if k then [3, 12, 6, 13, 5, 7, 1, 9, 15, 2, 0, 4, 11, 10, 14, 8]
     else [9, 0, 4, 11, 13, 12, 3, 15, 1, 10, 2, 6, 7, 5, 8, 14])"

definition S_box :: "bool \<Rightarrow> nibble \<Rightarrow> nibble" where
  "S_box k a = nibble_of (S_tables k ! nibble_val a)"

text \<open>The first component is the highest coefficient; the field has the polynomial \<open>x ^ 4 + x + 1\<close>.\<close>

fun xor4 :: "nibble \<Rightarrow> nibble \<Rightarrow> nibble" where
  "xor4 (a, b, c, d) (e, f, g, h) = (a \<noteq> e, b \<noteq> f, c \<noteq> g, d \<noteq> h)"

fun times_x :: "nibble \<Rightarrow> nibble" where
  "times_x (a, b, c, d) = (b, c, d \<noteq> a, a)"

text \<open>The linear transformation: \<open>D = B + 2 A\<close> and \<open>C = A + 2 D\<close>.\<close>

definition mds_D :: "nibble \<Rightarrow> nibble \<Rightarrow> nibble" where
  "mds_D a b = xor4 b (times_x a)"

definition mds_C :: "nibble \<Rightarrow> nibble \<Rightarrow> nibble" where
  "mds_C a b = xor4 a (times_x (mds_D a b))"

section \<open>Rounds\<close>

fun linear_layer :: "nibble list \<Rightarrow> nibble list" where
  "linear_layer (a # b # xs) = mds_C a b # mds_D a b # linear_layer xs"
| "linear_layer xs = xs"

fun evens :: "'a list \<Rightarrow> 'a list" where
  "evens (a # b # xs) = a # evens xs"
| "evens xs = xs"

fun odds :: "'a list \<Rightarrow> 'a list" where
  "odds (a # b # xs) = b # odds xs"
| "odds xs = []"

text \<open>The permutation: \<open>\<pi>\<close> exchanges the last two of four elements, \<open>P'\<close> separates the elements at even and odd places, and \<open>\<phi>\<close> exchanges neighbours in the second
  half.\<close>

fun perm_pi :: "'a list \<Rightarrow> 'a list" where
  "perm_pi (a # b # c # d # xs) = a # b # d # c # perm_pi xs"
| "perm_pi xs = xs"

fun swap_pairs :: "'a list \<Rightarrow> 'a list" where
  "swap_pairs (a # b # xs) = b # a # swap_pairs xs"
| "swap_pairs xs = xs"

definition permutation :: "'a list \<Rightarrow> 'a list" where
  "permutation xs = (let ys = perm_pi xs in evens ys @ swap_pairs (odds ys))"

definition jh_round :: "bool list \<Rightarrow> nibble list \<Rightarrow> nibble list" where
  "jh_round c A = permutation (linear_layer (map2 S_box c A))"

text \<open>The constants of the rounds: 64 elements, 256 bits.\<close>

definition C_0 :: "nibble list" where
  "C_0 = map nibble_of
     [6, 10, 0, 9, 14, 6, 6, 7, 15, 3, 11, 12, 12, 9, 0, 8,
      11, 2, 15, 11, 1, 3, 6, 6, 14, 10, 9, 5, 7, 13, 3, 14,
      3, 10, 13, 14, 12, 1, 7, 5, 1, 2, 7, 7, 5, 0, 9, 9,
      13, 10, 2, 15, 5, 9, 0, 11, 0, 6, 6, 7, 3, 2, 2, 10]"

primrec round_constant :: "nat \<Rightarrow> nibble list" where
  "round_constant 0 = C_0"
| "round_constant (Suc r) = jh_round (replicate 64 False) (round_constant r)"

definition nibble_bits :: "nibble list \<Rightarrow> bool list" where
  "nibble_bits A = concat (map (\<lambda>(a, b, c, d). [a, b, c, d]) A)"

definition spec_E8_rounds :: "nibble list \<Rightarrow> nibble list" where
  "spec_E8_rounds A = fold (\<lambda>r. jh_round (nibble_bits (round_constant r))) [0..<42] A"

section \<open>Grouping\<close>

text \<open>The bits of a byte string, the highest of a byte first.\<close>

definition byte_bits :: "byte \<Rightarrow> bool list" where
  "byte_bits b = [bit b 7, bit b 6, bit b 5, bit b 4, bit b 3, bit b 2, bit b 1, bit b 0]"

definition msb_bits :: "byte list \<Rightarrow> bool list" where
  "msb_bits s = concat (map byte_bits s)"

fun bits_byte :: "bool list \<Rightarrow> byte" where
  "bits_byte bs = foldl (\<lambda>w b. push_bit 1 w OR of_bool b) 0 bs"

fun bits_bytes :: "bool list \<Rightarrow> byte list" where
  "bits_bytes (a # b # c # d # e # f # g # h # bs) = bits_byte [a, b, c, d, e, f, g, h] # bits_bytes bs"
| "bits_bytes _ = []"

fun interleave :: "'a list \<Rightarrow> 'a list \<Rightarrow> 'a list" where
  "interleave (a # as) (b # bs) = a # b # interleave as bs"
| "interleave _ _ = []"

text \<open>The eight rows of 128 bits of the state; the elements at even places have their bits in the rows 0, 2, 4 and 6.\<close>

definition bit_row :: "bool list \<Rightarrow> nat \<Rightarrow> bool list" where
  "bit_row h j = take 128 (drop (128 * j) h)"

definition grouping :: "byte list \<Rightarrow> nibble list" where
  "grouping H = (let h = msb_bits H; r = bit_row h in
     interleave (zip (r 0) (zip (r 2) (zip (r 4) (r 6)))) (zip (r 1) (zip (r 3) (zip (r 5) (r 7)))))"

definition degrouping :: "nibble list \<Rightarrow> byte list" where
  "degrouping A = (let e = evens A; d = odds A in bits_bytes
     (map (\<lambda>(a, b, c, d). a) e @ map (\<lambda>(a, b, c, d). a) d @ map (\<lambda>(a, b, c, d). b) e @ map (\<lambda>(a, b, c, d). b) d
      @ map (\<lambda>(a, b, c, d). c) e @ map (\<lambda>(a, b, c, d). c) d @ map (\<lambda>(a, b, c, d). d) e @ map (\<lambda>(a, b, c, d). d) d))"

definition spec_E8 :: "byte list \<Rightarrow> byte list" where
  "spec_E8 H = degrouping (spec_E8_rounds (grouping H))"

definition spec_F8 :: "byte list \<Rightarrow> byte list \<Rightarrow> byte list" where
  "spec_F8 H M = (let G = spec_E8 (map2 (XOR) (take 64 H) M @ drop 64 H) in take 64 G @ map2 (XOR) (drop 64 G) M)"

end
