(* ===== verification/JhPerm.thy ===== *)
theory JhPerm
  imports Jh JhSpec
begin

text \<open>
  The bit-sliced rounds of \<^verbatim>\<open>jh.c\<close> against the definition of JH. The code keeps the four bits of an element in four words and never moves
  the elements at even places; instead of the permutation it exchanges bits in the words of the odd rows, at a distance that depends on the round. After
  \<open>r\<close> rounds the element at place \<open>2 c + p\<close> of the code is at place \<open>2 c' + p\<close> of the definition, where \<open>c'\<close> is the 7-bit index \<open>c\<close> rotated right by \<open>r\<close>.
\<close>

section \<open>Elements in words\<close>

lemma S_box_cases [code]:
  "S_box k (a, b, c, d) = (if k then
     (if a then if b then if c then if d then (True, False, False, False) else (True, True, True, False)
                     else if d then (True, False, True, False) else (True, False, True, True)
           else if c then if d then (False, True, False, False) else (False, False, False, False)
                else if d then (False, False, True, False) else (True, True, True, True)
      else if b then if c then if d then (True, False, False, True) else (False, False, False, True)
                     else if d then (False, True, True, True) else (False, True, False, True)
           else if c then if d then (True, True, False, True) else (False, True, True, False)
                else if d then (True, True, False, False) else (False, False, True, True))
   else
     (if a then if b then if c then if d then (True, True, True, False) else (True, False, False, False)
                     else if d then (False, True, False, True) else (False, True, True, True)
           else if c then if d then (False, True, True, False) else (False, False, True, False)
                else if d then (True, False, True, False) else (False, False, False, True)
      else if b then if c then if d then (True, True, True, True) else (False, False, True, True)
                     else if d then (True, True, False, False) else (True, True, False, True)
           else if c then if d then (True, False, True, True) else (False, True, False, False)
                else if d then (False, False, False, False) else (True, False, False, True)))"
  by (cases k; cases a; cases b; cases c; cases d; simp add: S_box_def S_tables_def nibble_val_def nibble_of_def bit_iff_odd)

definition row_nibbles :: "row8 \<Rightarrow> nat \<Rightarrow> nibble \<times> nibble" where
  "row_nibbles = (\<lambda>(m0, m1, m2, m3, m4, m5, m6, m7) n. ((bit m0 n, bit m1 n, bit m2 n, bit m3 n), (bit m4 n, bit m5 n, bit m6 n, bit m7 n)))"

lemma SS_nibbles:
  assumes "n < 64"
  shows "row_nibbles (SS c d m) n = (S_box (bit c n) (fst (row_nibbles m n)), S_box (bit d n) (snd (row_nibbles m n)))"
proof -
  obtain m0 m1 m2 m3 m4 m5 m6 m7 where m: "m = (m0, m1, m2, m3, m4, m5, m6, m7)"
    by (metis prod.exhaust)
  show ?thesis
    using assms unfolding m by (simp add: SS_def row_nibbles_def Let_def bit_simps S_box_cases)
qed

lemma L_nibbles:
  "row_nibbles (jh_L m) n = (let (a, b) = row_nibbles m n in (mds_C a b, mds_D a b))"
proof -
  obtain m0 m1 m2 m3 m4 m5 m6 m7 where m: "m = (m0, m1, m2, m3, m4, m5, m6, m7)"
    by (metis prod.exhaust)
  show ?thesis
    unfolding m by (auto simp: jh_L_def row_nibbles_def Let_def bit_simps mds_C_def mds_D_def)
qed

text \<open>Bit \<open>c\<close> of row \<open>j\<close> of the state; the highest bit of a byte is the first one of the row.\<close>

definition place :: "7 word \<Rightarrow> nat" where
  "place c = unat (ucast c XOR 7 :: 6 word)"

definition jbit :: "u64 list \<Rightarrow> nat \<Rightarrow> 7 word \<Rightarrow> bool" where
  "jbit x j c = bit (x ! (if bit c 6 then 2 * j + 1 else 2 * j)) (place c)"

definition even_nibble :: "u64 list \<Rightarrow> 7 word \<Rightarrow> nibble" where
  "even_nibble x c = (jbit x 0 c, jbit x 2 c, jbit x 4 c, jbit x 6 c)"

definition odd_nibble :: "u64 list \<Rightarrow> 7 word \<Rightarrow> nibble" where
  "odd_nibble x c = (jbit x 1 c, jbit x 3 c, jbit x 5 c, jbit x 7 c)"

lemma place_less: "place c < 64"
  using unsigned_less [of "ucast c XOR 7 :: 6 word"] by (simp add: place_def)

section \<open>The swaps\<close>

lemma all_less_64: "(\<forall>k < 64. P k) \<longleftrightarrow> (\<forall>i < 8. \<forall>j < 8. P (8 * i + j))" for P :: "nat \<Rightarrow> bool"
proof
  assume *: "\<forall>i < 8. \<forall>j < 8. P (8 * i + j)"
  show "\<forall>k < 64. P k"
  proof (intro allI impI)
    fix k :: nat
    assume "k < 64"
    then have "k div 8 < 8" "k mod 8 < 8"
      by simp_all
    then show "P k"
      using *[rule_format, of "k div 8" "k mod 8"] by simp
  qed
qed simp

lemma swap_bits:
  fixes w a b :: u64
  shows "bit (push_bit k (w AND a) OR drop_bit k (w AND b)) n
    \<longleftrightarrow> k \<le> n \<and> n < 64 \<and> bit w (n - k) \<and> bit a (n - k) \<or> bit w (k + n) \<and> bit b (k + n)"
  by (simp only: bit_or_iff bit_push_bit_iff bit_drop_bit_eq comp_def bit_and_iff possible_bit_word) auto

lemma SWAP1_bit: "\<forall>m < 64. bit (SWAP1 w) (m XOR 1) = bit w m"
  unfolding all_less_64 all_less_8 SWAP1_def swap_bits by (simp del: add_2_eq_Suc add_2_eq_Suc')

lemma SWAP2_bit: "\<forall>m < 64. bit (SWAP2 w) (m XOR 2) = bit w m"
  unfolding all_less_64 all_less_8 SWAP2_def swap_bits by (simp del: add_2_eq_Suc add_2_eq_Suc')

lemma SWAP4_bit: "\<forall>m < 64. bit (SWAP4 w) (m XOR 4) = bit w m"
  unfolding all_less_64 all_less_8 SWAP4_def swap_bits by (simp del: add_2_eq_Suc add_2_eq_Suc')

lemma SWAP8_bit: "\<forall>m < 64. bit (SWAP8 w) (m XOR 8) = bit w m"
  unfolding all_less_64 all_less_8 SWAP8_def swap_bits by (simp del: add_2_eq_Suc add_2_eq_Suc')

lemma SWAP16_bit: "\<forall>m < 64. bit (SWAP16 w) (m XOR 16) = bit w m"
  unfolding all_less_64 all_less_8 SWAP16_def swap_bits by (simp del: add_2_eq_Suc add_2_eq_Suc')

lemma SWAP32_bit: "\<forall>m < 64. bit (SWAP32 w) (m XOR 32) = bit w m"
proof -
  have "SWAP32 w = push_bit 32 (w AND - 1) OR drop_bit 32 (w AND - 1)"
    by (simp add: SWAP32_def)
  then show ?thesis
    unfolding all_less_64 all_less_8 by (simp only: swap_bits) (simp del: add_2_eq_Suc add_2_eq_Suc')
qed

section \<open>A round\<close>

definition round_words :: "nat \<Rightarrow> u64 list" where
  "round_words r = map (load64 (E8_bitslice_roundconstant ! r)) [0..<4]"

text \<open>The words of one half after the substitution and the linear layer.\<close>

definition half_words :: "nat \<Rightarrow> u64 list \<Rightarrow> nat \<Rightarrow> row8" where
  "half_words r x i = jh_L (SS (round_words r ! i) (round_words r ! (i + 2))
     (x ! (0 + i), x ! (4 + i), x ! (8 + i), x ! (12 + i), x ! (2 + i), x ! (6 + i), x ! (10 + i), x ! (14 + i)))"

lemma E8_layer_words:
  assumes "length x = 16" "half_words r x 0 = (a0, a1, a2, a3, a4, a5, a6, a7)" "half_words r x 1 = (b0, b1, b2, b3, b4, b5, b6, b7)"
  shows "E8_layer sw r x =
    [a0, b0, sw a4, sw b4, a1, b1, sw a5, sw b5, a2, b2, sw a6, sw b6, a3, b3, sw a7, sw b7]"
proof -
  obtain w0 w1 w2 w3 w4 w5 w6 w7 w8 w9 w10 w11 w12 w13 w14 w15 where
    x: "x = [w0, w1, w2, w3, w4, w5, w6, w7, w8, w9, w10, w11, w12, w13, w14, w15]"
    using assms(1) by (rule length_16)
  have half: "E8_half sw r i y = (let (m0, m1, m2, m3, m4, m5, m6, m7) = half_words r y i
      in y[0 + i := m0, 4 + i := m1, 8 + i := m2, 12 + i := m3, 2 + i := sw m4, 6 + i := sw m5, 10 + i := sw m6, 14 + i := sw m7])"
    if "i < 2" for i y
    using that by (simp add: E8_half_def half_words_def round_words_def Let_def case_prod_unfold)
  let ?y = "[a0, w1, sw a4, w3, a1, w5, sw a5, w7, a2, w9, sw a6, w11, a3, w13, sw a7, w15]"
  have "E8_half sw r 0 x = ?y"
    using assms(2) half [of 0 x] by (simp add: x)
  moreover have "half_words r ?y 1 = half_words r x 1"
    by (simp add: half_words_def x)
  ultimately show ?thesis
    using assms(3) half [of 1 ?y] by (simp add: E8_layer_def)
qed

lemma half_nibbles:
  assumes "n < 64"
  shows "row_nibbles (half_words r x i) n =
    (let a = S_box (bit (round_words r ! i) n) (bit (x ! i) n, bit (x ! (4 + i)) n, bit (x ! (8 + i)) n, bit (x ! (12 + i)) n);
         b = S_box (bit (round_words r ! (i + 2)) n) (bit (x ! (2 + i)) n, bit (x ! (6 + i)) n, bit (x ! (10 + i)) n, bit (x ! (14 + i)) n)
     in (mds_C a b, mds_D a b))"
  unfolding half_words_def L_nibbles SS_nibbles [OF assms] Let_def by (simp add: row_nibbles_def)

definition half_index :: "7 word \<Rightarrow> nat" where
  "half_index c = (if bit c 6 then 1 else 0)"

lemma nibbles_half:
  "even_nibble x c = (bit (x ! (0 + half_index c)) (place c), bit (x ! (4 + half_index c)) (place c),
     bit (x ! (8 + half_index c)) (place c), bit (x ! (12 + half_index c)) (place c))"
  "odd_nibble x c = (bit (x ! (2 + half_index c)) (place c), bit (x ! (6 + half_index c)) (place c),
     bit (x ! (10 + half_index c)) (place c), bit (x ! (14 + half_index c)) (place c))"
  by (simp_all add: even_nibble_def odd_nibble_def jbit_def half_index_def del: add_2_eq_Suc add_2_eq_Suc')

lemma layer_nibbles:
  fixes sw :: "u64 \<Rightarrow> u64" and r :: nat and x :: "u64 list"
  assumes "length x = 16"
  defines "y \<equiv> E8_layer sw r x"
  shows "length y = 16"
    "even_nibble y c = mds_C (S_box (jbit (round_words r) 0 c) (even_nibble x c)) (S_box (jbit (round_words r) 1 c) (odd_nibble x c))"
    "(\<And>w. bit (sw w) n = bit w (place c)) \<Longrightarrow>
      (bit (y ! (2 + half_index c)) n, bit (y ! (6 + half_index c)) n, bit (y ! (10 + half_index c)) n, bit (y ! (14 + half_index c)) n)
        = mds_D (S_box (jbit (round_words r) 0 c) (even_nibble x c)) (S_box (jbit (round_words r) 1 c) (odd_nibble x c))"
proof -
  obtain a0 a1 a2 a3 a4 a5 a6 a7 where a: "half_words r x 0 = (a0, a1, a2, a3, a4, a5, a6, a7)"
    by (metis prod.exhaust)
  obtain b0 b1 b2 b3 b4 b5 b6 b7 where b: "half_words r x 1 = (b0, b1, b2, b3, b4, b5, b6, b7)"
    by (metis prod.exhaust)
  have y: "y = [a0, b0, sw a4, sw b4, a1, b1, sw a5, sw b5, a2, b2, sw a6, sw b6, a3, b3, sw a7, sw b7]"
    unfolding y_def by (rule E8_layer_words [OF assms(1) a b])
  have k: "jbit (round_words r) 0 c = bit (round_words r ! half_index c) (place c)"
    "jbit (round_words r) 1 c = bit (round_words r ! (half_index c + 2)) (place c)"
    by (simp_all add: jbit_def half_index_def del: add_2_eq_Suc add_2_eq_Suc')
  show "length y = 16"
    by (simp add: y)
  note h = half_nibbles [OF place_less [of c], of r x "half_index c"]
  show "even_nibble y c = mds_C (S_box (jbit (round_words r) 0 c) (even_nibble x c)) (S_box (jbit (round_words r) 1 c) (odd_nibble x c))"
    using h unfolding k nibbles_half by (cases "bit c 6") (auto simp: half_index_def a b b [simplified] y row_nibbles_def Let_def)
  show "(\<And>w. bit (sw w) n = bit w (place c)) \<Longrightarrow>
      (bit (y ! (2 + half_index c)) n, bit (y ! (6 + half_index c)) n, bit (y ! (10 + half_index c)) n, bit (y ! (14 + half_index c)) n)
        = mds_D (S_box (jbit (round_words r) 0 c) (even_nibble x c)) (S_box (jbit (round_words r) 1 c) (odd_nibble x c))"
    using h unfolding k nibbles_half by (cases "bit c 6") (auto simp: half_index_def a b b [simplified] y row_nibbles_def Let_def)
qed

definition round_swap :: "nat \<Rightarrow> u64 \<Rightarrow> u64" where
  "round_swap k = (if k = 0 then SWAP1 else if k = 1 then SWAP2 else if k = 2 then SWAP4 else if k = 3 then SWAP8
     else if k = 4 then SWAP16 else if k = 5 then SWAP32 else (\<lambda>w. w))"

definition sliced_round :: "nat \<Rightarrow> u64 list \<Rightarrow> u64 list" where
  "sliced_round r x = (let k = r mod 7; y = E8_layer (round_swap k) r x in if k = 6 then swap_halves y else y)"

lemma E8_rounds: "E8 x = fold sliced_round [0..<42] x"
proof -
  have seven: "E8_seven q x = fold sliced_round [q..<q + 7] x" if "q mod 7 = 0" for q x
  proof -
    have m: "(q + i) mod 7 = i" if "i < 7" for i
      using that \<open>q mod 7 = 0\<close> mod_add_left_eq [of q 7 i] by simp
    moreover have "[q..<q + 7] = [q + 0, q + 1, q + 2, q + 3, q + 4, q + 5, q + 6]"
      by (simp add: upt_rec)
    ultimately show ?thesis
      using m [of 0] m [of 1] by (simp add: E8_seven_def sliced_round_def round_swap_def Let_def del: add_2_eq_Suc')
  qed
  have "[0..<42] = [0..<0 + 7] @ [7..<7 + 7] @ [14..<14 + 7] @ [21..<21 + 7] @ [28..<28 + 7] @ [35..<35 + 7]"
    by (simp add: upt_rec)
  then show ?thesis
    unfolding E8_def by (simp only: fold_append fold_simps comp_def id_def) (simp add: seven)
qed

text \<open>The index of a bit in the row and the exchange at distance \<open>2 ^ k\<close>.\<close>

lemma place_flip:
  assumes "k < 6"
  shows "place (c XOR push_bit k 1) = place c XOR 2 ^ k" "bit (c XOR push_bit k 1) 6 = bit c 6"
proof -
  have k: "k \<in> {0, 1, 2, 3, 4, 5}"
    using assms by auto
  have "(ucast (c XOR push_bit k 1) XOR 7 :: 6 word) = (ucast c XOR 7) XOR push_bit k 1"
    using assms by (intro bit_word_eqI) (auto simp: bit_simps)
  moreover have "unat (push_bit k 1 :: 6 word) = 2 ^ k"
    using k by auto
  ultimately show "place (c XOR push_bit k 1) = place c XOR 2 ^ k"
    by (simp add: place_def unsigned_xor_eq)
  show "bit (c XOR push_bit k 1) 6 = bit c 6"
    using assms by (simp add: bit_simps)
qed

lemma place_flip_6: "place (c XOR push_bit 6 1) = place c" "bit (c XOR push_bit 6 1) 6 = (\<not> bit c 6)"
proof -
  have "(ucast (c XOR push_bit k 1) :: 6 word) = ucast c" if "6 \<le> k" for k
    using that by (intro bit_word_eqI) (auto simp: bit_simps)
  from this [of 6] show "place (c XOR push_bit 6 1) = place c"
    by (simp add: place_def)
  show "bit (c XOR push_bit 6 1) 6 = (\<not> bit c 6)"
    by (simp add: bit_simps)
qed

lemma round_swap_bit: "k < 6 \<Longrightarrow> m < 64 \<Longrightarrow> bit (round_swap k w) (m XOR 2 ^ k) = bit w m"
proof -
  assume "k < 6" and m: "m < 64"
  then have "k = 0 \<or> k = 1 \<or> k = 2 \<or> k = 3 \<or> k = 4 \<or> k = 5"
    by linarith
  then show ?thesis
    using m SWAP1_bit [of w] SWAP2_bit [of w] SWAP4_bit [of w] SWAP8_bit [of w] SWAP16_bit [of w] SWAP32_bit [of w]
    by (auto simp: round_swap_def)
qed

lemma swap_halves_words:
  assumes "length y = 16"
  shows "length (swap_halves y) = 16" "even_nibble (swap_halves y) c = even_nibble y c"
    "odd_nibble (swap_halves y) (c XOR push_bit 6 1) = odd_nibble y c"
proof -
  obtain w0 w1 w2 w3 w4 w5 w6 w7 w8 w9 w10 w11 w12 w13 w14 w15 where
    y: "y = [w0, w1, w2, w3, w4, w5, w6, w7, w8, w9, w10, w11, w12, w13, w14, w15]"
    using assms by (rule length_16)
  have s: "swap_halves y = [w0, w1, w3, w2, w4, w5, w7, w6, w8, w9, w11, w10, w12, w13, w15, w14]"
    by (simp add: swap_halves_def y)
  show "length (swap_halves y) = 16"
    by (simp add: s)
  show "even_nibble (swap_halves y) c = even_nibble y c"
    unfolding s by (simp add: y even_nibble_def jbit_def)
  show "odd_nibble (swap_halves y) (c XOR push_bit 6 1) = odd_nibble y c"
    unfolding s by (simp only: odd_nibble_def jbit_def place_flip_6) (simp add: y)
qed

lemma round_nibbles:
  assumes "length x = 16"
  defines "a \<equiv> \<lambda>r c. S_box (jbit (round_words r) 0 c) (even_nibble x c)" and "b \<equiv> \<lambda>r c. S_box (jbit (round_words r) 1 c) (odd_nibble x c)"
  shows "length (sliced_round r x) = 16" "even_nibble (sliced_round r x) c = mds_C (a r c) (b r c)"
    "odd_nibble (sliced_round r x) (c XOR push_bit (r mod 7) 1) = mds_D (a r c) (b r c)"
proof -
  let ?k = "r mod 7"
  let ?y = "E8_layer (round_swap ?k) r x"
  note y = layer_nibbles [OF assms(1), of "round_swap ?k" r]
  have odd6: "odd_nibble ?y c = mds_D (a r c) (b r c)" if "?k = 6"
    using layer_nibbles(3) [OF assms(1), where sw = "round_swap ?k" and r = r and n = "place c" and c = c] that by (simp add: nibbles_half round_swap_def a_def b_def)
  have odd: "odd_nibble ?y (c XOR push_bit ?k 1) = mds_D (a r c) (b r c)" if "?k \<noteq> 6"
  proof -
    have k: "?k < 6"
      using that mod_less_divisor [of 7 r] by linarith
    then have "half_index (c XOR push_bit ?k 1) = half_index c"
      using place_flip(2) [OF k, of c] by (simp add: half_index_def)
    then show ?thesis
      using layer_nibbles(3) [OF assms(1), where sw = "round_swap ?k" and r = r and n = "place c XOR 2 ^ ?k" and c = c] round_swap_bit [OF k place_less] place_flip(1) [OF k, of c]
      by (simp add: nibbles_half a_def b_def)
  qed
  have s: "sliced_round r x = (if ?k = 6 then swap_halves ?y else ?y)"
    by (simp add: sliced_round_def Let_def)
  have "length (sliced_round r x) = 16 \<and> even_nibble (sliced_round r x) c = mds_C (a r c) (b r c)
    \<and> odd_nibble (sliced_round r x) (c XOR push_bit ?k 1) = mds_D (a r c) (b r c)"
  proof (cases "?k = 6")
    case True
    then show ?thesis
      using y(1,2) odd6 swap_halves_words [OF y(1)] unfolding s by (simp add: a_def b_def)
  next
    case False
    then show ?thesis
      using y(1,2) odd unfolding s by (simp add: a_def b_def)
  qed
  then show "length (sliced_round r x) = 16" "even_nibble (sliced_round r x) c = mds_C (a r c) (b r c)"
    "odd_nibble (sliced_round r x) (c XOR push_bit ?k 1) = mds_D (a r c) (b r c)"
    by simp_all
qed

section \<open>The permutation of the definition\<close>

lemma length_interleave [simp]: "length (interleave xs ys) = 2 * min (length xs) (length ys)"
  by (induction xs ys rule: interleave.induct) simp_all

lemma evens_interleave [simp]: "length xs = length ys \<Longrightarrow> evens (interleave xs ys) = xs"
  by (induction xs ys rule: list_induct2) simp_all

lemma odds_interleave [simp]: "length xs = length ys \<Longrightarrow> odds (interleave xs ys) = ys"
  by (induction xs ys rule: list_induct2) simp_all

lemma interleave_append: "length as = length bs \<Longrightarrow> interleave as bs @ interleave cs ds = interleave (as @ cs) (bs @ ds)"
  by (induction as bs rule: list_induct2) simp_all

lemma linear_layer_interleave:
  "length xs = length ys \<Longrightarrow> linear_layer (interleave xs ys) = interleave (map2 mds_C xs ys) (map2 mds_D xs ys)"
  by (induction xs ys rule: list_induct2) simp_all

lemma map2_interleave:
  "length xs = length ys \<Longrightarrow> length as = length xs \<Longrightarrow> length bs = length xs
    \<Longrightarrow> map2 f (interleave as bs) (interleave xs ys) = interleave (map2 f as xs) (map2 f bs ys)"
proof (induction xs ys arbitrary: as bs rule: list_induct2)
  case (Cons x xs y ys)
  then show ?case
    by (cases as; cases bs) simp_all
qed simp

lemma length_evens_odds: "even (length xs) \<Longrightarrow> 2 * length (evens xs) = length xs \<and> 2 * length (odds xs) = length xs"
  by (induction xs rule: evens.induct) simp_all

lemma permutation_interleave:
  "length xs = length ys \<Longrightarrow> even (length xs)
    \<Longrightarrow> permutation (interleave xs ys) = interleave (evens xs @ odds xs) (odds ys @ evens ys)"
proof -
  assume l: "length xs = length ys" "even (length xs)"
  have "evens (perm_pi (interleave xs ys)) = interleave (evens xs) (odds ys)
      \<and> swap_pairs (odds (perm_pi (interleave xs ys))) = interleave (odds xs) (evens ys)"
    using l
  proof (induction xs arbitrary: ys rule: evens.induct)
    case (1 a b xs)
    then obtain c d ys' where "ys = c # d # ys'"
      by (metis length_Suc_conv length_Cons)
    then show ?case
      using 1 by simp
  qed auto
  then show ?thesis
    using length_evens_odds [of xs] length_evens_odds [of ys] l by (simp add: permutation_def Let_def interleave_append)
qed

lemma nth_evens: "2 * i < length xs \<Longrightarrow> evens xs ! i = xs ! (2 * i)"
proof (induction xs arbitrary: i rule: evens.induct)
  case (1 a b xs)
  then show ?case
    by (cases i) simp_all
qed auto

lemma nth_odds: "2 * i + 1 < length xs \<Longrightarrow> odds xs ! i = xs ! (2 * i + 1)"
proof (induction xs arbitrary: i rule: odds.induct)
  case (1 a b xs)
  then show ?case
    by (cases i) simp_all
qed auto

lemma unat_rotr: "unat (word_rotr 1 (c :: 7 word)) = unat c div 2 + 64 * (unat c mod 2)"
proof -
  have "drop_bit 1 (uint c) < 64" "0 \<le> drop_bit 1 (uint c)"
    using uint_lt2p [of c] by (simp_all add: drop_bit_eq_div)
  then have "uint (word_rotr 1 c) = uint c div 2 + 64 * (uint c mod 2)"
    by (simp add: uint_word_rotr_eq concat_bit_eq take_bit_eq_mod push_bit_eq_mult drop_bit_eq_div unsigned_take_bit_eq uint_mod)
  then have "int (unat (word_rotr 1 c)) = int (unat c div 2 + 64 * (unat c mod 2))"
    by (simp add: zdiv_int zmod_int)
  then show ?thesis
    by linarith
qed

lemma nth_evens_odds: "length xs = 128 \<Longrightarrow> (evens xs @ odds xs) ! unat (word_rotr 1 c) = xs ! unat c" for c :: "7 word"
proof -
  assume l: "length xs = 128"
  define n where "n = unat c"
  have n: "n < 128"
    using unsigned_less [of c] by (simp add: n_def)
  have le: "length (evens xs) = 64"
    using length_evens_odds [of xs] l by simp
  have d: "n div 2 < 64"
    using n by simp
  show ?thesis
    unfolding unat_rotr n_def [symmetric]
  proof (cases "even n")
    case True
    then show "(evens xs @ odds xs) ! (n div 2 + 64 * (n mod 2)) = xs ! n"
      using n d l le nth_evens [of "n div 2" xs] by (simp add: nth_append)
  next
    case False
    then show "(evens xs @ odds xs) ! (n div 2 + 64 * (n mod 2)) = xs ! n"
      using n d l le nth_odds [of "n div 2" xs] by (simp add: nth_append odd_iff_mod_2_eq_one)
  qed
qed

lemma nth_odds_evens: "length xs = 128 \<Longrightarrow> (odds xs @ evens xs) ! unat (word_rotr 1 (c XOR 1)) = xs ! unat c" for c :: "7 word"
proof -
  assume l: "length xs = 128"
  have sp: "length (swap_pairs xs) = length xs" "evens (swap_pairs xs) = odds xs" "odds (swap_pairs xs) = evens xs" if "even (length xs)" for xs :: "'a list"
    using that by (induction xs rule: swap_pairs.induct) simp_all
  have nth: "swap_pairs xs ! (n XOR 1) = xs ! n" if "even (length xs)" "n < length xs" for xs :: "'a list" and n :: nat
    using that
  proof (induction xs arbitrary: n rule: swap_pairs.induct)
    case (1 a b xs)
    consider "n = 0" | "n = 1" | m where "n = m + 2"
      by (metis One_nat_def Suc_1 add_2_eq_Suc' not0_implies_Suc)
    then show ?case
    proof cases
      case 3
      then have "n XOR 1 = (m XOR 1) + 2"
        by (cases "even m") (auto simp: xor_Suc_0_eq elim: oddE)
      then show ?thesis
        using 3 1 by simp
    qed simp_all
  qed simp_all
  have "unat (c XOR 1) = unat c XOR 1"
    by (simp add: unsigned_xor_eq)
  then show ?thesis
    using nth_evens_odds [of "swap_pairs xs" "c XOR 1"] sp [of xs] nth [of xs "unat c"] unsigned_less [of c] l by simp
qed

end
