(* ===== verification/Words64.thy ===== *)
theory Words64
  imports KeccakSponge
begin

text \<open>Lists of 64-bit words and the byte strings that hold them.\<close>

abbreviation bytes64 :: "u64 list \<Rightarrow> byte list" where
  "bytes64 x \<equiv> concat (map store64 x)"

lemma nth_bytes64: "i < 8 * length x \<Longrightarrow> bytes64 x ! i = ucast (drop_bit (8 * (i mod 8)) (x ! (i div 8)))"
proof -
  have "\<forall>k < 8. store64 w ! k = ucast (drop_bit (8 * k) w)" for w
    unfolding all_less_8 by (simp add: store64_def)
  then show "i < 8 * length x \<Longrightarrow> bytes64 x ! i = ucast (drop_bit (8 * (i mod 8)) (x ! (i div 8)))"
    using nth_concat_uniform [of store64 8 i x] by (simp add: length_store64)
qed

lemma bit_load64:
  assumes "8 * i + 8 \<le> length s" "n < 64"
  shows "bit (load64 s i) n = bit (s ! (8 * i + n div 8)) (n mod 8)"
proof -
  have "n div 8 < 8"
    using assms(2) by simp
  then have "uint (s ! (8 * i + n div 8)) = take_bit 8 (drop_bit (8 * (n div 8)) (le (take 8 (drop (8 * i) s))))"
    using le_nth [of "n div 8" "take 8 (drop (8 * i) s)"] assms(1) by simp
  then have "bit (uint (s ! (8 * i + n div 8))) (n mod 8) = bit (le (take 8 (drop (8 * i) s))) n"
    by (simp add: bit_simps)
  then show ?thesis
    using assms(2) by (simp add: load64_def bit_simps bit_uint_iff)
qed

lemma load_bytes64: "i < length x \<Longrightarrow> load64 (bytes64 x) i = x ! i"
proof (rule bit_word_eqI)
  fix n
  assume *: "i < length x" "n < LENGTH(64)"
  then have n: "n < 64" "8 * i + 8 \<le> length (bytes64 x)" "n div 8 < 8"
    by (simp_all add: length_stored)
  have "(8 * i + n div 8) mod 8 = n div 8" "(8 * i + n div 8) div 8 = i" "8 * i + n div 8 < 8 * length x"
    using n * by (simp_all add: length_stored)
  then show "bit (load64 (bytes64 x) i) n = bit (x ! i) n"
    using bit_load64 [OF n(2,1)] n by (simp add: nth_bytes64 bit_simps)
qed

lemma map_load_bytes64: "map (load64 (bytes64 x)) [0..<length x] = x"
  by (rule nth_equalityI) (simp_all add: load_bytes64)

lemma byte_load64: "8 * i + 8 \<le> length b \<Longrightarrow> k < 8 \<Longrightarrow> ucast (drop_bit (8 * k) (load64 b i)) = b ! (8 * i + k)"
proof (rule bit_word_eqI)
  fix n
  assume *: "8 * i + 8 \<le> length b" "k < 8" "n < LENGTH(8)"
  then have "(8 * k + n) div 8 = k" "(8 * k + n) mod 8 = n" "8 * k + n < 64"
    by simp_all
  then show "bit (ucast (drop_bit (8 * k) (load64 b i)) :: byte) n = bit (b ! (8 * i + k)) n"
    using bit_load64 [OF *(1), of "8 * k + n"] * by (simp add: bit_simps)
qed

end
