(* ===== verification/JhConst.thy ===== *)
theory JhConst
  imports JhPerm Words64
begin

text \<open>
  The round constants of \<^verbatim>\<open>jh.c\<close>: the table holds the constants of the definition, with the bits of every round in the order in which the bit-sliced state has
  the elements. The table is checked in three parts.
\<close>

definition unshuffle :: "'a list \<Rightarrow> 'a list" where
  "unshuffle xs = evens xs @ odds xs"

definition row_ok :: "nat \<Rightarrow> byte list \<Rightarrow> nibble list \<Rightarrow> bool" where
  "row_ok k row C \<longleftrightarrow> (let h = msb_bits row; b = nibble_bits C in
     (unshuffle ^^ k) (take 128 h) = evens b \<and> (unshuffle ^^ k) (drop 128 h) = odds b)"

definition next_constant :: "nibble list \<Rightarrow> nibble list" where
  "next_constant C = jh_round (replicate 64 False) C"

text \<open>Checks a sequence of rows against the constants from \<open>C\<close> on and returns the constant after them.\<close>

fun check_rows :: "nibble list \<Rightarrow> (nat \<times> byte list) list \<Rightarrow> nibble list option" where
  "check_rows C [] = Some C"
| "check_rows C ((k, row) # rows) = (if row_ok k row C then check_rows (next_constant C) rows else None)"

definition C_14 :: "nibble list" where
  "C_14 = map nibble_of
     [7, 10, 1, 5, 2, 3, 14, 15, 3, 13, 9, 7, 0, 10, 3, 10,
      9, 11, 0, 11, 4, 13, 6, 1, 0, 14, 0, 2, 7, 4, 9, 13,
      3, 7, 11, 8, 13, 5, 7, 12, 1, 8, 8, 5, 15, 14, 4, 2,
      0, 6, 10, 7, 15, 3, 3, 8, 14, 8, 3, 5, 6, 8, 6, 6]"

definition C_28 :: "nibble list" where
  "C_28 = map nibble_of
     [10, 11, 13, 0, 6, 12, 5, 2, 14, 13, 5, 8, 15, 15, 0, 9,
      1, 2, 0, 5, 13, 0, 15, 6, 2, 7, 5, 7, 4, 12, 8, 12,
      11, 12, 1, 15, 14, 7, 12, 15, 7, 9, 2, 1, 0, 15, 5, 10,
      2, 2, 8, 6, 15, 6, 14, 2, 3, 10, 2, 7, 14, 15, 10, 0]"

definition part_rows :: "nat \<Rightarrow> (nat \<times> byte list) list" where
  "part_rows n = zip [0, 1, 2, 3, 4, 5, 6, 0, 1, 2, 3, 4, 5, 6] (take 14 (drop n E8_bitslice_roundconstant))"

lemma constants_0: "check_rows C_0 (part_rows 0) = Some C_14"
  by code_simp

lemma constants_14: "check_rows C_14 (part_rows 14) = Some C_28"
  by code_simp

lemma constants_28: "\<exists>C. check_rows C_28 (part_rows 28) = Some C"
proof -
  have "check_rows C_28 (part_rows 28) \<noteq> None"
    by code_simp
  then show ?thesis
    by simp
qed

lemma round_constant_add: "round_constant (n + i) = (next_constant ^^ i) (round_constant n)"
  by (induction i) (simp_all add: next_constant_def)

lemma check_rows_sound:
  "check_rows C rows = Some D \<Longrightarrow> D = (next_constant ^^ length rows) C
    \<and> (\<forall>i < length rows. row_ok (fst (rows ! i)) (snd (rows ! i)) ((next_constant ^^ i) C))"
proof (induction C rows rule: check_rows.induct)
  case (2 C k row rows)
  then have *: "row_ok k row C" "check_rows (next_constant C) rows = Some D"
    by (simp_all split: if_splits)
  note IH = 2(1) [OF *]
  have "row_ok (fst (((k, row) # rows) ! i)) (snd (((k, row) # rows) ! i)) ((next_constant ^^ i) C)" if "i < Suc (length rows)" for i
    using that IH *(1) by (cases i) (simp_all add: funpow_swap1)
  then show ?case
    using IH by (simp add: funpow_swap1)
qed simp

lemma part_rows_nth: "i < 14 \<Longrightarrow> n \<le> 28 \<Longrightarrow> fst (part_rows n ! i) = i mod 7 \<and> snd (part_rows n ! i) = E8_bitslice_roundconstant ! (n + i)"
proof -
  assume i: "i < 14" "n \<le> 28"
  have l: "length E8_bitslice_roundconstant = 42"
    by (simp add: E8_bitslice_roundconstant_def)
  have "\<forall>i < 14. [0, 1, 2, 3, 4, 5, 6, 0, 1, 2, 3, 4, 5, 6] ! i = i mod 7"
    by code_simp
  then show ?thesis
    using i l by (simp add: part_rows_def)
qed

lemma length_part_rows: "n \<le> 28 \<Longrightarrow> length (part_rows n) = 14"
  by (simp add: part_rows_def E8_bitslice_roundconstant_def)

lemma table_ok:
  assumes "r < 42"
  shows "row_ok (r mod 7) (E8_bitslice_roundconstant ! r) (round_constant r)"
proof -
  have part: "row_ok (r mod 7) (E8_bitslice_roundconstant ! r) (round_constant r)"
    if "check_rows (round_constant n) (part_rows n) = Some D" "n \<le> r" "r < n + 14" "n \<le> 28" "n mod 7 = 0" for n D
  proof -
    define i where "i = r - n"
    have i: "i < 14" "r = n + i"
      using that by (simp_all add: i_def)
    then have "i mod 7 = r mod 7"
      using that(5) mod_add_left_eq [of n 7 i] by simp
    moreover have "row_ok (fst (part_rows n ! i)) (snd (part_rows n ! i)) ((next_constant ^^ i) (round_constant n))"
      using check_rows_sound [OF that(1)] length_part_rows [OF that(4)] i(1) by simp
    ultimately show ?thesis
      using part_rows_nth [OF i(1) that(4)] i(2) by (simp add: round_constant_add)
  qed
  have C_14: "round_constant 14 = C_14"
    using check_rows_sound [OF constants_0] length_part_rows [of 0] round_constant_add [of 0 14] by simp
  have C_28: "round_constant 28 = C_28"
    using check_rows_sound [OF constants_14] length_part_rows [of 14] round_constant_add [of 14 14] C_14 by simp
  obtain C where C: "check_rows C_28 (part_rows 28) = Some C"
    using constants_28 by blast
  consider "r < 14" | "14 \<le> r" "r < 28" | "28 \<le> r"
    by linarith
  then show ?thesis
    using part [of 0] part [of 14] part [of 28] constants_0 constants_14 C assms by cases (simp_all add: C_14 C_28)
qed

section \<open>Bits of rows\<close>

lemma length_msb_bits [simp]: "length (msb_bits s) = 8 * length s"
  unfolding msb_bits_def by (subst length_concat_uniform [where n = 8]) (simp_all add: byte_bits_def)

lemma nth_msb_bits:
  assumes "i < 8 * length s"
  shows "msb_bits s ! i = bit (s ! (i div 8)) (7 - i mod 8)"
proof -
  have "\<forall>k < 8. byte_bits b ! k = bit b (7 - k)" for b
    unfolding all_less_8 by (simp add: byte_bits_def)
  moreover have "msb_bits s ! i = byte_bits (s ! (i div 8)) ! (i mod 8)"
    unfolding msb_bits_def using assms by (intro nth_concat_uniform) (simp_all add: byte_bits_def)
  ultimately show ?thesis
    by simp
qed

lemma place_nat: "place c div 8 = unat c mod 64 div 8" "place c mod 8 = 7 - unat c mod 8" "half_index c = unat c div 64"
proof -
  have p: "place c = (unat c mod 64) XOR 7"
    by (simp add: place_def unsigned_xor_eq unsigned_ucast_eq take_bit_eq_mod)
  have "\<forall>m < 64. (m XOR 7) div 8 = m div 8 \<and> (m XOR 7) mod 8 = (7 - m mod 8 :: nat)"
    unfolding all_less_64 all_less_8 by (simp del: add_2_eq_Suc add_2_eq_Suc')
  from this [rule_format, of "unat c mod 64"] show "place c div 8 = unat c mod 64 div 8" "place c mod 8 = 7 - unat c mod 8"
    unfolding p by (simp_all add: mod_mod_cancel)
  have "unat c div 64 < 2"
    using unsigned_less [of c] by (simp add: div_less_iff_less_mult)
  then have "unat c div 64 = 0 \<or> unat c div 64 = 1"
    by linarith
  moreover have "bit c 6 = odd (unat c div 64)"
    using bit_unsigned_iff [of c 6, where 'a = nat] by (simp add: bit_iff_odd)
  ultimately show "half_index c = unat c div 64"
    by (auto simp: half_index_def)
qed

lemma jbit_load:
  assumes "16 * (j + 1) \<le> length s" "2 * j + 1 < m"
  shows "jbit (map (load64 s) [0..<m]) j c = msb_bits s ! (128 * j + unat c)"
proof -
  define n where "n = unat c"
  have n: "n < 128"
    using unsigned_less [of c] by (simp add: n_def)
  have d: "n div 64 < 2"
    using n by (simp add: div_less_iff_less_mult)
  have "jbit (map (load64 s) [0..<m]) j c = bit (load64 s (2 * j + n div 64)) (place c)"
    using assms(2) unfolding n_def place_nat(3) [symmetric] by (simp add: jbit_def half_index_def)
  also have "8 * (2 * j + d) + 8 \<le> length s" if "d < 2" for d :: nat
    using that assms(1) by simp
  from this [OF d] have "bit (load64 s (2 * j + n div 64)) (place c) = bit (s ! (8 * (2 * j + n div 64) + n mod 64 div 8)) (7 - n mod 8)"
    using bit_load64 [OF _ place_less] place_nat(1,2) [of c] by (simp add: n_def)
  also have "8 * (2 * j + n div 64) + n mod 64 div 8 = (128 * j + n) div 8"
  proof -
    have "(128 * j + n) div 8 = (8 * (16 * j + 8 * (n div 64)) + n mod 64) div 8"
      using mult_div_mod_eq [of 64 n] by (simp add: distrib_left add.assoc)
    also have "\<dots> = (16 * j + 8 * (n div 64)) + n mod 64 div 8"
      by (rule div_mult_self4) simp
    finally show ?thesis
      by simp
  qed
  also have "n mod 8 = (128 * j + n) mod 8"
    using mod_mult_self4 [of 8 "16 * j" n] by simp
  finally show ?thesis
    using nth_msb_bits [of "128 * j + n" s] assms(1) n by (simp add: n_def)
qed

end
