(* ===== verification/JhE8.thy ===== *)
theory JhE8
  imports JhConst
begin

text \<open>
  The permutation \<^verbatim>\<open>E8\<close> and the compression function \<^verbatim>\<open>F8\<close> of \<^verbatim>\<open>jh.c\<close> implement those of the definition.
\<close>

section \<open>Simulation of the rounds\<close>

lemma rotr_0: "word_rotr 0 c = c" for c :: "'a :: len word"
  by (rule bit_word_eqI) (simp add: bit_word_rotr_iff)

lemma nth_unshuffle: "length xs = 128 \<Longrightarrow> (unshuffle ^^ k) xs ! unat (word_rotr k c) = xs ! unat c \<and> length ((unshuffle ^^ k) xs) = 128"
  for c :: "7 word"
proof (induction k)
  case (Suc k)
  let ?y = "(unshuffle ^^ k) xs"
  have "word_rotr (Suc k) c = word_rotr 1 (word_rotr k c)"
    by (simp add: word_rotr_word_rotr_eq)
  moreover have u: "unshuffle ?y = evens ?y @ odds ?y"
    by (simp add: unshuffle_def)
  moreover have "length (unshuffle ?y) = 128"
    unfolding u using length_evens_odds [of ?y] Suc by simp
  ultimately show ?case
    using Suc nth_evens_odds [of ?y "word_rotr k c"] by simp
qed (simp add: rotr_0)

lemma rotr_mod: "word_rotr (r mod 7) c = word_rotr r c" for c :: "7 word"
  by (rule bit_word_eqI) (simp add: bit_word_rotr_iff mod_simps)

lemma rotr_xor: "word_rotr r (c XOR d) = word_rotr r c XOR word_rotr r d" for c d :: "'a :: len word"
  by (rule bit_word_eqI) (simp add: bit_simps)

lemma rotr_bit: "word_rotr r (push_bit (r mod 7) 1 :: 7 word) = 1"
proof -
  have "word_rotr k (push_bit k 1 :: 7 word) = 1" if "k < 7" for k
  proof (rule bit_word_eqI)
    fix n
    assume n: "n < LENGTH(7)"
    then have "(n + k) mod 7 = k \<longleftrightarrow> n = 0"
      using that by (auto simp: mod_if split: if_splits)
    then show "bit (word_rotr k (push_bit k 1 :: 7 word)) n = bit (1 :: 7 word) n"
      using n that by (auto simp: bit_word_rotr_iff bit_push_bit_iff bit_1_iff simp del: push_bit_of_1)
  qed
  from this [of "r mod 7"] show ?thesis
    by (simp add: rotr_mod)
qed

definition agree :: "nat \<Rightarrow> u64 list \<Rightarrow> nibble list \<Rightarrow> nibble list \<Rightarrow> bool" where
  "agree r x E D \<longleftrightarrow> length x = 16 \<and> length E = 128 \<and> length D = 128
     \<and> (\<forall>c. E ! unat (word_rotr r c) = even_nibble x c \<and> D ! unat (word_rotr r c) = odd_nibble x c)"

lemma unat_7: "unat (c :: 7 word) < 128"
  using unsigned_less [of c] by simp

lemma agree_round:
  assumes "agree r x E D" "length KE = 128" "length KD = 128"
    "\<And>c. KE ! unat (word_rotr r c) = jbit (round_words r) 0 c" "\<And>c. KD ! unat (word_rotr r c) = jbit (round_words r) 1 c"
  shows "\<exists>E' D'. jh_round (interleave KE KD) (interleave E D) = interleave E' D' \<and> agree (Suc r) (sliced_round r x) E' D'"
proof -
  let ?SE = "map2 S_box KE E" and ?SD = "map2 S_box KD D"
  let ?LE = "map2 mds_C ?SE ?SD" and ?LD = "map2 mds_D ?SE ?SD"
  let ?E = "evens ?LE @ odds ?LE" and ?D = "odds ?LD @ evens ?LD"
  have l: "length E = 128" "length D = 128" "length x = 16"
    using assms(1) by (simp_all add: agree_def)
  have "jh_round (interleave KE KD) (interleave E D) = interleave ?E ?D"
    using l assms(2,3) by (simp add: jh_round_def map2_interleave linear_layer_interleave permutation_interleave)
  moreover have "length ?E = 128" "length ?D = 128"
    using length_evens_odds [of ?LE] length_evens_odds [of ?LD] l assms(2,3) by simp_all
  moreover have "?E ! unat (word_rotr (Suc r) c) = even_nibble (sliced_round r x) c" for c
  proof -
    have "?E ! unat (word_rotr 1 (word_rotr r c)) = ?LE ! unat (word_rotr r c)"
      using l assms(2,3) by (intro nth_evens_odds) simp
    then show ?thesis
      using l assms unat_7 [of "word_rotr r c"] round_nibbles(2) [OF l(3), of r c]
      by (simp add: word_rotr_word_rotr_eq agree_def)
  qed
  moreover have "?D ! unat (word_rotr (Suc r) c) = odd_nibble (sliced_round r x) c" for c
  proof -
    define d where "d = c XOR push_bit (r mod 7) 1"
    have c: "c = d XOR push_bit (r mod 7) 1"
      by (simp add: d_def xor.assoc)
    have "word_rotr (Suc r) c = word_rotr 1 (word_rotr r c)"
      by (simp add: word_rotr_word_rotr_eq)
    moreover have "word_rotr r c = word_rotr r d XOR 1"
      unfolding c by (simp only: rotr_xor rotr_bit)
    moreover have "?D ! unat (word_rotr 1 (word_rotr r d XOR 1)) = ?LD ! unat (word_rotr r d)"
      using l assms(2,3) by (intro nth_odds_evens) simp
    ultimately show ?thesis
      using l assms unat_7 [of "word_rotr r d"] round_nibbles(3) [OF l(3), of r d] by (simp add: c agree_def)
  qed
  moreover have "length (sliced_round r x) = 16"
    by (rule round_nibbles(1) [OF l(3)])
  ultimately show ?thesis
    unfolding agree_def by blast
qed

text \<open>The constants of round \<open>r\<close>, in the order of the elements.\<close>

lemma interleave_evens_odds: "even (length xs) \<Longrightarrow> interleave (evens xs) (odds xs) = xs"
  by (induction xs rule: evens.induct) simp_all

lemma length_rows: "r < 42 \<Longrightarrow> length (E8_bitslice_roundconstant ! r) = 32"
proof -
  have "list_all (\<lambda>row. length row = 32) E8_bitslice_roundconstant" "length E8_bitslice_roundconstant = 42"
    by (simp_all add: E8_bitslice_roundconstant_def)
  then show "r < 42 \<Longrightarrow> length (E8_bitslice_roundconstant ! r) = 32"
    by (simp add: list_all_length)
qed

lemma round_bits:
  assumes "r < 42"
  defines "b \<equiv> nibble_bits (round_constant r)"
  shows "length (evens b) = 128" "length (odds b) = 128" "interleave (evens b) (odds b) = b"
    "evens b ! unat (word_rotr r c) = jbit (round_words r) 0 c" "odds b ! unat (word_rotr r c) = jbit (round_words r) 1 c"
proof -
  let ?row = "E8_bitslice_roundconstant ! r"
  let ?h = "msb_bits ?row"
  have l: "length ?h = 256"
    using length_rows [OF assms(1)] by simp
  have ok: "(unshuffle ^^ (r mod 7)) (take 128 ?h) = evens b" "(unshuffle ^^ (r mod 7)) (drop 128 ?h) = odds b"
    using table_ok [OF assms(1)] by (simp_all add: row_ok_def Let_def b_def)
  show lb: "length (evens b) = 128" "length (odds b) = 128"
    using nth_unshuffle [of "take 128 ?h" "r mod 7" 0] nth_unshuffle [of "drop 128 ?h" "r mod 7" 0] l ok by simp_all
  have "length (evens xs) = length (odds xs) \<Longrightarrow> even (length xs)" for xs :: "bool list"
    by (induction xs rule: evens.induct) simp_all
  from this [of b] show "interleave (evens b) (odds b) = b"
    using lb by (intro interleave_evens_odds) simp
  have j: "jbit (round_words r) j c = ?h ! (128 * j + unat c)" if "j < 2" for j
    unfolding round_words_def using that length_rows [OF assms(1)] by (intro jbit_load) auto
  show "evens b ! unat (word_rotr r c) = jbit (round_words r) 0 c"
    using nth_unshuffle [of "take 128 ?h" "r mod 7" c] l ok(1) j [of 0] unat_7 [of c] by (simp add: rotr_mod)
  show "odds b ! unat (word_rotr r c) = jbit (round_words r) 1 c"
    using nth_unshuffle [of "drop 128 ?h" "r mod 7" c] l ok(2) j [of 1] unat_7 [of c] by (simp add: rotr_mod)
qed

lemma agree_rounds:
  assumes "agree 0 x E D" "n \<le> 42"
  shows "\<exists>E' D'. fold (\<lambda>r. jh_round (nibble_bits (round_constant r))) [0..<n] (interleave E D) = interleave E' D'
    \<and> agree n (fold sliced_round [0..<n] x) E' D'"
  using assms(2)
proof (induction n)
  case (Suc n)
  then obtain E' D' where ED: "fold (\<lambda>r. jh_round (nibble_bits (round_constant r))) [0..<n] (interleave E D) = interleave E' D'"
    "agree n (fold sliced_round [0..<n] x) E' D'"
    by auto
  have n: "n < 42"
    using Suc.prems by simp
  show ?case
    using agree_round [OF ED(2) round_bits(1,2,4,5) [OF n]] round_bits(3) [OF n] by (simp add: ED(1))
qed (use assms(1) in auto)

section \<open>Grouping\<close>

lemma jbit_bytes:
  assumes "length x = 16" "j < 8"
  shows "jbit x j c = msb_bits (bytes64 x) ! (128 * j + unat c)"
proof -
  have "map (load64 (bytes64 x)) [0..<16] = x"
    using assms(1) by (intro nth_equalityI) (simp_all add: load_bytes64)
  then show ?thesis
    using jbit_load [of j "bytes64 x" 16 c] assms by (simp add: length_stored)
qed

definition even_nibbles :: "byte list \<Rightarrow> nibble list" where
  "even_nibbles H = (let r = bit_row (msb_bits H) in zip (r 0) (zip (r 2) (zip (r 4) (r 6))))"

definition odd_nibbles :: "byte list \<Rightarrow> nibble list" where
  "odd_nibbles H = (let r = bit_row (msb_bits H) in zip (r 1) (zip (r 3) (zip (r 5) (r 7))))"

lemma grouping_eq: "grouping H = interleave (even_nibbles H) (odd_nibbles H)"
  by (simp add: grouping_def even_nibbles_def odd_nibbles_def Let_def)

lemma length_bit_row: "length h = 1024 \<Longrightarrow> j < 8 \<Longrightarrow> length (bit_row h j) = 128"
  by (simp add: bit_row_def)

lemma nibbles_agree:
  assumes "length x = 16"
  shows "agree 0 x (even_nibbles (bytes64 x)) (odd_nibbles (bytes64 x))"
proof -
  let ?h = "msb_bits (bytes64 x)"
  have h: "length ?h = 1024"
    using assms by (simp add: length_stored)
  have "bit_row ?h j ! unat c = jbit x j c" if "j < 8" for j c
    using jbit_bytes [OF assms that] unat_7 [of c] h that by (simp add: bit_row_def)
  then show ?thesis
    using assms length_bit_row [OF h] unat_7
    by (simp add: agree_def even_nibbles_def odd_nibbles_def Let_def rotr_0 even_nibble_def odd_nibble_def)
qed

lemma agree_unique:
  assumes "agree 0 x E D" "agree 0 x E' D'"
  shows "E = E'" "D = D'"
proof -
  have "A = B" if "length A = 128" "length B = 128" "\<And>c :: 7 word. A ! unat c = B ! unat c" for A B :: "nibble list"
  proof (rule nth_equalityI)
    fix i
    assume "i < length A"
    then have "unat (word_of_nat i :: 7 word) = i"
      using that(1) by (simp add: unsigned_of_nat take_bit_nat_eq_self)
    then show "A ! i = B ! i"
      using that(3) [of "word_of_nat i"] by simp
  qed (simp add: that)
  then show "E = E'" "D = D'"
    using assms by (simp_all add: agree_def rotr_0)
qed

lemma agree_42: "agree 42 x E D = agree 0 x E D"
  using rotr_mod [of 42] by (simp add: agree_def rotr_0)

lemma E8_grouping:
  assumes "length x = 16"
  shows "spec_E8_rounds (grouping (bytes64 x)) = grouping (bytes64 (E8 x))" "length (E8 x) = 16"
proof -
  obtain E D where ED: "spec_E8_rounds (grouping (bytes64 x)) = interleave E D" "agree 42 (E8 x) E D"
    using agree_rounds [OF nibbles_agree [OF assms], of 42] by (auto simp: spec_E8_rounds_def grouping_eq E8_rounds)
  show l: "length (E8 x) = 16"
    using ED(2) by (simp add: agree_def)
  show "spec_E8_rounds (grouping (bytes64 x)) = grouping (bytes64 (E8 x))"
    using agree_unique [OF ED(2) [unfolded agree_42] nibbles_agree [OF l]] unfolding ED(1) by (simp add: grouping_eq)
qed

lemma bits_byte_bits: "bits_byte (byte_bits b) = b"
proof -
  have "\<forall>n < 8. bit (bits_byte (byte_bits b)) n = bit b n"
    unfolding all_less_8 byte_bits_def bits_byte.simps foldl.simps
    by (simp only: bit_or_iff bit_push_bit_iff possible_bit_word bit_of_bool_iff bit_0_eq) simp
  then show ?thesis
    by (intro bit_word_eqI) simp
qed

lemma bits_bytes_msb: "bits_bytes (msb_bits s) = s"
proof (induction s)
  case (Cons b s)
  have "bits_bytes (msb_bits (b # s)) = bits_byte (byte_bits b) # bits_bytes (msb_bits s)"
    by (simp add: msb_bits_def byte_bits_def del: bits_byte.simps)
  then show ?case
    by (simp only: Cons bits_byte_bits)
qed (simp add: msb_bits_def)

lemma degrouping_grouping: "length H = 128 \<Longrightarrow> degrouping (grouping H) = H"
proof -
  assume H: "length H = 128"
  let ?h = "msb_bits H"
  have h: "length ?h = 1024"
    using H by simp
  let ?r = "bit_row ?h"
  have l: "length (?r j) = 128" if "j < 8" for j
    using length_bit_row [OF h that] .
  have z: "map (\<lambda>(a, b, c, d). a) (zip as (zip bs (zip cs ds))) = as" "map (\<lambda>(a, b, c, d). b) (zip as (zip bs (zip cs ds))) = bs"
    "map (\<lambda>(a, b, c, d). c) (zip as (zip bs (zip cs ds))) = cs" "map (\<lambda>(a, b, c, d). d) (zip as (zip bs (zip cs ds))) = ds"
    if "length as = 128" "length bs = 128" "length cs = 128" "length ds = 128" for as bs cs ds :: "bool list"
    using that by (auto intro!: nth_equalityI)
  have "[0..<8] = [0, 1, 2, 3, 4, 5, 6, 7]"
    by (simp add: upt_rec)
  then have rows: "?r 0 @ ?r 1 @ ?r 2 @ ?r 3 @ ?r 4 @ ?r 5 @ ?r 6 @ ?r 7 = ?h"
    using concat_blocks [of 128 ?h 8] h by (simp add: bit_row_def)
  have "degrouping (grouping H) = bits_bytes (?r 0 @ ?r 1 @ ?r 2 @ ?r 3 @ ?r 4 @ ?r 5 @ ?r 6 @ ?r 7)"
    using l by (simp add: degrouping_def grouping_eq even_nibbles_def odd_nibbles_def Let_def z)
  then show ?thesis
    by (simp only: rows bits_bytes_msb)
qed

lemma E8_spec:
  assumes "length x = 16"
  shows "bytes64 (E8 x) = spec_E8 (bytes64 x)"
  using E8_grouping [OF assms] degrouping_grouping [of "bytes64 (E8 x)"] by (simp add: spec_E8_def length_stored)

end
