(* ===== verification/JhHash.thy ===== *)
theory JhHash
  imports JhE8 Streaming
begin

text \<open>
  The compression function, the context functions and the hash of \<^verbatim>\<open>jh.c\<close> against the definition of JH on the padded message, with the accesses to the message
  and the buffer within their bounds; and the call sequence for which they are not.
\<close>

section \<open>The specification\<close>

text \<open>A one bit, \<open>383 + (- n mod 512)\<close> zero bits, and the length in 128 bits; the last byte of the message has the first of the zeros.\<close>

definition jh_pad :: "byte list \<Rightarrow> nat \<Rightarrow> byte list" where
  "jh_pad m n = (let z = (383 + (512 - n mod 512) mod 512 - (7 - n mod 8)) div 8
     in take (n div 8) m @ [last_byte m n] @ replicate z 0 @ replicate 8 0 @ be64 (word_of_nat n))"

text \<open>The code assumes that the bits of the last byte after the message are zero.\<close>

definition clean :: "byte list \<Rightarrow> nat \<Rightarrow> bool" where
  "clean m n \<longleftrightarrow> (if n mod 8 = 0 then True else take_bit (8 - n mod 8) (m ! (n div 8)) = 0)"

definition jh_iv :: "int \<Rightarrow> byte list" where
  "jh_iv hbl = (if hbl = 224 then JH224_H0 else if hbl = 256 then JH256_H0 else if hbl = 384 then JH384_H0 else JH512_H0)"

text \<open>The digest: the last bits of the state.\<close>

definition spec_jh :: "int \<Rightarrow> byte list \<Rightarrow> nat \<Rightarrow> byte list" where
  "spec_jh hbl m n = drop (128 - nat hbl div 8) (blocks spec_F8 64 (jh_iv hbl) (jh_pad m n))"

section \<open>The compression function\<close>

lemma bytes64_xor:
  assumes "length b = 64" "length y = 16" "length x = 16"
    "\<And>i. i < 16 \<Longrightarrow> y ! i = (if o8 \<le> i \<and> i < o8 + 8 then x ! i XOR load64 b (i - o8) else x ! i)"
    "k < 128" "o8 = 0 \<or> o8 = 8"
  shows "bytes64 y ! k = (if 8 * o8 \<le> k \<and> k < 8 * o8 + 64 then bytes64 x ! k XOR b ! (k - 8 * o8) else bytes64 x ! k)"
proof -
  have k: "k div 8 < 16" "8 * (k div 8) + k mod 8 = k"
    using assms(5) by simp_all
  have c: "8 * o8 \<le> k \<longleftrightarrow> o8 \<le> k div 8" "k < 8 * o8 + 64 \<longleftrightarrow> k div 8 < o8 + 8"
    using assms(6) by (auto simp: div_less_iff_less_mult less_eq_div_iff_mult_less_eq)
  show ?thesis
  proof (cases "o8 \<le> k div 8 \<and> k div 8 < o8 + 8")
    case True
    then have "8 * (k div 8 - o8) + 8 \<le> length b" "8 * (k div 8 - o8) + k mod 8 = k - 8 * o8"
      using assms(1) k(2) by (auto simp: diff_mult_distrib2)
    then have "ucast (drop_bit (8 * (k mod 8)) (load64 b (k div 8 - o8))) = b ! (k - 8 * o8)"
      using byte_load64 [of "k div 8 - o8" b "k mod 8"] by simp
    moreover have "ucast (v XOR w) = (ucast v XOR ucast w :: byte)" for v w :: u64
      by (rule bit_word_eqI) (simp add: bit_simps)
    moreover have "y ! (k div 8) = x ! (k div 8) XOR load64 b (k div 8 - o8)"
      using True assms(4) [OF k(1)] by simp
    ultimately show ?thesis
      using True assms(2,3,5) by (simp add: nth_bytes64 c drop_bit_xor)
  next
    case False
    then show ?thesis
      using assms(2,3,5) assms(4) [OF k(1)] by (auto simp: nth_bytes64 c)
  qed
qed

lemma fold_xor_words:
  assumes "length x = 16" "o8 = 0 \<or> o8 = 8"
  shows "length (fold (\<lambda>i x. x[o8 + i := x ! (o8 + i) XOR load64 b i]) [0..<8] x) = 16"
    "i < 16 \<Longrightarrow> fold (\<lambda>i x. x[o8 + i := x ! (o8 + i) XOR load64 b i]) [0..<8] x ! i
      = (if o8 \<le> i \<and> i < o8 + 8 then x ! i XOR load64 b (i - o8) else x ! i)"
proof -
  have gen: "length (fold (\<lambda>i x. x[o8 + i := x ! (o8 + i) XOR load64 b i]) [0..<n] x) = 16
      \<and> (\<forall>i < 16. fold (\<lambda>i x. x[o8 + i := x ! (o8 + i) XOR load64 b i]) [0..<n] x ! i
        = (if o8 \<le> i \<and> i < o8 + n then x ! i XOR load64 b (i - o8) else x ! i))" if "n \<le> 8" for n
    using that
  proof (induction n)
    case (Suc n)
    then show ?case
      using assms by (auto simp: nth_list_update)
  qed (auto simp: assms(1))
  show "length (fold (\<lambda>i x. x[o8 + i := x ! (o8 + i) XOR load64 b i]) [0..<8] x) = 16"
    "i < 16 \<Longrightarrow> fold (\<lambda>i x. x[o8 + i := x ! (o8 + i) XOR load64 b i]) [0..<8] x ! i
      = (if o8 \<le> i \<and> i < o8 + 8 then x ! i XOR load64 b (i - o8) else x ! i)"
    using gen [of 8] by simp_all
qed

lemma bytes64_fold_xor:
  assumes "length x = 16" "length b = 64"
  shows "bytes64 (fold (\<lambda>i x. x[i := x ! i XOR load64 b i]) [0..<8] x) = map2 (XOR) (take 64 (bytes64 x)) b @ drop 64 (bytes64 x)"
    "bytes64 (fold (\<lambda>i x. x[8 + i := x ! (8 + i) XOR load64 b i]) [0..<8] x) = take 64 (bytes64 x) @ map2 (XOR) (drop 64 (bytes64 x)) b"
proof -
  note f0 = fold_xor_words [OF assms(1), where b = b and ?o8.0 = 0, OF disjI1, OF refl, unfolded add_0]
  note f8 = fold_xor_words [OF assms(1), where b = b and ?o8.0 = 8, OF disjI2, OF refl]
  show "bytes64 (fold (\<lambda>i x. x[i := x ! i XOR load64 b i]) [0..<8] x) = map2 (XOR) (take 64 (bytes64 x)) b @ drop 64 (bytes64 x)"
    using bytes64_xor [OF assms(2) f0(1) assms(1), of 0] f0 assms
    by (intro nth_equalityI) (auto simp: length_stored nth_append simp del: fold.simps upt_Suc)
  show "bytes64 (fold (\<lambda>i x. x[8 + i := x ! (8 + i) XOR load64 b i]) [0..<8] x) = take 64 (bytes64 x) @ map2 (XOR) (drop 64 (bytes64 x)) b"
    using bytes64_xor [OF assms(2) f8(1) assms(1), of 8] f8 assms
    by (intro nth_equalityI) (auto simp: length_stored nth_append simp del: fold.simps upt_Suc)
qed

lemma F8_spec:
  assumes "length (jh_x st) = 16" "length (jbuffer st) = 64"
  shows "\<exists>x. F8 st = st\<lparr>jh_x := x\<rparr> \<and> length x = 16 \<and> bytes64 x = spec_F8 (bytes64 (jh_x st)) (jbuffer st)"
proof -
  let ?b = "jbuffer st"
  let ?y = "fold (\<lambda>i x. x[i := x ! i XOR load64 ?b i]) [0..<8] (jh_x st)"
  let ?z = "fold (\<lambda>i x. x[8 + i := x ! (8 + i) XOR load64 ?b i]) [0..<8] (E8 ?y)"
  have y: "length ?y = 16"
    using fold_xor_words(1) [OF assms(1), of 0 ?b] by simp
  note E = E8_spec [OF y] E8_grouping(2) [OF y]
  have "F8 st = st\<lparr>jh_x := ?z\<rparr>"
    by (simp add: F8_def Let_def)
  moreover have "length ?z = 16"
    using fold_xor_words(1) [OF E(2), of 8 ?b] by simp
  moreover have "bytes64 ?z = spec_F8 (bytes64 (jh_x st)) ?b"
    unfolding spec_F8_def Let_def bytes64_fold_xor(2) [OF E(2) assms(2)] E(1) bytes64_fold_xor(1) [OF assms] by (rule refl)
  ultimately show ?thesis
    by blast
qed

section \<open>Updates\<close>

lemma unat_512: "512 \<le> (d :: u64) \<longleftrightarrow> 512 \<le> unat d"
  by (simp add: word_le_nat_alt)

lemma jh_blocks_spec:
  assumes "length (jh_x st) = 16" "length (jbuffer st) = 64" "8 * unat index + unat dbl < 2 ^ 64" "unat index + unat dbl div 8 \<le> length data"
  shows "\<exists>x b index' dbl'. jh_blocks st data index dbl = Inr (st\<lparr>jh_x := x, jbuffer := b\<rparr>, index', dbl') \<and> length x = 16 \<and> length b = 64
    \<and> unat index' = unat index + 64 * (unat dbl div 512) \<and> unat dbl' = unat dbl mod 512
    \<and> bytes64 x = blocks spec_F8 64 (bytes64 (jh_x st)) (take (unat dbl div 8) (drop (unat index) data))"
  using assms
proof (induction st data index dbl rule: jh_blocks.induct)
  case (1 st data index dbl)
  show ?case
  proof (cases "512 \<le> dbl")
    case True
    then have d: "512 \<le> unat dbl" "unat (dbl - 512) = unat dbl - 512"
      by (simp_all add: unat_512 unat_sub)
    have i: "unat (index + 64) = unat index + 64"
      using 1(4) d(1) by (simp add: unat_word_ariths)
    let ?b = "take 64 (drop (unat index) data)"
    have dd: "64 \<le> unat dbl div 8" "unat dbl div 8 = 64 + (unat dbl - 512) div 8" "unat dbl div 512 = Suc ((unat dbl - 512) div 512)"
      "unat dbl mod 512 = (unat dbl - 512) mod 512"
      using d(1) by (simp_all add: less_eq_div_iff_mult_less_eq le_div_geq le_mod_geq div_if [of "unat dbl" 512])
    have l: "unat index + 64 \<le> length data"
      using 1(5) dd(1) by linarith
    define st' where "st' = st\<lparr>jbuffer := ?b\<rparr>"
    have c: "copy_in st 0 data (unat index) 64 = Inr st'"
      using l 1(3) by (simp add: copy_in_def memcpy_def st'_def)
    obtain y where y: "F8 st' = st'\<lparr>jh_x := y\<rparr>" "length y = 16" "bytes64 y = spec_F8 (bytes64 (jh_x st)) ?b"
      using F8_spec [of st'] 1(2) l by (auto simp: st'_def)
    have "\<exists>x b index' dbl'. jh_blocks (F8 st') data (index + 64) (dbl - 512) = Inr ((F8 st')\<lparr>jh_x := x, jbuffer := b\<rparr>, index', dbl')
      \<and> length x = 16 \<and> length b = 64 \<and> unat index' = unat (index + 64) + 64 * (unat (dbl - 512) div 512) \<and> unat dbl' = unat (dbl - 512) mod 512
      \<and> bytes64 x = blocks spec_F8 64 (bytes64 (jh_x (F8 st'))) (take (unat (dbl - 512) div 8) (drop (unat (index + 64)) data))"
    proof (rule 1(1) [OF True c])
      show "length (jh_x (F8 st')) = 16" "length (jbuffer (F8 st')) = 64"
        using y l by (simp_all add: st'_def)
      show "8 * unat (index + 64) + unat (dbl - 512) < 2 ^ 64"
        using 1(4) d i by simp
      show "unat (index + 64) + unat (dbl - 512) div 8 \<le> length data"
        using 1(5) d(2) i dd(2) by simp
    qed
    then obtain x b index' dbl' where x: "jh_blocks (F8 st') data (index + 64) (dbl - 512) = Inr ((F8 st')\<lparr>jh_x := x, jbuffer := b\<rparr>, index', dbl')"
      "length x = 16" "length b = 64" "unat index' = unat (index + 64) + 64 * (unat (dbl - 512) div 512)" "unat dbl' = unat (dbl - 512) mod 512"
      "bytes64 x = blocks spec_F8 64 (bytes64 (jh_x (F8 st'))) (take (unat (dbl - 512) div 8) (drop (unat (index + 64)) data))"
      by blast
    have "jh_blocks st data index dbl = Inr (st\<lparr>jh_x := x, jbuffer := b\<rparr>, index', dbl')"
    proof -
      have "(F8 st')\<lparr>jh_x := x, jbuffer := b\<rparr> = st\<lparr>jh_x := x, jbuffer := b\<rparr>"
        unfolding y(1) by (simp add: st'_def)
      then show ?thesis
        using True c x(1) by (simp add: jh_blocks.simps [of st])
    qed
    moreover have "unat index' = unat index + 64 * (unat dbl div 512)" "unat dbl' = unat dbl mod 512"
      using x(4,5) d(2) i dd(3,4) by simp_all
    moreover have "blocks spec_F8 64 h (take (unat dbl div 8) (drop (unat index) data))
        = blocks spec_F8 64 (spec_F8 h ?b) (take ((unat dbl - 512) div 8) (drop (unat index + 64) data))" for h
    proof -
      have "64 \<le> length (take (unat dbl div 8) (drop (unat index) data))"
        using l dd(1) by simp
      from blocks_step [OF _ this, of spec_F8 h] show ?thesis
        using dd(1,2) by (simp add: drop_take min_def add.commute)
    qed
    ultimately show ?thesis
      using x y d(2) i by auto
  next
    case False
    then have d: "\<not> 512 \<le> unat dbl"
      by (simp add: unat_512)
    then have "length (take (unat dbl div 8) (drop (unat index) data)) < 64"
      by (simp add: div_less_iff_less_mult)
    then show ?thesis
      using False d 1(2,3) by (intro exI [of _ "jh_x st"] exI [of _ "jbuffer st"] exI [of _ index] exI [of _ dbl]) (simp add: jh_blocks.simps [of st] blocks_short)
  qed
qed

lemma unat_masks:
  fixes d :: u64
  shows "unat (d AND 7) = unat d mod 8" "unat (d AND 0x1ff) = unat d mod 512" "unat (drop_bit 3 (d AND 0x1ff)) = unat d mod 512 div 8"
    "d AND 7 = 0 \<longleftrightarrow> unat d mod 8 = 0" "d AND 0x1ff = 0 \<longleftrightarrow> unat d mod 512 = 0"
proof -
  have m: "(7 :: u64) = mask 3" "(0x1ff :: u64) = mask 9"
    by (simp_all add: mask_eq_exp_minus_1)
  show 7: "unat (d AND 7) = unat d mod 8" and 511: "unat (d AND 0x1ff) = unat d mod 512"
    unfolding m take_bit_eq_mask [symmetric] by (simp_all add: unsigned_take_bit_eq take_bit_eq_mod unat_mod)
  then show "unat (drop_bit 3 (d AND 0x1ff)) = unat d mod 512 div 8"
    by (simp add: drop_bit_eq_div unat_div)
  show "d AND 7 = 0 \<longleftrightarrow> unat d mod 8 = 0" "d AND 0x1ff = 0 \<longleftrightarrow> unat d mod 512 = 0"
    unfolding 7 [symmetric] 511 [symmetric] by (simp_all add: unat_eq_zero)
qed

text \<open>The bytes of the message in the buffer after the full blocks, the last one possibly with unused bits.\<close>

definition rest_bytes :: "byte list \<Rightarrow> nat \<Rightarrow> byte list" where
  "rest_bytes m n = (let k = n mod 512 div 8 in take (if n mod 8 = 0 then k else k + 1) (drop (64 * (n div 512)) m))"

lemma rest_less: "n mod 512 div 8 < 64" for n :: nat
  by (simp add: div_less_iff_less_mult)

lemma rest_eq: "n div 8 = 64 * (n div 512) + n mod 512 div 8" for n :: nat
proof -
  have "n div 8 = (8 * (64 * (n div 512)) + n mod 512) div 8"
    using mult_div_mod_eq [of 512 n] by simp
  also have "\<dots> = 64 * (n div 512) + n mod 512 div 8"
    by (rule div_mult_self4) simp
  finally show ?thesis .
qed

lemma bytes_needed: "(n + 7) div 8 = (if n mod 8 = 0 then n div 8 else n div 8 + 1)" for n :: nat
  using div_add1_eq [of n 7 8] by (auto simp: div_if)

lemma jh_rest_spec:
  assumes "length (jbuffer st) = 64" "(n + 7) div 8 \<le> length data" "unat index = 64 * (n div 512)" "unat d = n mod 512"
    "datasize_in_buffer st = 0"
  shows "\<exists>b. jh_rest st data index d = Inr (st\<lparr>jbuffer := b, datasize_in_buffer := d\<rparr>) \<and> length b = 64
    \<and> take (length (rest_bytes data n)) b = rest_bytes data n"
proof (cases "n mod 512 = 0")
  case True
  then have "d = 0"
    using assms(4) by (simp add: unat_eq_zero)
  moreover have "rest_bytes data n = []"
    using True mod_mod_cancel [of 8 512 n] by (simp add: rest_bytes_def)
  ultimately show ?thesis
    using assms(1,5) by (intro exI [of _ "jbuffer st"]) (simp add: jh_rest_def)
next
  case False
  let ?k = "n mod 512 div 8"
  let ?l = "if n mod 8 = 0 then ?k else ?k + 1"
  have m8: "unat d mod 8 = n mod 8"
    using mod_mod_cancel [of 8 512 n] assms(4) by simp
  have l: "?l \<le> 64" "64 * (n div 512) + ?l \<le> length data"
    using rest_less [of n] rest_eq [of n] assms(2) bytes_needed [of n] by (auto split: if_splits)
  have r: "rest_bytes data n = take ?l (drop (64 * (n div 512)) data)"
    by (simp add: rest_bytes_def Let_def)
  have "length (take k (drop a data)) = k" if "a + k \<le> length data" for a k
    using that by simp
  from this [OF l(2)] have r2: "length (rest_bytes data n) = ?l"
    by (simp only: r)
  have "0 < d"
    using False assms(4) by (auto simp: word_less_nat_alt)
  moreover have "unat (drop_bit 3 (d AND 0x1ff)) = ?k"
    using unat_masks(3) [of d] assms(4) by (simp only: mod_mod_trivial)
  moreover have "copy_in st 0 data (unat index) ?l = Inr (st\<lparr>jbuffer := memcpy (jbuffer st) 0 (rest_bytes data n)\<rparr>)"
    using l assms(1,3) unfolding r by (simp add: copy_in_def)
  ultimately have "jh_rest st data index d = Inr (st\<lparr>jbuffer := memcpy (jbuffer st) 0 (rest_bytes data n), datasize_in_buffer := d\<rparr>)"
    by (cases "n mod 8 = 0") (simp_all add: jh_rest_def unat_masks m8)
  then show ?thesis
    using take_memcpy [of 0 "jbuffer st" "rest_bytes data n"] length_memcpy [of 0 "rest_bytes data n" "jbuffer st"] assms(1) l(1) r2 by auto
qed

text \<open>A context with an empty buffer.\<close>

lemma jh_update_spec:
  assumes "length (jh_x st) = 16" "length (jbuffer st) = 64" "datasize_in_buffer st = 0" "(unat n + 7) div 8 \<le> length data"
  shows "\<exists>x b. jh_Update st data n = Inr (st\<lparr>databitlen := databitlen st + n, jh_x := x, jbuffer := b, datasize_in_buffer := n mod 512\<rparr>)
    \<and> length x = 16 \<and> bytes64 x = blocks spec_F8 64 (bytes64 (jh_x st)) (take (unat n div 8) data)
    \<and> length b = 64 \<and> take (length (rest_bytes data (unat n))) b = rest_bytes data (unat n)"
proof -
  let ?s = "st\<lparr>databitlen := databitlen st + n\<rparr>"
  have f: "jh_fill ?s data n = Inr (?s, 0, n)"
    using assms(3) by (simp add: jh_fill_def)
  have "unat n div 8 \<le> length data"
    using assms(4) bytes_needed [of "unat n"] by (simp split: if_splits)
  then obtain x b i d where x: "jh_blocks ?s data 0 n = Inr (?s\<lparr>jh_x := x, jbuffer := b\<rparr>, i, d)" "length x = 16" "length b = 64"
    "unat i = 64 * (unat n div 512)" "unat d = unat n mod 512" "bytes64 x = blocks spec_F8 64 (bytes64 (jh_x st)) (take (unat n div 8) data)"
    using jh_blocks_spec [of ?s 0 n data] assms(1,2) unsigned_less [of n] by auto
  have d: "d = n mod 512"
    using x(5) by (simp add: word_unat_eq_iff unat_mod)
  obtain c where "jh_rest (?s\<lparr>jh_x := x, jbuffer := b\<rparr>) data i d = Inr (?s\<lparr>jh_x := x, jbuffer := c, datasize_in_buffer := d\<rparr>)"
    "length c = 64" "take (length (rest_bytes data (unat n))) c = rest_bytes data (unat n)"
    using jh_rest_spec [of "?s\<lparr>jh_x := x, jbuffer := b\<rparr>" "unat n" data i d] x(3-5) assms(3,4) by auto
  then show ?thesis
    using x(2,6) d by (intro exI [of _ x] exI [of _ c]) (simp add: jh_Update_def f x(1))
qed

section \<open>The last blocks\<close>

lemma zero_from_eq: "length b = 64 \<Longrightarrow> k \<le> 64 \<Longrightarrow> zero_from k b = take k b @ replicate (64 - k) 0"
proof -
  assume b: "length b = 64" and k: "k \<le> 64"
  have "length (fold (\<lambda>i b. b[i := 0]) is b) = length b
      \<and> (\<forall>i < length b. fold (\<lambda>i b. b[i := 0]) is b ! i = (if i \<in> set is then 0 else b ! i))" for "is" and b :: "byte list"
    by (induction "is" arbitrary: b) auto
  then show ?thesis
    using b k by (intro nth_equalityI) (auto simp: zero_from_def nth_append)
qed

lemma length_block_eq: "length b = 56 \<Longrightarrow> length_block n (b @ replicate 8 0) = b @ be64 n"
proof -
  assume "length b = 56"
  moreover have "ucast (m AND 0xff) = (ucast m :: byte)" for m :: u64
  proof -
    have m: "(0xff :: u64) = mask 8"
      by (simp add: mask_eq_exp_minus_1)
    show ?thesis
      unfolding m by (intro bit_word_eqI) (auto simp: bit_simps)
  qed
  moreover have "replicate 8 (0 :: byte) = [0, 0, 0, 0, 0, 0, 0, 0]"
    by (simp add: numeral_eq_Suc)
  ultimately show ?thesis
    by (simp add: length_block_def be64_def list_update_append)
qed

lemma F8_block:
  assumes "length (jh_x st) = 16" "length b = 64"
  shows "\<exists>x. F8 (st\<lparr>jbuffer := b\<rparr>) = st\<lparr>jh_x := x, jbuffer := b\<rparr> \<and> length x = 16 \<and> bytes64 x = spec_F8 (bytes64 (jh_x st)) b"
proof -
  have "st\<lparr>jbuffer := b, jh_x := x\<rparr> = st\<lparr>jh_x := x, jbuffer := b\<rparr>" for x
    by (cases st) simp
  moreover obtain x where "F8 (st\<lparr>jbuffer := b\<rparr>) = st\<lparr>jbuffer := b, jh_x := x\<rparr>" "length x = 16" "bytes64 x = spec_F8 (bytes64 (jh_x st)) b"
    using F8_spec [of "st\<lparr>jbuffer := b\<rparr>"] assms by auto
  ultimately show ?thesis
    by (intro exI [of _ x]) simp
qed

lemma F8_F8:
  assumes "length (jh_x st) = 16" "length b = 64" "length c = 64"
  shows "\<exists>x. F8 ((F8 (st\<lparr>jbuffer := b\<rparr>))\<lparr>jbuffer := c\<rparr>) = st\<lparr>jh_x := x, jbuffer := c\<rparr> \<and> length x = 16
    \<and> bytes64 x = spec_F8 (spec_F8 (bytes64 (jh_x st)) b) c"
proof -
  obtain y where y: "F8 (st\<lparr>jbuffer := b\<rparr>) = st\<lparr>jh_x := y, jbuffer := b\<rparr>" "length y = 16" "bytes64 y = spec_F8 (bytes64 (jh_x st)) b"
    using F8_block [of st b] assms by auto
  obtain x where "F8 (st\<lparr>jh_x := y, jbuffer := c\<rparr>) = st\<lparr>jh_x := x, jbuffer := c\<rparr>" "length x = 16" "bytes64 x = spec_F8 (bytes64 y) c"
    using F8_block [of "st\<lparr>jh_x := y\<rparr>" c] y(2) assms by auto
  then show ?thesis
    using y by (intro exI [of _ x]) simp
qed

lemma jh_digest_eq:
  assumes "length (jh_x st) = 16" "hashbitlen st \<in> {224, 256, 384, 512}"
  shows "jh_digest st = Some (drop (128 - nat (hashbitlen st) div 8) (bytes64 (jh_x st)))"
proof -
  have "length (bytes64 (jh_x st)) = 128"
    using assms(1) by (simp add: length_stored)
  then have "take (128 - n) (drop n (bytes64 (jh_x st))) = drop n (bytes64 (jh_x st))" for n
    by simp
  from this [of 100] this [of 96] this [of 80] this [of 64] show ?thesis
    using assms(2) by (auto simp: jh_digest_def Let_def)
qed

text \<open>The first of the two last blocks: the rest of the message with the one bit.\<close>

lemma last_block:
  assumes "length b = 64" "take (length (rest_bytes m n)) b = rest_bytes m n" "(n + 7) div 8 \<le> length m" "clean m n"
  defines "k \<equiv> n mod 512 div 8"
  defines "c \<equiv> if n mod 8 = 0 then zero_from k b else zero_from (k + 1) b"
  shows "c[k := c ! k OR push_bit (7 - n mod 8) 1] = tail 64 (take (n div 8) m) @ [last_byte m n] @ replicate (63 - k) 0"
proof -
  let ?w = "take k (drop (64 * (n div 512)) m)"
  have k: "k < 64" "n div 8 = 64 * (n div 512) + k"
    using rest_less [of n] rest_eq [of n] by (simp_all add: k_def)
  have q: "n div 8 \<le> length m" "n mod 8 \<noteq> 0 \<Longrightarrow> n div 8 < length m"
    using assms(3) bytes_needed [of n] by (simp_all split: if_splits)
  have w: "length ?w = k"
    using q(1) k by simp
  have "length (take (n div 8) m) div 64 = n div 512"
    using q(1) by (simp add: div_mult2_eq [symmetric])
  then have t: "tail 64 (take (n div 8) m) = ?w"
    using k(2) by (simp add: tail_def drop_take)
  show ?thesis
  proof (cases "n mod 8 = 0")
    case True
    then have "take k b = ?w"
      using assms(2) w by (simp add: rest_bytes_def k_def [symmetric])
    then have "c = ?w @ replicate (64 - k) 0"
      using True zero_from_eq [OF assms(1), of k] k by (simp add: c_def)
    also have "replicate (64 - k) (0 :: byte) = 0 # replicate (63 - k) 0"
      using k by (metis Suc_diff_Suc diff_Suc_Suc numeral_eq_Suc pred_numeral_simps(2) replicate_Suc semiring_norm(26,27,28) semiring_norm(2))
    finally show ?thesis
      using True w by (simp add: t last_byte_def list_update_append nth_append)
  next
    case False
    let ?l = "m ! (n div 8)"
    have "rest_bytes m n = ?w @ [?l]"
      using False q(2) k(2) by (simp add: rest_bytes_def k_def [symmetric] take_Suc_conv_app_nth)
    then have "take (k + 1) b = ?w @ [?l]"
      using assms(2) w by simp
    then have "c = ?w @ ?l # replicate (63 - k) 0"
      using False zero_from_eq [OF assms(1), of "k + 1"] k by (simp add: c_def)
    moreover have "push_bit (8 - n mod 8) (drop_bit (8 - n mod 8) ?l) = ?l"
    proof -
      have "take_bit (8 - n mod 8) ?l = 0"
        using False assms(4) by (simp add: clean_def)
      then show ?thesis
        using bits_ident [of "8 - n mod 8" ?l] by simp
    qed
    ultimately show ?thesis
      using False w by (simp add: t last_byte_def Let_def list_update_append nth_append)
  qed
qed

lemma blocks_two: "0 < w \<Longrightarrow> length b = w \<Longrightarrow> length c = w \<Longrightarrow> blocks f w h (b @ c) = f (f h b) c"
  by (simp add: blocks_step [of w "b @ c"] blocks_one)

text \<open>The blocks of the padded message after its full blocks.\<close>

lemma jh_pad_blocks:
  assumes "(n + 7) div 8 \<le> length m"
  defines "d \<equiv> take (n div 8) m" and "k \<equiv> n mod 512 div 8" and "l \<equiv> be64 (word_of_nat n)"
  shows "blocks spec_F8 64 iv (jh_pad m n) = (let h = blocks spec_F8 64 iv d in
    if n mod 512 = 0 then spec_F8 h (0x80 # replicate 55 0 @ l)
    else spec_F8 (spec_F8 h (tail 64 d @ [last_byte m n] @ replicate (63 - k) 0)) (replicate 56 0 @ l))"
proof -
  have k: "k < 64" "n div 8 = 64 * (n div 512) + k"
    using rest_less [of n] rest_eq [of n] by (simp_all add: k_def)
  have q: "n div 8 \<le> length m"
    using assms(1) bytes_needed [of n] by (simp split: if_splits)
  have t: "length (tail 64 d) = k"
    using q k by (simp add: length_tail d_def)
  have l: "length l = 8"
    by (simp add: l_def be64_def)
  show ?thesis
  proof (cases "n mod 512 = 0")
    case True
    then have "n mod 8 = 0" "k = 0"
      using mod_mod_cancel [of 8 512 n] by (simp_all add: k_def)
    then have "tail 64 d = []" "last_byte m n = 0x80" "jh_pad m n = d @ [0x80] @ replicate 47 0 @ replicate 8 0 @ l"
      using t True by (simp_all add: last_byte_def jh_pad_def d_def l_def)
    moreover have "replicate 47 (0 :: byte) @ replicate 8 0 = replicate 55 0"
      by (simp flip: replicate_add)
    ultimately show ?thesis
      using True l blocks_append [of spec_F8 64 iv d] by (simp add: blocks_one flip: append_assoc)
  next
    case False
    have z: "(383 + (512 - n mod 512) mod 512 - (7 - n mod 8)) div 8 = 63 - k + 48"
    proof -
      define r where "r = n mod 512"
      have r: "0 < r" "r < 512" "n mod 8 = r mod 8" "k = r div 8"
        using False mod_mod_cancel [of 8 512 n] by (simp_all add: r_def k_def)
      have e: "8 * k + r mod 8 = r" "r mod 8 < 8"
        by (simp_all add: r(4))
      have "383 + (512 - r) mod 512 - (7 - r mod 8) = 8 * (111 - k)"
        using r(1,2) e by simp
      then show ?thesis
        using k(1) by (simp add: r(3) flip: r_def)
    qed
    have p: "jh_pad m n = d @ [last_byte m n] @ replicate (63 - k) 0 @ replicate 56 0 @ l"
      using replicate_add [of "63 - k" 48 "0 :: byte"] replicate_add [of 48 8 "0 :: byte"]
      unfolding jh_pad_def Let_def z by (simp add: d_def l_def)
    let ?b = "tail 64 d @ [last_byte m n] @ replicate (63 - k) 0" and ?c = "replicate 56 0 @ l"
    have b: "length ?b = 64" "length ?c = 64"
      using t k(1) l by simp_all
    have "blocks spec_F8 64 iv (jh_pad m n) = blocks spec_F8 64 (blocks spec_F8 64 iv d) (?b @ ?c)"
      unfolding p by (subst blocks_append) simp
    also have "\<dots> = spec_F8 (spec_F8 (blocks spec_F8 64 iv d) ?b) ?c"
      by (rule blocks_two [OF _ b]) simp
    finally show ?thesis
      using False by simp
  qed
qed

lemma jh_final_spec:
  assumes "length (jh_x st) = 16" "length (jbuffer st) = 64" "hashbitlen st \<in> {224, 256, 384, 512}" "datasize_in_buffer st = databitlen st mod 512"
    "take (length (rest_bytes m n)) (jbuffer st) = rest_bytes m n" "n = unat (databitlen st)" "(n + 7) div 8 \<le> length m" "clean m n"
    "bytes64 (jh_x st) = blocks spec_F8 64 iv (take (n div 8) m)"
  shows "snd (jh_Final st) = Some (drop (128 - nat (hashbitlen st) div 8) (blocks spec_F8 64 iv (jh_pad m n)))"
proof -
  let ?l = "be64 (databitlen st)"
  have n: "word_of_nat n = databitlen st"
    using assms(6) by simp
  have z: "(replicate 64 0)[0 := 0x80] = (0x80 # replicate 55 0) @ replicate 8 (0 :: byte)" "replicate 64 0 = replicate 56 (0 :: byte) @ replicate 8 0"
    by (simp_all add: numeral_eq_Suc flip: replicate_add)
  show ?thesis
  proof (cases "n mod 512 = 0")
    case True
    let ?b = "0x80 # replicate 55 0 @ ?l"
    have "length_block (databitlen st) ((replicate 64 0)[0 := 0x80]) = ?b"
      unfolding z(1) using length_block_eq [of "0x80 # replicate 55 0"] by simp
    moreover obtain x where x: "F8 (st\<lparr>jbuffer := ?b\<rparr>) = st\<lparr>jh_x := x, jbuffer := ?b\<rparr>" "length x = 16" "bytes64 x = spec_F8 (bytes64 (jh_x st)) ?b"
      using F8_block [OF assms(1), of ?b] by (auto simp: be64_def)
    ultimately have "snd (jh_Final st) = jh_digest (st\<lparr>jh_x := x, jbuffer := ?b\<rparr>)"
      using True assms(6) by (simp add: jh_Final_def Let_def unat_masks)
    then show ?thesis
      using True assms(3,9) x(2,3) jh_digest_eq [of "st\<lparr>jh_x := x, jbuffer := ?b\<rparr>"] jh_pad_blocks [OF assms(7), of iv] n
      by (simp add: Let_def)
  next
    case False
    let ?k = "n mod 512 div 8" and ?c = "replicate 56 0 @ ?l"
    let ?z = "if n mod 8 = 0 then zero_from ?k (jbuffer st) else zero_from (?k + 1) (jbuffer st)"
    let ?b = "tail 64 (take (n div 8) m) @ [last_byte m n] @ replicate (63 - ?k) 0"
    have b: "?z[?k := ?z ! ?k OR push_bit (7 - n mod 8) 1] = ?b"
      by (rule last_block [OF assms(2,5,7,8)])
    have "length ?z = 64"
      using zero_from_eq [OF assms(2)] rest_less [of n] assms(2) by auto
    then have l: "length ?b = 64" "length ?c = 64"
      using arg_cong [OF b, of length] rest_less [of n] by (simp_all add: be64_def)
    have c: "length_block (databitlen st) (replicate 64 0) = ?c"
      unfolding z(2) using length_block_eq [of "replicate 56 0"] by simp
    obtain x where x: "F8 ((F8 (st\<lparr>jbuffer := ?b\<rparr>))\<lparr>jbuffer := ?c\<rparr>) = st\<lparr>jh_x := x, jbuffer := ?c\<rparr>" "length x = 16"
      "bytes64 x = spec_F8 (spec_F8 (bytes64 (jh_x st)) ?b) ?c"
      using F8_F8 [OF assms(1) l] by auto
    have m: "unat (databitlen st mod 512) mod 8 = n mod 8" "unat (7 - (databitlen st AND 7)) = 7 - n mod 8"
      using mod_mod_cancel [of 8 512 n] assms(6) unat_masks(1) [of "databitlen st"]
      by (simp_all add: unat_mod unat_sub word_le_nat_alt unat_masks(1) less_Suc_eq_le [symmetric])
    have "snd (jh_Final st) = jh_digest (st\<lparr>jh_x := x, jbuffer := ?c\<rparr>)"
      using False unfolding jh_Final_def Let_def unat_masks(3,4,5) assms(4) assms(6) [symmetric] m c b x(1) by simp
    then show ?thesis
      using False assms(3,9) x(2,3) jh_digest_eq [of "st\<lparr>jh_x := x, jbuffer := ?c\<rparr>"] jh_pad_blocks [OF assms(7), of iv] n
      by (simp add: Let_def)
  qed
qed

section \<open>The hash\<close>

lemma bytes64_load_state:
  assumes "length b = 128"
  shows "bytes64 (load_state b) = b"
proof (rule nth_equalityI)
  have l: "length (load_state b) = 16"
    by (simp add: load_state_def)
  then show "length (bytes64 (load_state b)) = length b"
    using assms by (simp add: length_stored)
  fix k
  assume "k < length (bytes64 (load_state b))"
  then have k: "k < 128" "k div 8 < 16" "8 * (k div 8) + k mod 8 = k" "8 * (k div 8) + 8 \<le> 128"
    using l by (simp_all add: length_stored)
  then show "bytes64 (load_state b) ! k = b ! k"
    using byte_load64 [of "k div 8" b "k mod 8"] nth_bytes64 [of k "load_state b"] l assms by (simp add: load_state_def [of b])
qed

lemma length_jh_iv: "length JH224_H0 = 128" "length JH256_H0 = 128" "length JH384_H0 = 128" "length JH512_H0 = 128"
  by (simp_all add: JH224_H0_def JH256_H0_def JH384_H0_def JH512_H0_def)

lemma jh_init_spec:
  assumes "hbl \<in> {224, 256, 384, 512}"
  shows "\<exists>x. jh_Init st hbl = st\<lparr>databitlen := 0, datasize_in_buffer := 0, hashbitlen := hbl, jh_x := x\<rparr> \<and> length x = 16 \<and> bytes64 x = jh_iv hbl"
proof (intro exI conjI)
  show "jh_Init st hbl = st\<lparr>databitlen := 0, datasize_in_buffer := 0, hashbitlen := hbl, jh_x := load_state (jh_iv hbl)\<rparr>"
    using assms by (auto simp: jh_Init_def jh_iv_def Let_def)
  show "length (load_state (jh_iv hbl)) = 16"
    by (simp add: load_state_def)
  show "bytes64 (load_state (jh_iv hbl)) = jh_iv hbl"
    by (rule bytes64_load_state) (simp add: jh_iv_def length_jh_iv)
qed

lemma jh_hash_spec:
  assumes "hbl \<in> {224, 256, 384, 512}" "length (jbuffer state) = 64" "(unat n + 7) div 8 \<le> length data" "clean data (unat n)"
  shows "jh_hash state hbl data n = Inr (SUCCESS, Some (spec_jh hbl data (unat n)))"
proof -
  let ?s = "\<lambda>x. state\<lparr>databitlen := 0, datasize_in_buffer := 0, hashbitlen := hbl, jh_x := x\<rparr>"
  obtain x where x: "jh_Init state hbl = ?s x" "length x = 16" "bytes64 x = jh_iv hbl"
    using jh_init_spec [OF assms(1)] by blast
  obtain y b where u: "jh_Update (?s x) data n = Inr ((?s x)\<lparr>databitlen := 0 + n, jh_x := y, jbuffer := b, datasize_in_buffer := n mod 512\<rparr>)"
    and y: "length y = 16" "bytes64 y = blocks spec_F8 64 (jh_iv hbl) (take (unat n div 8) data)"
    and b: "length b = 64" "take (length (rest_bytes data (unat n))) b = rest_bytes data (unat n)"
    using jh_update_spec [of "?s x" n data] x(2,3) assms(2,3) by auto
  let ?t = "(?s x)\<lparr>databitlen := 0 + n, jh_x := y, jbuffer := b, datasize_in_buffer := n mod 512\<rparr>"
  have "snd (jh_Final ?t) = Some (drop (128 - nat (hashbitlen ?t) div 8) (blocks spec_F8 64 (jh_iv hbl) (jh_pad data (unat n))))"
    by (rule jh_final_spec) (use y b assms in simp_all)
  then show ?thesis
    using assms(1) unfolding jh_hash_def x(1) u spec_jh_def by auto
qed

text \<open>
  C12. For the four digest sizes, a message of \<open>n\<close> bits whose bytes are all there and whose last byte has zeros after the last bit, and whatever the
  uninitialised context holds, \<^verbatim>\<open>jh_hash\<close> of \<^verbatim>\<open>jh.c\<close> succeeds, never reads outside the message and never writes outside the buffer, and its digest is the
  last bits of the definition of JH: the compression function with the permutation of 42 rounds of S-boxes, linear transformation and nibble permutation, folded over the
  blocks of the padded message from the initial value.
\<close>

theorem jh_hash_correct:
  assumes "hbl \<in> {224, 256, 384, 512}" "length (jbuffer state) = 64" "(unat n + 7) div 8 \<le> length data" "clean data (unat n)"
  shows "jh_hash state hbl data n = Inr (SUCCESS, Some (spec_jh hbl data (unat n)))"
  by (rule jh_hash_spec [OF assms])

theorem jh_hash_witness:
  "jh_hash \<lparr>hashbitlen = 0, databitlen = 7, datasize_in_buffer = 9, jh_x = [], jbuffer = replicate 64 0xff\<rparr> 256 [0x61, 0x80] 9
    = Inr (SUCCESS, Some (spec_jh 256 [0x61, 0x80] 9))"
  using jh_hash_correct [of 256 "\<lparr>hashbitlen = 0, databitlen = 7, datasize_in_buffer = 9, jh_x = [], jbuffer = replicate 64 0xff\<rparr>" 9 "[0x61, 0x80]"]
  by (simp add: clean_def take_bit_eq_mod)

text \<open>
  Lemma. The call of the hash layer: whatever the context holds, for a message whose length in bits fits in 64 bits the assertion of
  \<^verbatim>\<open>hash_extra_jh\<close> holds and the digest is the JH-256 digest of the message.
\<close>

theorem hash_extra_jh_correct:
  assumes "length (jbuffer state) = 64" "length data < 2 ^ 61"
  shows "hash_extra_jh state data (word_of_nat (length data)) = Some (Inr (Some (spec_jh 256 data (8 * length data))))"
proof -
  have n: "unat (8 * word_of_nat (length data) :: u64) = 8 * length data"
    using assms(2) by (simp add: unat_word_ariths unsigned_of_nat take_bit_eq_mod)
  then show ?thesis
    using jh_hash_spec [of 256 state "8 * word_of_nat (length data)" data] assms(1) by (simp add: hash_extra_jh_def clean_def)
qed

theorem hash_extra_jh_witness:
  "hash_extra_jh \<lparr>hashbitlen = 0, databitlen = 7, datasize_in_buffer = 9, jh_x = [], jbuffer = replicate 64 0xff\<rparr> [1, 2, 3] 3
    = Some (Inr (Some (spec_jh 256 [1, 2, 3] 24)))"
  using hash_extra_jh_correct [of "\<lparr>hashbitlen = 0, databitlen = 7, datasize_in_buffer = 9, jh_x = [], jbuffer = replicate 64 0xff\<rparr>" "[1, 2, 3]"]
  by simp

section \<open>The accesses outside the buffer\<close>

text \<open>
  C35. When the context has data in its buffer and the next piece does not complete the block, \<^verbatim>\<open>Update\<close> copies as many bytes as the buffer has left and
  not as many as the piece has: for a piece that ends inside a byte the copy always runs past the end of the buffer, and for one of whole bytes it runs past the end of the
  piece, unless the caller's array goes on for the rest of the block.
\<close>

theorem jh_overrun:
  assumes "0 < datasize_in_buffer st" "unat (datasize_in_buffer st) + unat n < 512"
    "unat n mod 8 \<noteq> 0 \<or> length data < 64 - unat (datasize_in_buffer st) div 8"
  shows "jh_Update st data n = Inl Out_of_bounds"
proof -
  let ?m = "datasize_in_buffer st"
  have s: "unat (?m + n) = unat ?m + unat n"
    using assms(2) by (intro unat_plus_if'[THEN trans]) simp
  have k: "unat (drop_bit 3 ?m) = unat ?m div 8"
    by (simp add: drop_bit_eq_div unat_div)
  moreover have "unat ?m div 8 < 64"
    using assms(2) by (simp add: less_mult_imp_div_less)
  ultimately have l: "unat (64 - drop_bit 3 ?m) = 64 - unat ?m div 8" "unat (64 - drop_bit 3 ?m + 1) = 65 - unat ?m div 8"
    by (simp_all add: unat_sub word_le_nat_alt unat_word_ariths)
  have c: "0 < ?m \<and> ?m + n < 512"
    using assms(1,2) s by (simp add: word_less_nat_alt)
  show ?thesis
    using assms(3) c k l unat_masks(4) [of n]
    by (auto simp: jh_Update_def jh_fill_def copy_in_def Let_def)
qed

theorem jh_overrun_witness:
  "jh_Update \<lparr>hashbitlen = 256, databitlen = 8, datasize_in_buffer = 8, jh_x = replicate 16 0, jbuffer = replicate 64 0\<rparr> [0x80] 1 = Inl Out_of_bounds"
  by (rule jh_overrun) simp_all

end
