(* ===== verification/Spec2Isabelle.thy ===== *)
theory Spec2Isabelle
  imports Scalar BaseMult Compress TreeHash Chacha BlakeHash GroestlHash JhHash
begin

text \<open>
  \<^bold>\<open>The program.\<close> The repository is a hub around a CryptoNote coin. The part of it that decides who owns what is the C library of
  the coin under \<^verbatim>\<open>src/core/hostblock/xr-coin-master/src/crypto\<close>; wallets, consensus and the peer-to-peer code are C++ on top of it,
  and the rest of the hub is scripts and pages. This development models the C library and proves its routines correct against
  independent definitions. The library has three layers, which call each other as follows.

    \<^item> \<^emph>\<open>Curve arithmetic\<close>, \<^verbatim>\<open>crypto-ops.c\<close> and \<^verbatim>\<open>crypto-ops-data.c\<close>: field elements modulo \<open>p = 2 ^ 255 - 19\<close> in ten limbs (\<^verbatim>\<open>fe_*\<close>),
      scalars modulo the group order in 32 bytes (\<^verbatim>\<open>sc_*\<close>), points of the curve in four coordinate systems with their
      additions, multiplications and encodings (\<^verbatim>\<open>ge_*\<close>).
    \<^item> \<^emph>\<open>Hashes\<close>: Keccak (\<^verbatim>\<open>keccak.c\<close>) with the fast hash (\<^verbatim>\<open>hash.c\<close>) and the Merkle root (\<^verbatim>\<open>tree-hash.c\<close>) built on it; BLAKE-256 and HMAC
      (\<^verbatim>\<open>blake256.c\<close>), Groestl-256 (\<^verbatim>\<open>groestl.c\<close>) and JH (\<^verbatim>\<open>jh.c\<close>), which serve as final hashes of the proof of work.
    \<^item> \<^emph>\<open>Ciphers\<close>: ChaCha (\<^verbatim>\<open>chacha.c\<close>) for wallet files, the AES rounds (\<^verbatim>\<open>aesb.c\<close>) of the proof of work.

  \<^bold>\<open>Theories and what they show.\<close>

    \<^item> \<^verbatim>\<open>Prelude\<close>, \<^verbatim>\<open>Limbs\<close>, \<^verbatim>\<open>Loads\<close>: 32-bit and 64-bit signed arithmetic with written-out wrap-around, little-endian byte strings, carries
      between limbs (locale \<^verbatim>\<open>limb_step\<close>, interpreted on every carry step of the code), loads of 3 and 4 bytes.
    \<^item> \<^verbatim>\<open>Scalar\<close>: \<^verbatim>\<open>sc_reduce\<close>, \<^verbatim>\<open>sc_muladd\<close>, \<^verbatim>\<open>sc_mulsub\<close>, \<^verbatim>\<open>sc_mul\<close>, \<^verbatim>\<open>sc_add\<close>, \<^verbatim>\<open>sc_sub\<close>, \<^verbatim>\<open>sc_reduce32\<close>, \<^verbatim>\<open>sc_check\<close>. No 64-bit operation overflows, and
      the result is the canonical residue for every input.
    \<^item> \<^verbatim>\<open>Field\<close>, \<^verbatim>\<open>FieldBytes\<close>, \<^verbatim>\<open>FieldPow\<close>: every \<^verbatim>\<open>fe_\<close> routine on lists of ten 32-bit limbs; within the bounds that the comments of the code state,
      results are right modulo \<open>p\<close> and within the bounds their callers need. The exponentiation chains of \<^verbatim>\<open>fe_invert\<close> and
      \<^verbatim>\<open>fe_divpowm1\<close> rest on the locale \<^verbatim>\<open>power_chain\<close>. That \<open>p\<close> is prime is not used: \<^verbatim>\<open>fe_invert\<close> is shown to be the power \<open>p - 2\<close>.
    \<^item> \<^verbatim>\<open>Group\<close>: the coordinate systems as records, additions and doublings against the addition law of the twisted Edwards curve, stated
      without division: a point is represented by coordinates that satisfy the cross-multiplied equations. The constants of
      \<^verbatim>\<open>crypto-ops-data.c\<close> are the values that its comments name.
    \<^item> \<^verbatim>\<open>Recode\<close>, \<^verbatim>\<open>Tables\<close>, \<^verbatim>\<open>BasePoint\<close>, \<^verbatim>\<open>ScalarMult\<close>, \<^verbatim>\<open>BaseMult\<close>: signed digits and sliding windows of scalars, the tables of multiples of the
      base point (locale \<^verbatim>\<open>table_entry\<close>), constant-time selection, and the loops of the multiplications. The theorems have as
      hypothesis a family \<open>M\<close> of multiples of the point (\<^verbatim>\<open>ed_mults\<close>): points of the curve with \<open>M (a + b)\<close> the sum of \<open>M a\<close> and \<open>M b\<close> under the addition
      law for all integers \<open>a\<close> and \<open>b\<close>, \<open>M 0\<close> the neutral point and \<open>M (- a)\<close> the negative of \<open>M a\<close> (\<^verbatim>\<open>ed_mults2\<close> is the same for the combinations of two
      points). It replaces the associativity of the addition law, which is not proved here. For the routines that read \<^verbatim>\<open>ge_base\<close> and
      \<^verbatim>\<open>ge_Bi\<close> the definitions \<^verbatim>\<open>*_from\<close> take the table as an argument. \<^verbatim>\<open>ge_Bi\<close> is shown to hold the odd multiples that its comment names, and \<^verbatim>\<open>BaseMult\<close> applies the
      theorem on the double multiplications to it; of \<^verbatim>\<open>ge_base\<close> only the shape and the bounds of the limbs are shown. Above \<open>2 ^ 255\<close> the
      sliding windows may lose a carry: \<^verbatim>\<open>Recode\<close> says by how much the digits are off.
    \<^item> \<^verbatim>\<open>Compress\<close>: \<^verbatim>\<open>ge_tobytes\<close>, \<^verbatim>\<open>ge_p3_tobytes\<close>, \<^verbatim>\<open>ge_frombytes_vartime\<close>, \<^verbatim>\<open>ge_fromfe_frombytes_vartime\<close>: decoded points are on the curve and encode to
      the string they came from; non-canonical strings are rejected. The last routine is modelled for builds with and without
      assertions (the argument \<open>ndebug\<close>), since \<^verbatim>\<open>NDEBUG\<close> removes its final check.
    \<^item> \<^verbatim>\<open>ByteWords\<close>, \<^verbatim>\<open>Words64\<close>, \<^verbatim>\<open>Streaming\<close>, \<^verbatim>\<open>WordMatrix\<close>: words in byte strings, blocks of strings, and the interface of incremental hashing as locales
      (\<^verbatim>\<open>absorbing\<close>, \<^verbatim>\<open>streaming\<close>) that are interpreted on the contexts of Keccak and BLAKE.
    \<^item> \<^verbatim>\<open>Keccak\<close>, \<^verbatim>\<open>KeccakF\<close>, \<^verbatim>\<open>KeccakSponge\<close>: the in-place permutation against the five steps of its definition, the sponge, the agreement of the incremental
      with the one-shot hash, and the calls that abort or do not end (the loop over blocks is a partial function).
    \<^item> \<^verbatim>\<open>TreeHash\<close>: the Merkle root as the root of a binary tree over the hashes in order; the power of two below a count.
    \<^item> \<^verbatim>\<open>Chacha\<close>: the key stream of the definition, for every message length, and decryption.
    \<^item> \<^verbatim>\<open>Blake\<close>, \<^verbatim>\<open>BlakeCompress\<close>, \<^verbatim>\<open>BlakeHash\<close>: compression function, counters, padding, incremental hashing and HMAC. The definition has its own
      permutations, byte order and constants (digits of \<open>\<pi>\<close> and of square roots), to which the tables of the code are compared.
    \<^item> \<^verbatim>\<open>Aes\<close>: the substitution as the affine map of the inverse in the field of 256 elements, and the table-driven rounds against the
      byte-wise definition.
    \<^item> \<^verbatim>\<open>Groestl\<close>, \<^verbatim>\<open>GroestlTable\<close>, \<^verbatim>\<open>GroestlPerm\<close>, \<^verbatim>\<open>GroestlHash\<close>: the program, its table, the two permutations against their byte-wise definition (with the
      substitution and the field of \<^verbatim>\<open>Aes\<close>), and the hash of messages of any number of bits.
    \<^item> \<^verbatim>\<open>Jh\<close>, \<^verbatim>\<open>JhSpec\<close>, \<^verbatim>\<open>JhPerm\<close>, \<^verbatim>\<open>JhConst\<close>, \<^verbatim>\<open>JhE8\<close>, \<^verbatim>\<open>JhHash\<close>: the bit-sliced program; the definition of JH on 256 elements of four bits; that seven
      bit-sliced rounds are seven rounds of the definition, each in its own order of the elements; the round constants as the rounds of a smaller
      instance; the hash for the four digest sizes and messages of any number of bits, with the accesses to message and buffer; and the
      sequence of calls that leaves the buffer.

  \<^bold>\<open>How the code is modelled.\<close> A 32-bit or 64-bit unsigned integer is a word; a signed integer of the limb arithmetic is an integer whose
  operations wrap explicitly (\<^verbatim>\<open>s32\<close>, \<^verbatim>\<open>s64\<close>), and the theorems show that they do not. An array is a list, updated by index where the code does so in
  place; a struct is a record. An \<^verbatim>\<open>assert\<close> or \<^verbatim>\<open>local_abort\<close> that fails, a call without result and a result that is never written
  are values of an option or a sum type; the assertion of \<^verbatim>\<open>fe_cmov\<close> is a predicate of its own (\<^verbatim>\<open>fe_cmov_ok\<close>), and what
  \<^verbatim>\<open>ge_frombytes_vartime\<close> has written to its result when it returns \<open>-1\<close> is dropped. Loops are recursive functions with a measure; the one loop that can run forever is a
  partial function, so that not returning is a value. No definition uses fuel. Memory that the code leaves uninitialised is an argument, and
  the theorems hold for all its values. The machine is little-endian: the byte swaps of the code for other machines are the identity.

  \<^bold>\<open>Not modelled.\<close> The fourth final hash of the proof of work (\<^verbatim>\<open>skein.c\<close>), the AES key expansion (\<^verbatim>\<open>oaes_lib.c\<close>) and the memory-hard
  loop (\<^verbatim>\<open>slow-hash.c\<close>), whose fast paths are compiler intrinsics; KangarooTwelve, a vendored reference implementation; \<^verbatim>\<open>random.c\<close>, which reads
  the operating system; \<^verbatim>\<open>rctCryptoOps.c\<close>, a variant of the decompression that is modelled; allocation and memory wiping; the vendored database; the
  C++ code, built on templates, Boost and the database; and the scripts of the hub.
\<close>

end
